(* ===== verification/Prelude.thy ===== *)
theory Prelude
  imports Main "HOL-Library.Word" "HOL-Library.Sublist"
begin

text \<open>
  What every component shares: machine integers, Go's \<^verbatim>\<open>error\<close> values with
  \<^verbatim>\<open>errors.Is\<close> and \<^verbatim>\<open>.Error()\<close>, effectful Go functions as state-passing
  actions that return an error or a value, and the Hoare rules by which the components' proofs
  compose.
\<close>

section \<open>Machine integers\<close>

type_synonym u64 = "64 word"
type_synonym u32 = "32 word"
type_synonym i64 = "64 word" \<comment> \<open>Go's int64: read with sint\<close>

lemma unat_eq_unat_iff [simp]: "unat (a :: 'a::len word) = unat b \<longleftrightarrow> a = b"
  by (simp add: word_eq_iff_unsigned [where 'a = nat])

lemma unat_bounds [simp]:
  "unat (x :: 64 word) < 18446744073709551616" "unat (y :: 32 word) < 4294967296"
  using unsigned_less [of x, where 'a = nat] unsigned_less [of y, where 'a = nat] by simp_all

lemma unat_max_minus: "unat (- 1 - (x :: 64 word)) = 18446744073709551615 - unat x"
proof -
  have "unat (- 1 - x) = unat (- 1 :: 64 word) - unat x" by (rule unat_sub) simp
  then show ?thesis by (simp add: unsigned_minus_1_eq_mask mask_eq_exp_minus_1)
qed

section \<open>Automation collections\<close>

named_theorems hoare_rules \<open>Hoare rules of the action combinators\<close>
named_theorems act_defs \<open>definitions of the action combinators\<close>

lemmas act_splits = prod.splits sum.splits if_splits option.splits

section \<open>Go error values\<close>

text \<open>
  \<open>Sentinel\<close> is a package-level \<^verbatim>\<open>var ErrX = errors.New(text)\<close>, the only errors that are
  compared (the texts are pairwise distinct in this program, so the text names the variable);
  \<open>Txt\<close> is any other \<^verbatim>\<open>errors.New\<close> or a literal part of a format; \<open>Cat\<close> is
  \<^verbatim>\<open>fmt.Errorf\<close> with \<^verbatim>\<open>%w\<close> and \<^verbatim>\<open>errors.Join\<close>: the texts in order, wrapping both parts.
\<close>

datatype err = Sentinel string | Txt string | Cat err err

fun err_text :: "err \<Rightarrow> string" where
  "err_text (Sentinel s) = s"
| "err_text (Txt s) = s"
| "err_text (Cat a b) = err_text a @ err_text b"

text \<open>\<^verbatim>\<open>errors.Is\<close>\<close>

fun err_is :: "err \<Rightarrow> err \<Rightarrow> bool" where
  "err_is (Sentinel s) t \<longleftrightarrow> t = Sentinel s"
| "err_is (Txt s) t \<longleftrightarrow> False"
| "err_is (Cat a b) t \<longleftrightarrow> err_is a t \<or> err_is b t"

text \<open>\<^verbatim>\<open>errors.Join\<close>: nil arguments are dropped, no argument left is nil.\<close>

definition join_err :: "err option \<Rightarrow> err option \<Rightarrow> err option" where
  "join_err a b =
     (case (a, b) of
        (None, y) \<Rightarrow> y
      | (x, None) \<Rightarrow> x
      | (Some x, Some y) \<Rightarrow> Some (Cat x (Cat (Txt [CHR 0x0A]) y)))"

lemma join_err_None [simp]:
  "join_err None y = y" "join_err x None = x" "join_err x y = None \<longleftrightarrow> x = None \<and> y = None"
  by (auto simp: join_err_def split: option.splits)

text \<open>\<^verbatim>\<open>context.Canceled\<close>, the error of a cancelled context.\<close>

definition CtxCanceled :: err where
  "CtxCanceled = Sentinel ''context canceled''"

text \<open>\<^verbatim>\<open>sql.ErrNoRows\<close>\<close>

definition ErrNoRows :: err where
  "ErrNoRows = Sentinel ''sql: no rows in result set''"

section \<open>Actions\<close>

text \<open>A Go function that returns \<^verbatim>\<open>(T, error)\<close> and changes the world \<open>'w\<close>.\<close>

type_synonym ('w, 'a) act = "'w \<Rightarrow> (err + 'a) \<times> 'w"

definition ret :: "'a \<Rightarrow> ('w, 'a) act" where
  [act_defs]: "ret x w = (Inr x, w)"

definition throw :: "err \<Rightarrow> ('w, 'a) act" where
  [act_defs]: "throw e w = (Inl e, w)"

text \<open>Run, return early on an error, hand the value on: \<^verbatim>\<open>x, err := m; if err != nil { return err }\<close>.\<close>

definition bindA :: "('w, 'a) act \<Rightarrow> ('a \<Rightarrow> ('w, 'b) act) \<Rightarrow> ('w, 'b) act" where
  [act_defs]: "bindA m f w = (case m w of (Inl e, v) \<Rightarrow> (Inl e, v) | (Inr x, v) \<Rightarrow> f x v)"

text \<open>Run, and continue with the error or the value.\<close>

definition tryA :: "('w, 'a) act \<Rightarrow> (err \<Rightarrow> ('w, 'b) act) \<Rightarrow> ('a \<Rightarrow> ('w, 'b) act) \<Rightarrow> ('w, 'b) act"
  where
  [act_defs]: "tryA m h f w = (case m w of (Inl e, v) \<Rightarrow> h e v | (Inr x, v) \<Rightarrow> f x v)"

text \<open>\<^verbatim>\<open>if b { return err }\<close>.\<close>

definition failIf :: "bool \<Rightarrow> err \<Rightarrow> ('w, unit) act" where
  [act_defs]: "failIf b e = (if b then throw e else ret ())"

text \<open>A pure result as an action.\<close>

definition liftE :: "err + 'a \<Rightarrow> ('w, 'a) act" where
  [act_defs]: "liftE r w = (r, w)"

definition getA :: "('w \<Rightarrow> 'a) \<Rightarrow> ('w, 'a) act" where
  [act_defs]: "getA f w = (Inr (f w), w)"

definition modifyA :: "('w \<Rightarrow> 'w) \<Rightarrow> ('w, unit) act" where
  [act_defs]: "modifyA f w = (Inr (), f w)"

text \<open>\<^verbatim>\<open>for _, x := range xs { if err := f(x); err != nil { return err } }\<close>\<close>

fun forA :: "'a list \<Rightarrow> ('a \<Rightarrow> ('w, unit) act) \<Rightarrow> ('w, unit) act" where
  "forA [] f = ret ()"
| "forA (x # xs) f = bindA (f x) (\<lambda>_. forA xs f)"

section \<open>Hoare triples over actions\<close>

text \<open>\<open>hoare P m Q E\<close>: from a world with \<open>P\<close>, a normal return satisfies \<open>Q\<close>, an error \<open>E\<close>.\<close>

definition hoare ::
  "('w \<Rightarrow> bool) \<Rightarrow> ('w, 'a) act \<Rightarrow> ('a \<Rightarrow> 'w \<Rightarrow> bool) \<Rightarrow> (err \<Rightarrow> 'w \<Rightarrow> bool) \<Rightarrow> bool" where
  "hoare P m Q E \<longleftrightarrow>
     (\<forall>w. P w \<longrightarrow> (case m w of (Inl e, v) \<Rightarrow> E e v | (Inr x, v) \<Rightarrow> Q x v))"

lemma hoareI:
  assumes "\<And>w e v. P w \<Longrightarrow> m w = (Inl e, v) \<Longrightarrow> E e v"
    and "\<And>w x v. P w \<Longrightarrow> m w = (Inr x, v) \<Longrightarrow> Q x v"
  shows "hoare P m Q E"
  using assms by (auto simp: hoare_def split: prod.splits sum.splits)

lemma hoareD_ok: "hoare P m Q E \<Longrightarrow> P w \<Longrightarrow> m w = (Inr x, v) \<Longrightarrow> Q x v"
  by (auto simp: hoare_def split: prod.splits sum.splits dest!: spec [where x = w])

lemma hoareD_err: "hoare P m Q E \<Longrightarrow> P w \<Longrightarrow> m w = (Inl e, v) \<Longrightarrow> E e v"
  by (auto simp: hoare_def split: prod.splits sum.splits dest!: spec [where x = w])

lemma hoare_weaken:
  assumes "hoare P' m Q' E'" "\<And>w. P w \<Longrightarrow> P' w"
    and "\<And>x v. Q' x v \<Longrightarrow> Q x v" "\<And>e v. E' e v \<Longrightarrow> E e v"
  shows "hoare P m Q E"
  by (rule hoareI) (use assms(2-) hoareD_err [OF assms(1)] hoareD_ok [OF assms(1)] in blast)+

lemma hoare_pre: "hoare P' m Q E \<Longrightarrow> (\<And>w. P w \<Longrightarrow> P' w) \<Longrightarrow> hoare P m Q E"
  by (erule hoare_weaken) auto

lemma hoare_ret [hoare_rules]: "(\<And>w. P w \<Longrightarrow> Q x w) \<Longrightarrow> hoare P (ret x) Q E"
  by (simp add: hoare_def ret_def)

lemma hoare_throw [hoare_rules]: "(\<And>w. P w \<Longrightarrow> E e w) \<Longrightarrow> hoare P (throw e) Q E"
  by (simp add: hoare_def throw_def)

lemma hoare_bind [hoare_rules]:
  "hoare P m R E \<Longrightarrow> (\<And>x. hoare (R x) (f x) Q E) \<Longrightarrow> hoare P (bindA m f) Q E"
  by (fastforce simp: hoare_def bindA_def split: prod.splits sum.splits)

lemma hoare_try [hoare_rules]:
  "hoare P m R F \<Longrightarrow> (\<And>e. hoare (F e) (h e) Q E) \<Longrightarrow> (\<And>x. hoare (R x) (f x) Q E) \<Longrightarrow>
   hoare P (tryA m h f) Q E"
  by (fastforce simp: hoare_def tryA_def split: prod.splits sum.splits)

lemma hoare_failIf [hoare_rules]:
  "(\<And>w. P w \<Longrightarrow> b \<Longrightarrow> E e w) \<Longrightarrow> (\<And>w. P w \<Longrightarrow> \<not> b \<Longrightarrow> Q () w) \<Longrightarrow> hoare P (failIf b e) Q E"
  by (simp add: hoare_def failIf_def ret_def throw_def)

lemma hoare_get [hoare_rules]: "(\<And>w. P w \<Longrightarrow> Q (f w) w) \<Longrightarrow> hoare P (getA f) Q E"
  by (simp add: hoare_def getA_def)

lemma hoare_modify [hoare_rules]: "(\<And>w. P w \<Longrightarrow> Q () (f w)) \<Longrightarrow> hoare P (modifyA f) Q E"
  by (simp add: hoare_def modifyA_def)

lemma hoare_liftE [hoare_rules]:
  "(\<And>w e. P w \<Longrightarrow> r = Inl e \<Longrightarrow> E e w) \<Longrightarrow> (\<And>w x. P w \<Longrightarrow> r = Inr x \<Longrightarrow> Q x w) \<Longrightarrow>
   hoare P (liftE r) Q E"
  by (cases r) (auto simp: hoare_def liftE_def)

lemma hoare_if [hoare_rules]:
  "(b \<Longrightarrow> hoare P m Q E) \<Longrightarrow> (\<not> b \<Longrightarrow> hoare P n Q E) \<Longrightarrow> hoare P (if b then m else n) Q E"
  by simp

lemma hoare_case_option [hoare_rules]:
  "(x = None \<Longrightarrow> hoare P m Q E) \<Longrightarrow> (\<And>y. x = Some y \<Longrightarrow> hoare P (f y) Q E) \<Longrightarrow>
   hoare P (case x of None \<Rightarrow> m | Some y \<Rightarrow> f y) Q E"
  by (cases x) auto

lemma hoare_for:
  assumes "\<And>x. x \<in> set xs \<Longrightarrow> hoare I (f x) (\<lambda>_. I) E"
  shows "hoare I (forA xs f) (\<lambda>_. I) E"
  using assms by (induction xs) (auto intro!: hoare_rules)

lemma bindA_ret [simp]: "bindA (ret x) f = f x"
  by (simp add: fun_eq_iff act_defs)

lemma bindA_throw [simp]: "bindA (throw e) f = throw e"
  by (simp add: fun_eq_iff act_defs)

lemma bindA_ok_iff:
  "bindA m f w = (Inr y, v) \<longleftrightarrow> (\<exists>x u. m w = (Inr x, u) \<and> f x u = (Inr y, v))"
  by (auto simp: bindA_def split: prod.splits sum.splits)

lemma bindA_err_iff:
  "bindA m f w = (Inl e, v) \<longleftrightarrow>
     m w = (Inl e, v) \<or> (\<exists>x u. m w = (Inr x, u) \<and> f x u = (Inl e, v))"
  by (auto simp: bindA_def split: prod.splits sum.splits)

end
