(* ===== verification/GoStrings.thy ===== *)
theory GoStrings
  imports Prelude
begin

text \<open>
  The parts of Go's standard library on strings that the program uses, over byte strings
  (\<open>char list\<close>): \<^verbatim>\<open>strconv.FormatUint\<close> and the verb \<^verbatim>\<open>%d\<close>, \<^verbatim>\<open>strconv.ParseUint\<close> in base 10,
  \<^verbatim>\<open>strings.Split\<close>, \<^verbatim>\<open>Join\<close>, \<^verbatim>\<open>HasPrefix\<close> / \<^verbatim>\<open>HasSuffix\<close> and the trims, with the lemmas the
  key and capacity parsers need.
\<close>

section \<open>Decimal numbers\<close>

definition digit :: "nat \<Rightarrow> char" where
  "digit d = char_of (48 + d)"

definition is_digit :: "char \<Rightarrow> bool" where
  "is_digit c \<longleftrightarrow> 48 \<le> (of_char c :: nat) \<and> (of_char c :: nat) \<le> 57"

definition digit_val :: "char \<Rightarrow> nat" where
  "digit_val c = of_char c - 48"

fun dec :: "nat \<Rightarrow> string" where
  "dec n = (if n < 10 then [digit n] else dec (n div 10) @ [digit (n mod 10)])"

declare dec.simps [simp del]

fun dec_val :: "nat \<Rightarrow> string \<Rightarrow> nat" where
  "dec_val a [] = a"
| "dec_val a (c # cs) = dec_val (10 * a + digit_val c) cs"

text \<open>The verb \<^verbatim>\<open>%d\<close> on a signed integer.\<close>

definition dec_int :: "int \<Rightarrow> string" where
  "dec_int i = (if i < 0 then CHR ''-'' # dec (nat (- i)) else dec (nat i))"

text \<open>
  \<^verbatim>\<open>strconv.ParseUint(s, 10, bits)\<close>: no sign, no underscore, at least one digit, in range.
\<close>

definition parse_uint :: "nat \<Rightarrow> string \<Rightarrow> nat option" where
  "parse_uint bits s =
     (if s = [] \<or> \<not> list_all is_digit s then None
      else let n = dec_val 0 s in if n < 2 ^ bits then Some n else None)"

lemma of_char_digit [simp]: "d < 10 \<Longrightarrow> (of_char (digit d) :: nat) = 48 + d"
  by (simp add: digit_def)

lemma is_digit_digit [simp]: "d < 10 \<Longrightarrow> is_digit (digit d)"
  by (simp add: is_digit_def)

lemma digit_val_digit [simp]: "d < 10 \<Longrightarrow> digit_val (digit d) = d"
  by (simp add: digit_val_def)

lemma digit_chars: "digit 0 = CHR ''0''" "digit 1 = CHR ''1''" "digit (Suc 0) = CHR ''1''" "digit 2 = CHR ''2''" "digit 3 = CHR ''3''"
  "digit 4 = CHR ''4''" "digit 5 = CHR ''5''" "digit 6 = CHR ''6''" "digit 7 = CHR ''7''" "digit 8 = CHR ''8''" "digit 9 = CHR ''9''"
  by code_simp+

lemma dec_val_append: "dec_val a (xs @ ys) = dec_val (dec_val a xs) ys"
  by (induction xs arbitrary: a) auto

lemma dec_val_dec [simp]: "dec_val 0 (dec n) = n"
  by (induction n rule: dec.induct) (subst dec.simps, auto simp: dec_val_append)

lemma dec_digits: "list_all is_digit (dec n)"
  by (induction n rule: dec.induct) (subst dec.simps, auto)

lemma dec_nonempty [simp]: "dec n \<noteq> []"
  by (subst dec.simps) simp

lemma dec_length [simp]: "Suc 0 \<le> length (dec n)" "0 < length (dec n)"
  using dec_nonempty [of n] by (cases "dec n"; simp)+

lemma dec_inj [simp]: "dec m = dec n \<longleftrightarrow> m = n"
  by (metis dec_val_dec)

lemma dec_no_char: "\<not> is_digit c \<Longrightarrow> c \<notin> set (dec n)"
  using dec_digits [of n] by (auto simp: list_all_iff)

lemma is_digit_sep [simp]:
  "\<not> is_digit (CHR ''_'')" "\<not> is_digit (CHR ''-'')" "\<not> is_digit (CHR ''s'')"
  "\<not> is_digit (CHR ''e'')" "\<not> is_digit (CHR ''p'')" "\<not> is_digit (CHR ''v'')"
  by (simp_all add: is_digit_def)

lemma dec_no_underscore [simp]: "CHR ''_'' \<notin> set (dec n)"
  by (simp add: dec_no_char)

lemma parse_uint_dec [simp]: "n < 2 ^ bits \<Longrightarrow> parse_uint bits (dec n) = Some n"
  by (simp add: parse_uint_def dec_digits)

lemma parse_uint_bound: "parse_uint bits s = Some n \<Longrightarrow> n < 2 ^ bits"
  by (auto simp: parse_uint_def Let_def split: if_splits)

lemma dec_int_nonneg: "0 \<le> i \<Longrightarrow> dec_int i = dec (nat i)"
  by (simp add: dec_int_def)

section \<open>Splitting and joining\<close>

fun split_on :: "char \<Rightarrow> string \<Rightarrow> string list" where
  "split_on c [] = [[]]"
| "split_on c (x # xs) =
     (if x = c then [] # split_on c xs
      else (case split_on c xs of [] \<Rightarrow> [[x]] | y # ys \<Rightarrow> (x # y) # ys))"

fun join_on :: "string \<Rightarrow> string list \<Rightarrow> string" where
  "join_on sep [] = []"
| "join_on sep [s] = s"
| "join_on sep (s # t # ts) = s @ sep @ join_on sep (t # ts)"

lemma split_on_nonempty [simp]: "split_on c s \<noteq> []"
  by (induction s) (auto split: list.splits)

lemma split_on_none [simp]: "c \<notin> set s \<Longrightarrow> split_on c s = [s]"
  by (induction s) auto

lemma split_on_sep [simp]: "c \<notin> set s \<Longrightarrow> split_on c (s @ c # t) = s # split_on c t"
  by (induction s) auto

lemma join_split [simp]: "join_on [c] (split_on c s) = s"
proof (induction s)
  case (Cons x xs)
  then show ?case
    by (cases "split_on c xs"; cases "tl (split_on c xs)") auto
qed simp

section \<open>Prefixes and suffixes\<close>

definition trim_prefix :: "string \<Rightarrow> string \<Rightarrow> string" where
  "trim_prefix s p = (if prefix p s then drop (length p) s else s)"

definition trim_suffix :: "string \<Rightarrow> string \<Rightarrow> string" where
  "trim_suffix s t = (if suffix t s then take (length s - length t) s else s)"

text \<open>\<^verbatim>\<open>strings.Contains\<close>\<close>

definition contains :: "string \<Rightarrow> string \<Rightarrow> bool" where
  "contains s t \<longleftrightarrow> sublist t s"

lemma trim_suffix_append [simp]: "trim_suffix (s @ t) t = s"
  by (simp add: trim_suffix_def suffix_def)

text \<open>A separator that the first parts do not hold cuts two equal strings at the same place.\<close>

lemma append_sep_eq:
  assumes "a @ c # x = b @ c # y" "c \<notin> set a" "c \<notin> set b"
  shows "a = b \<and> x = y"
  using assms
proof (induction a arbitrary: b)
  case Nil
  then show ?case by (cases b) auto
next
  case (Cons h t)
  then show ?case by (cases b) auto
qed

section \<open>Runes\<close>

text \<open>
  \<^verbatim>\<open>[]rune(s)\<close>: the byte groups of the code points. \<open>seq_len\<close> is the length of the UTF-8
  sequence at the front, 0 when there is none; an invalid byte is one replacement character
  (U+FFFD), which \<^verbatim>\<open>string(...)\<close> writes back as its three bytes.
\<close>

definition cont_byte :: "nat \<Rightarrow> bool" where
  "cont_byte b \<longleftrightarrow> 128 \<le> b \<and> b \<le> 191"

fun seq_len :: "nat list \<Rightarrow> nat" where
  "seq_len [] = 0"
| "seq_len (b # bs) =
     (if b < 128 then 1
      else if 194 \<le> b \<and> b \<le> 223 then (if 1 \<le> length bs \<and> cont_byte (bs ! 0) then 2 else 0)
      else if 224 \<le> b \<and> b \<le> 239
      then (if 2 \<le> length bs \<and> (if b = 224 then 160 else 128) \<le> bs ! 0 \<and>
              bs ! 0 \<le> (if b = 237 then 159 else 191) \<and> cont_byte (bs ! 1) then 3 else 0)
      else if 240 \<le> b \<and> b \<le> 244
      then (if 3 \<le> length bs \<and> (if b = 240 then 144 else 128) \<le> bs ! 0 \<and>
              bs ! 0 \<le> (if b = 244 then 143 else 191) \<and> cont_byte (bs ! 1) \<and> cont_byte (bs ! 2)
            then 4 else 0)
      else 0)"

function runes :: "string \<Rightarrow> string list" where
  "runes [] = []"
| "runes (c # cs) =
     (let n = seq_len (map of_char (c # cs)) in
      if n = 0 then [CHR 0xEF, CHR 0xBF, CHR 0xBD] # runes cs
      else take n (c # cs) # runes (drop n (c # cs)))"
  by pat_completeness auto
termination
  by (relation "measure length") auto

text \<open>Unicode white space, as \<^verbatim>\<open>strings.TrimSpace\<close> sees it.\<close>

definition is_space_rune :: "string \<Rightarrow> bool" where
  "is_space_rune r \<longleftrightarrow> map of_char r \<in> set
     ([[9], [10], [11], [12], [13], [32], [194, 133], [194, 160], [225, 154, 128],
      [226, 128, 168], [226, 128, 169], [226, 128, 175], [226, 129, 159], [227, 128, 128 :: nat]] @
      map (\<lambda>b. [226, 128, b]) [128..<139])"

text \<open>\<^verbatim>\<open>strings.TrimSpace(s) == ""\<close>\<close>

definition blank :: "string \<Rightarrow> bool" where
  "blank s \<longleftrightarrow> list_all is_space_rune (runes s)"

declare seq_len.simps(2) [simp del] runes.simps(2) [simp del]

lemma runes_length: "length (runes s) \<le> length s"
proof (induction s rule: runes.induct)
  case (2 c cs)
  define n where "n = seq_len (map of_char (c # cs))"
  show ?case
  proof (cases "n = 0")
    case True
    then show ?thesis using "2.IH"(1) [OF n_def] by (simp add: runes.simps(2) Let_def n_def)
  next
    case False
    then have "length (runes (drop n (c # cs))) \<le> length (drop n (c # cs))"
      using "2.IH"(2) [OF n_def] by simp
    also have "\<dots> \<le> length cs" using False by simp
    finally show ?thesis using False by (simp add: runes.simps(2) Let_def n_def)
  qed
qed simp

text \<open>An ASCII character is a rune of its own wherever it stands.\<close>

lemma seq_len_le: "seq_len bs \<le> length bs"
  by (cases bs) (auto simp: seq_len.simps(2))

lemma seq_len_ascii:
  "c < 128 \<Longrightarrow> b # bs = xs \<Longrightarrow> seq_len (xs @ c # ys) = seq_len xs"
  by (cases bs; cases "tl bs"; cases "tl (tl bs)") (auto simp: seq_len.simps(2) cont_byte_def nth_append)

lemma runes_ascii: "(of_char c :: nat) < 128 \<Longrightarrow> runes (xs @ c # ys) = runes xs @ [c] # runes ys"
proof (induction xs rule: runes.induct)
  case 1
  then show ?case by (simp add: runes.simps(2) seq_len.simps(2) Let_def)
next
  case (2 x xs)
  define n where "n = seq_len (map of_char (x # xs) :: nat list)"
  have n': "seq_len (map of_char (x # xs @ c # ys) :: nat list) = n"
    using seq_len_ascii [of "of_char c" "of_char x" "map of_char xs" _ "map of_char ys"] "2.prems" by (simp add: n_def)
  have n0: "seq_len (of_char x # map of_char xs :: nat list) = n" by (simp add: n_def)
  have le: "n \<le> Suc (length xs)" using seq_len_le [of "map of_char (x # xs)"] by (simp add: n_def)
  show ?case
  proof (cases "n = 0")
    case True
    then show ?thesis using "2.IH"(1) [OF n_def] "2.prems" n' n0 by (simp add: runes.simps(2) Let_def)
  next
    case False
    then have "take n (x # xs @ c # ys) = take n (x # xs)" "drop n (x # xs @ c # ys) = drop n (x # xs) @ c # ys"
      using le by (cases n; simp)+
    then show ?thesis using "2.IH"(2) [OF n_def] "2.prems" n' n0 False
      by (simp add: runes.simps(2) Let_def)
  qed
qed

lemma runes_ascii_word:
  "list_all (\<lambda>c. (of_char c :: nat) < 128) (c # p) \<Longrightarrow> runes (xs @ (c # p) @ ys) = runes xs @ map (\<lambda>c. [c]) (c # p) @ runes ys"
proof (induction p arbitrary: c xs)
  case (Cons d p)
  have "runes ([] @ (d # p) @ ys) = runes [] @ map (\<lambda>c. [c]) (d # p) @ runes ys"
    using Cons.prems by (intro Cons.IH) simp
  then show ?case using Cons.prems runes_ascii [of c xs "d # p @ ys"] by simp
qed (use runes_ascii in simp)

end
