(* ===== verification/ProgressRows.thy ===== *)
theory ProgressRows
  imports GoStrings
begin

text \<open>
  The values of \<^verbatim>\<open>internal/progress\<close> that are read and computed without a statement: a scanned
  object, a subtask with its displayed state, the counts of a subtask and the text under the
  manifest digest. The lemma on the digest text says that two lists with the same text are the
  same list, so a digest that is collision free decides the equality of manifests.

  Row counts (\<^verbatim>\<open>COUNT\<close>, sums of 0/1 columns, \<^verbatim>\<open>len\<close>) are natural numbers: Go holds them in 64 bits,
  and a table has fewer than \<open>2 ^ 64\<close> rows. Identifiers, sizes and byte totals keep their width.
\<close>

section \<open>Rows\<close>

record scan_row =
  sr_oid :: u64
  sr_payload :: u64
  sr_status :: string
  sr_version :: i64

text \<open>\<^verbatim>\<open>ClaimRow\<close> has the same fields.\<close>

type_synonym claim_row = scan_row

text \<open>
  \<^verbatim>\<open>Subtask\<close>: one row of \<^verbatim>\<open>purge_tasks\<close> as the code reads it. A null column is \<open>None\<close>; the time
  stamps are only tested for null by the code, and are kept as clock readings.
\<close>

record subtask =
  st_id :: u64
  st_target :: u64
  st_objects :: nat
  st_logical :: u64
  st_digest :: string
  st_phase :: string
  st_hold :: string
  st_hold_oid :: "u64 option"
  st_gen :: u64
  st_done :: "nat option"
  st_purged :: "nat option"
  st_conn :: "i64 option"

record sub_counts =
  c_total :: nat
  c_deferred :: nat
  c_pending :: nat
  c_failed :: nat
  c_processed :: nat
  c_verified :: nat
  c_residue :: nat
  c_errors :: nat
  c_keys :: u64
  c_bytes :: u64

text \<open>\<^verbatim>\<open>LockedBy\<close>: null never equals anything.\<close>

definition locked_by :: "subtask \<Rightarrow> i64 option \<Rightarrow> bool" where
  "locked_by s owner \<longleftrightarrow>
     owner \<noteq> None \<and> st_conn s \<noteq> None \<and> the owner = the (st_conn s)"

definition sub_state :: "subtask \<Rightarrow> sub_counts \<Rightarrow> bool \<Rightarrow> string" where
  "sub_state s c locked =
     (if st_hold s \<noteq> '''' then ''SAFETY_HOLD''
      else if st_done s \<noteq> None
      then (if c_deferred c > 0 then ''DONE_WITH_EXCEPTIONS'' else ''DONE'')
      else if st_phase s = ''READY'' then ''READY''
      else if locked
      then (if st_phase s = ''VERIFY'' then ''VERIFYING'' else ''RUNNING'')
      else if c_residue c > 0 \<or> c_errors c > 0 then ''VERIFY_FAILED''
      else if c_pending c > 0 \<or> c_failed c > 0 then ''RETRY_PENDING''
      else ''AWAITING_VERIFY'')"

section \<open>The manifest digest\<close>

abbreviation tab :: char where "tab \<equiv> CHR 0x09"
abbreviation newline :: char where "newline \<equiv> CHR 0x0A"

definition row_text :: "scan_row \<Rightarrow> string" where
  "row_text r = dec (unat (sr_oid r)) @ [tab] @ dec (unat (sr_payload r)) @ [tab] @
     sr_status r @ [tab] @ dec_int (sint (sr_version r)) @ [newline]"

fun digest_text :: "scan_row list \<Rightarrow> string" where
  "digest_text [] = []"
| "digest_text (r # rs) = row_text r @ digest_text rs"

text \<open>\<^verbatim>\<open>digestRows\<close>: \<open>H\<close> is SHA-256 with the result in hexadecimal digits.\<close>

definition digest_rows :: "(string \<Rightarrow> string) \<Rightarrow> scan_row list \<Rightarrow> string" where
  "digest_rows H rows = H (digest_text rows)"

section \<open>Lemmas\<close>

lemma not_digit_ctl [simp]: "\<not> is_digit tab" "\<not> is_digit newline"
  by (simp_all add: is_digit_def)

lemma dec_no_ctl [simp]: "tab \<notin> set (dec n)" "newline \<notin> set (dec n)"
  by (simp_all add: dec_no_char)

lemma dec_int_no_ctl [simp]: "tab \<notin> set (dec_int i)" "newline \<notin> set (dec_int i)"
  by (simp_all add: dec_int_def)

lemma dec_int_inj [simp]: "dec_int i = dec_int j \<longleftrightarrow> i = j"
proof -
  have "dec m \<noteq> CHR ''-'' # t" for m t
    using dec_no_char [of "CHR ''-''" m] by (auto dest: arg_cong [of _ _ set])
  then show ?thesis
    by (auto simp: dec_int_def dest: sym split: if_splits)
qed

definition plain_status :: "scan_row \<Rightarrow> bool" where
  "plain_status r \<longleftrightarrow> tab \<notin> set (sr_status r) \<and> newline \<notin> set (sr_status r)"

lemma row_text_inj:
  assumes "plain_status r" "plain_status r'" "row_text r @ xs = row_text r' @ ys"
  shows "r = r' \<and> xs = ys"
proof -
  have 1: "sr_oid r = sr_oid r'"
    and t1: "dec (unat (sr_payload r)) @ tab # sr_status r @ tab # dec_int (sint (sr_version r)) @ newline # xs =
      dec (unat (sr_payload r')) @ tab # sr_status r' @ tab # dec_int (sint (sr_version r')) @ newline # ys"
    using append_sep_eq [of "dec (unat (sr_oid r))" tab _ "dec (unat (sr_oid r'))"] assms(3)
    by (auto simp: row_text_def)
  have 2: "sr_payload r = sr_payload r'"
    and t2: "sr_status r @ tab # dec_int (sint (sr_version r)) @ newline # xs =
      sr_status r' @ tab # dec_int (sint (sr_version r')) @ newline # ys"
    using append_sep_eq [OF t1] by auto
  have 3: "sr_status r = sr_status r'"
    and t3: "dec_int (sint (sr_version r)) @ newline # xs = dec_int (sint (sr_version r')) @ newline # ys"
    using append_sep_eq [OF t2] assms(1,2) by (auto simp: plain_status_def)
  have 4: "sr_version r = sr_version r'" and 5: "xs = ys"
    using append_sep_eq [OF t3] by (auto intro: signed_word_eqI)
  from 1 2 3 4 have "r = r'" by (cases r; cases r') simp
  with 5 show ?thesis by simp
qed

section \<open>Properties\<close>

text \<open>C35. The text under the manifest digest determines the manifest: two lists of snapshots with
  the same digest text are equal, objects, sizes, states and versions (the chain's object states
  hold no tab and no line break). So a changed member or snapshot is only missed by a collision
  of the hash.\<close>

theorem digest_text_injective:
  assumes "list_all plain_status rows" "list_all plain_status rows'"
    and "digest_text rows = digest_text rows'"
  shows "rows = rows'"
  using assms
proof (induction rows arbitrary: rows')
  case Nil
  then show ?case by (cases rows') (auto simp: row_text_def)
next
  case (Cons r rs)
  then obtain r' rs' where r': "rows' = r' # rs'"
    by (cases rows') (auto simp: row_text_def)
  have "r = r' \<and> digest_text rs = digest_text rs'"
    using Cons.prems r' by (intro row_text_inj) auto
  then show ?case using Cons r' by auto
qed

theorem digest_text_injective_witness:
  "[\<lparr>sr_oid = 7, sr_payload = 0, sr_status = ''SEALED'', sr_version = 0\<rparr>] =
   [\<lparr>sr_oid = 7, sr_payload = 0, sr_status = ''SEALED'', sr_version = 0\<rparr>]"
  by (rule digest_text_injective) (simp_all add: plain_status_def)

end
