(* ===== verification/Database.thy ===== *)
theory Database
  imports ProgressRows
begin

text \<open>
  The progress database as the code sees it: the tables of \<^verbatim>\<open>EnsureSchema\<close>
  (\<^verbatim>\<open>internal/progress/progress.go\<close>), the MySQL session lock, contexts, and the meaning of a
  statement and of a transaction. A table is the list of its rows; each SQL statement of the
  source is translated at the function that issues it. Everything the environment can do to a
  statement is read from a script in the world: answer, refuse it, apply it and lose the reply,
  be interrupted by the operator, or take the named lock away.
\<close>

section \<open>Tables\<close>

record binding =
  b_chain :: string
  b_operator :: string
  b_storage :: string
  b_spdb :: string
  b_bucket :: string
  b_bucket_id :: u64

text \<open>The single row (\<open>id = 1\<close>) of \<^verbatim>\<open>task_meta\<close>.\<close>

record meta_row =
  m_binding :: binding
  m_status :: string
  m_bsdb_count :: "nat option"
  m_rows :: "nat option"
  m_finished :: "nat option"

record progress_row =
  pr_oid :: u64
  pr_status :: nat
  pr_keys :: u64
  pr_bytes :: u64
  pr_reason :: "string option"
  pr_role :: "string option"
  pr_expected :: "u64 option"
  pr_updated :: nat

record task_object =
  ob_task :: u64
  ob_oid :: u64
  ob_deferred :: bool
  ob_reason :: string
  ob_deferred_at :: "nat option"
  ob_gen :: u64
  ob_status :: string
  ob_detail :: string
  ob_verified_at :: "nat option"

record task_event =
  te_task :: u64
  te_oid :: "u64 option"
  te_action :: string
  te_reason :: string

text \<open>\<open>next_task\<close> is the AUTO_INCREMENT counter of \<^verbatim>\<open>purge_tasks\<close>.\<close>

record db =
  t_meta :: "meta_row option"
  t_scan :: "scan_row list"
  t_progress :: "progress_row list"
  t_tasks :: "subtask list"
  t_objects :: "task_object list"
  t_events :: "task_event list"
  next_task :: u64

definition empty_db :: db where
  "empty_db = \<lparr>t_meta = None, t_scan = [], t_progress = [], t_tasks = [], t_objects = [],
     t_events = [], next_task = 1\<rparr>"

section \<open>The world of one process\<close>

text \<open>
  The contexts of a command, each derived from the one before: the operator's (cancelled by
  Ctrl+C), the execution lock's (cancelled when the lock is lost), the deletion run's (cancelled
  by a halt). \<open>Background\<close> stands for the detached contexts.
\<close>

datatype ctx = Background | OperatorCtx | LockCtx | RunCtx

fun derived :: "ctx \<Rightarrow> ctx list" where
  "derived Background = []"
| "derived OperatorCtx = [OperatorCtx, LockCtx, RunCtx]"
| "derived LockCtx = [LockCtx, RunCtx]"
| "derived RunCtx = [RunCtx]"

text \<open>\<^verbatim>\<open>Lock\<close>: the session's connection id and the error that marks it lost.\<close>

record lock_handle =
  lk_id :: i64
  lk_lost :: "err option"

datatype env_event =
    Answer
  | Refuse string
  | LoseReply string
  | Interrupt
  | OwnerIs "i64 option"

record world =
  w_db :: db
  w_now :: nat
  w_owner :: "i64 option"
  w_lock :: "lock_handle option"
  w_cancelled :: "ctx list"
  w_script :: "env_event list"

definition cancel_ctx :: "ctx \<Rightarrow> world \<Rightarrow> world" where
  "cancel_ctx c w = w\<lparr>w_cancelled := derived c @ w_cancelled w\<rparr>"

text \<open>\<^verbatim>\<open>ctx.Err()\<close>\<close>

definition ctx_err :: "ctx \<Rightarrow> world \<Rightarrow> err option" where
  "ctx_err c w = (if c \<in> set (w_cancelled w) then Some CtxCanceled else None)"

section \<open>Statements and transactions\<close>

text \<open>One statement with the effect \<open>f\<close>, under a context.\<close>

definition statement :: "ctx \<Rightarrow> (world, 'a) act \<Rightarrow> (world, 'a) act" where
  "statement c f w =
     (case ctx_err c w of
        Some e \<Rightarrow> (Inl e, w)
      | None \<Rightarrow>
          (case w_script w of
             [] \<Rightarrow> f w
           | ev # evs \<Rightarrow>
               let w = w\<lparr>w_script := evs\<rparr> in
               (case ev of
                  Answer \<Rightarrow> f w
                | Refuse e \<Rightarrow> (Inl (Txt e), w)
                | LoseReply e \<Rightarrow> (Inl (Txt e), snd (f w))
                | Interrupt \<Rightarrow>
                    let w = cancel_ctx OperatorCtx w in
                    (case ctx_err c w of Some e \<Rightarrow> (Inl e, w) | None \<Rightarrow> f w)
                | OwnerIs x \<Rightarrow> f (w\<lparr>w_owner := x\<rparr>))))"

text \<open>A query reads the tables; reading a row into Go's variables may fail.\<close>

definition query :: "ctx \<Rightarrow> (db \<Rightarrow> err + 'a) \<Rightarrow> (world, 'a) act" where
  "query c q = statement c (\<lambda>w. (q (w_db w), w))"

text \<open>An update is a function of the clock and the tables; the server may reject it (out of range).\<close>

definition update :: "ctx \<Rightarrow> (nat \<Rightarrow> db \<Rightarrow> err + 'a \<times> db) \<Rightarrow> (world, 'a) act" where
  "update c u = statement c (\<lambda>w. case u (w_now w) (w_db w) of
     Inl e \<Rightarrow> (Inl e, w) | Inr (x, d) \<Rightarrow> (Inr x, w\<lparr>w_db := d\<rparr>))"

abbreviation exec :: "ctx \<Rightarrow> (nat \<Rightarrow> db \<Rightarrow> db) \<Rightarrow> (world, unit) act" where
  "exec c u \<equiv> update c (\<lambda>now d. Inr ((), u now d))"

text \<open>Rolling back restores the tables but not an AUTO_INCREMENT counter.\<close>

definition rolled_back :: "world \<Rightarrow> world \<Rightarrow> world" where
  "rolled_back w0 w = w\<lparr>w_db := (w_db w0)\<lparr>next_task := next_task (w_db w)\<rparr>\<rparr>"

text \<open>\<^verbatim>\<open>BeginTx\<close>, the body, \<^verbatim>\<open>Commit\<close>; \<^verbatim>\<open>defer tx.Rollback()\<close> on every error.\<close>

definition transaction :: "ctx \<Rightarrow> (world, 'a) act \<Rightarrow> (world, 'a) act" where
  "transaction c body w =
     (case statement c (ret ()) w of
        (Inl e, w0) \<Rightarrow> (Inl e, w0)
      | (Inr _, w0) \<Rightarrow>
          (case body w0 of
             (Inl e, w1) \<Rightarrow> (Inl e, rolled_back w0 w1)
           | (Inr x, w1) \<Rightarrow>
               statement c (\<lambda>v. (Inr x, v\<lparr>w_db := w_db w1\<rparr>)) (rolled_back w0 w1)))"

section \<open>The execution lock as the operations use it\<close>

text \<open>\<^verbatim>\<open>Lock.Check\<close>: the lock must still belong to this session; a failed check is remembered and
  cancels the lock's context.\<close>

definition lose_lock :: "lock_handle \<Rightarrow> err \<Rightarrow> world \<Rightarrow> world" where
  "lose_lock l e w =
     cancel_ctx LockCtx (w\<lparr>w_lock := Some (l\<lparr>lk_lost := Some (Cat (Txt ''execution lock lost: '') e)\<rparr>)\<rparr>)"

definition lock_check :: "lock_handle \<Rightarrow> ctx \<Rightarrow> (world, unit) act" where
  "lock_check l c w =
     (case lk_lost l of
        Some e \<Rightarrow> (Inl e, w)
      | None \<Rightarrow>
          (case ctx_err c w of
             Some e \<Rightarrow> (Inl e, w)
           | None \<Rightarrow>
               (case statement c (getA w_owner) w of
                  (Inl e, v) \<Rightarrow> (Inl e, lose_lock l e v)
                | (Inr owner, v) \<Rightarrow>
                    if owner \<noteq> Some (lk_id l)
                    then let e = Txt ''execution lock is no longer owned by this session''
                         in (Inl e, lose_lock l e v)
                    else (Inr (), v))))"

text \<open>\<^verbatim>\<open>DB.CheckLock\<close>\<close>

definition check_lock :: "ctx \<Rightarrow> (world, unit) act" where
  "check_lock c w =
     (case w_lock w of
        None \<Rightarrow> (Inl (Txt ''mutation requires execution lock''), w)
      | Some l \<Rightarrow> lock_check l c w)"

text \<open>The connection id an operation stores, \<^verbatim>\<open>p.lock.id\<close>; only read after a successful check.\<close>

definition lock_id :: "world \<Rightarrow> i64" where
  "lock_id w = (case w_lock w of Some l \<Rightarrow> lk_id l | None \<Rightarrow> 0)"

section \<open>Hoare triples on the tables\<close>

definition dbh ::
  "(db \<Rightarrow> bool) \<Rightarrow> (world, 'a) act \<Rightarrow> ('a \<Rightarrow> db \<Rightarrow> bool) \<Rightarrow> (err \<Rightarrow> db \<Rightarrow> bool) \<Rightarrow> bool" where
  "dbh P m Q E \<longleftrightarrow> hoare (\<lambda>w. P (w_db w)) m (\<lambda>x w. Q x (w_db w)) (\<lambda>e w. E e (w_db w))"

named_theorems dbh_rules \<open>Hoare rules on the tables\<close>

text \<open>An operation keeps an invariant of the tables, on every return.\<close>

abbreviation keeps :: "(db \<Rightarrow> bool) \<Rightarrow> (world, 'a) act \<Rightarrow> bool" where
  "keeps I m \<equiv> dbh I m (\<lambda>_. I) (\<lambda>_. I)"

lemma ctx_err_simps [simp]:
  "ctx_err c (w\<lparr>w_db := d\<rparr>) = ctx_err c w" "ctx_err c (w\<lparr>w_script := s\<rparr>) = ctx_err c w"
  "ctx_err c (w\<lparr>w_owner := x\<rparr>) = ctx_err c w" "ctx_err c (w\<lparr>w_lock := l\<rparr>) = ctx_err c w"
  "ctx_err Background w = None \<longleftrightarrow> Background \<notin> set (w_cancelled w)"
  by (simp_all add: ctx_err_def)

lemma cancel_ctx_simps [simp]:
  "w_db (cancel_ctx c w) = w_db w" "w_now (cancel_ctx c w) = w_now w"
  "w_owner (cancel_ctx c w) = w_owner w" "w_lock (cancel_ctx c w) = w_lock w"
  "w_script (cancel_ctx c w) = w_script w"
  by (simp_all add: cancel_ctx_def)

lemma rolled_back_simps [simp]:
  "w_db (rolled_back w0 w) = (w_db w0)\<lparr>next_task := next_task (w_db w)\<rparr>"
  "w_script (rolled_back w0 w) = w_script w" "w_now (rolled_back w0 w) = w_now w"
  "w_lock (rolled_back w0 w) = w_lock w" "w_owner (rolled_back w0 w) = w_owner w"
  "w_cancelled (rolled_back w0 w) = w_cancelled w"
  by (simp_all add: rolled_back_def)

lemma dbhI:
  assumes "\<And>w e v. P (w_db w) \<Longrightarrow> m w = (Inl e, v) \<Longrightarrow> E e (w_db v)"
    and "\<And>w x v. P (w_db w) \<Longrightarrow> m w = (Inr x, v) \<Longrightarrow> Q x (w_db v)"
  shows "dbh P m Q E"
  unfolding dbh_def by (rule hoareI) (use assms in auto)

lemma dbhD_ok: "dbh P m Q E \<Longrightarrow> P (w_db w) \<Longrightarrow> m w = (Inr x, v) \<Longrightarrow> Q x (w_db v)"
  unfolding dbh_def by (drule hoareD_ok) auto

lemma dbhD_err: "dbh P m Q E \<Longrightarrow> P (w_db w) \<Longrightarrow> m w = (Inl e, v) \<Longrightarrow> E e (w_db v)"
  unfolding dbh_def by (drule hoareD_err) auto

lemma keepsD: "keeps I m \<Longrightarrow> I (w_db w) \<Longrightarrow> I (w_db (snd (m w)))"
  by (cases "m w"; cases "fst (m w)") (auto dest: dbhD_ok dbhD_err)

lemma dbh_weaken:
  assumes "dbh P' m Q' E'" "\<And>d. P d \<Longrightarrow> P' d"
    and "\<And>x d. Q' x d \<Longrightarrow> Q x d" "\<And>e d. E' e d \<Longrightarrow> E e d"
  shows "dbh P m Q E"
  by (rule dbhI) (use assms(2-) dbhD_err [OF assms(1)] dbhD_ok [OF assms(1)] in blast)+

lemma dbh_pre: "dbh P' m Q E \<Longrightarrow> (\<And>d. P d \<Longrightarrow> P' d) \<Longrightarrow> dbh P m Q E"
  by (erule dbh_weaken) auto

lemma dbh_pure: "(F \<Longrightarrow> dbh P m Q E) \<Longrightarrow> dbh (\<lambda>d. P d \<and> F) m Q E"
  by (cases F) (auto intro: dbhI)

lemma dbh_ret [dbh_rules]: "(\<And>d. P d \<Longrightarrow> Q x d) \<Longrightarrow> dbh P (ret x) Q E"
  unfolding dbh_def by (rule hoare_ret)

lemma dbh_throw [dbh_rules]: "(\<And>d. P d \<Longrightarrow> E e d) \<Longrightarrow> dbh P (throw e) Q E"
  unfolding dbh_def by (rule hoare_throw)

lemma dbh_liftE [dbh_rules]:
  "(\<And>d e. P d \<Longrightarrow> r = Inl e \<Longrightarrow> E e d) \<Longrightarrow> (\<And>d x. P d \<Longrightarrow> r = Inr x \<Longrightarrow> Q x d) \<Longrightarrow>
   dbh P (liftE r) Q E"
  unfolding dbh_def by (rule hoare_liftE)

lemma dbh_failIf [dbh_rules]:
  "(\<And>d. P d \<Longrightarrow> b \<Longrightarrow> E e d) \<Longrightarrow> (\<And>d. P d \<Longrightarrow> \<not> b \<Longrightarrow> Q () d) \<Longrightarrow> dbh P (failIf b e) Q E"
  unfolding dbh_def by (rule hoare_failIf)

lemma dbh_bind [dbh_rules]:
  "dbh P m R E \<Longrightarrow> (\<And>x. dbh (R x) (f x) Q E) \<Longrightarrow> dbh P (bindA m f) Q E"
  unfolding dbh_def by (rule hoare_bind)

lemma dbh_try [dbh_rules]:
  "dbh P m R F \<Longrightarrow> (\<And>e. dbh (F e) (h e) Q E) \<Longrightarrow> (\<And>x. dbh (R x) (f x) Q E) \<Longrightarrow>
   dbh P (tryA m h f) Q E"
  unfolding dbh_def by (rule hoare_try)

lemma dbh_if [dbh_rules]:
  "(b \<Longrightarrow> dbh P m Q E) \<Longrightarrow> (\<not> b \<Longrightarrow> dbh P n Q E) \<Longrightarrow> dbh P (if b then m else n) Q E"
  by simp

lemma dbh_case_option [dbh_rules]:
  "(x = None \<Longrightarrow> dbh P m Q E) \<Longrightarrow> (\<And>y. x = Some y \<Longrightarrow> dbh P (f y) Q E) \<Longrightarrow>
   dbh P (case x of None \<Rightarrow> m | Some y \<Rightarrow> f y) Q E"
  by (cases x) auto

lemma dbh_case_sum [dbh_rules]:
  "(\<And>e. x = Inl e \<Longrightarrow> dbh P (g e) Q E) \<Longrightarrow> (\<And>y. x = Inr y \<Longrightarrow> dbh P (f y) Q E) \<Longrightarrow>
   dbh P (case x of Inl e \<Rightarrow> g e | Inr y \<Rightarrow> f y) Q E"
  by (cases x) auto

lemma dbh_get [dbh_rules]: "(\<And>x d. P d \<Longrightarrow> Q x d) \<Longrightarrow> dbh P (getA f) Q E"
  by (rule dbhI) (auto simp: getA_def)

text \<open>The environment never touches the tables: a statement is its effect, or nothing, or the
  effect with the reply lost. Its own errors are never one of the sentinels the code compares.\<close>

definition env_err :: "err \<Rightarrow> bool" where
  "env_err e \<longleftrightarrow> e = CtxCanceled \<or> (\<exists>s. e = Txt s)"

lemma env_err_simps [simp]:
  "env_err (Txt s)" "env_err CtxCanceled" "env_err e \<Longrightarrow> \<not> err_is e ErrNoRows"
  by (auto simp: env_err_def CtxCanceled_def ErrNoRows_def)

lemma ctx_err_env: "ctx_err c w = Some e \<Longrightarrow> env_err e"
  by (auto simp: ctx_err_def split: if_splits)

lemma statement_cases:
  "statement c f w = (r, v) \<Longrightarrow>
     (\<exists>e. env_err e \<and> r = Inl e \<and> w_db v = w_db w) \<or>
     (\<exists>u. w_db u = w_db w \<and> w_now u = w_now w \<and> f u = (r, v)) \<or>
     (\<exists>u e r'. env_err e \<and> w_db u = w_db w \<and> w_now u = w_now w \<and> f u = (r', v) \<and> r = Inl e)"
  unfolding statement_def Let_def
  by (cases "ctx_err c w"; cases "w_script w"; cases "hd (w_script w)";
      cases "ctx_err c (cancel_ctx OperatorCtx (w\<lparr>w_script := tl (w_script w)\<rparr>))")
    (auto simp: prod_eq_iff ctx_err_env intro: exI [of _ w]; (metis cancel_ctx_simps(1,2) prod.collapse
      select_convs(1,2) surjective update_convs(3,6) env_err_simps(1)))+

lemma dbh_query:
  assumes "\<And>d e. P d \<Longrightarrow> E e d" and "\<And>d x. P d \<Longrightarrow> q d = Inr x \<Longrightarrow> Q x d"
  shows "dbh P (query c q) Q E"
proof (rule dbhI)
  fix w e v assume "P (w_db w)" "query c q w = (Inl e, v)"
  then show "E e (w_db v)"
    unfolding query_def by (auto dest!: statement_cases intro: assms)
next
  fix w x v assume "P (w_db w)" "query c q w = (Inr x, v)"
  then show "Q x (w_db v)"
    unfolding query_def by (auto dest!: statement_cases intro: assms)
qed

lemma dbh_query_err:
  assumes "\<And>d e. P d \<Longrightarrow> env_err e \<Longrightarrow> E e d" "\<And>d e. P d \<Longrightarrow> q d = Inl e \<Longrightarrow> E e d"
    and "\<And>d x. P d \<Longrightarrow> q d = Inr x \<Longrightarrow> Q x d"
  shows "dbh P (query c q) Q E"
proof (rule dbhI)
  fix w e v assume "P (w_db w)" "query c q w = (Inl e, v)"
  then show "E e (w_db v)"
    unfolding query_def by (auto dest!: statement_cases intro: assms)
next
  fix w x v assume "P (w_db w)" "query c q w = (Inr x, v)"
  then show "Q x (w_db v)"
    unfolding query_def by (auto dest!: statement_cases intro: assms)
qed

lemma dbh_update:
  assumes "\<And>d e. P d \<Longrightarrow> E e d"
    and "\<And>now d x d'. P d \<Longrightarrow> u now d = Inr (x, d') \<Longrightarrow> Q x d'"
    and "\<And>now d x d' e. P d \<Longrightarrow> u now d = Inr (x, d') \<Longrightarrow> E e d'"
  shows "dbh P (update c u) Q E"
proof (rule dbhI)
  fix w e v assume "P (w_db w)" "update c u w = (Inl e, v)"
  then show "E e (w_db v)"
    using assms(1) [of "w_db w" e] assms(3) [of "w_db w" "w_now w"] unfolding update_def
    by (auto dest!: statement_cases split: sum.splits prod.splits)
next
  fix w x v assume "P (w_db w)" "update c u w = (Inr x, v)"
  then show "Q x (w_db v)"
    using assms(2) [of "w_db w" "w_now w" x] unfolding update_def
    by (auto dest!: statement_cases split: sum.splits prod.splits)
qed

lemma dbh_check_lock:
  assumes "\<And>d. P d \<Longrightarrow> Q () d" "\<And>e d. P d \<Longrightarrow> E e d"
  shows "dbh P (check_lock c) Q E"
proof -
  have db: "w_db v = w_db w" if "check_lock c w = (r, v)" for w r v
    using that
    by (auto simp: check_lock_def lock_check_def lose_lock_def getA_def Let_def
        split: option.splits prod.splits sum.splits if_splits dest!: statement_cases)
  show ?thesis
    by (rule dbhI) (auto dest!: db intro: assms)
qed

lemma dbh_transaction:
  assumes body: "\<And>d0. P d0 \<Longrightarrow> dbh (\<lambda>d. d = d0) body (R d0) (F d0)"
    and begin_fails: "\<And>d e. P d \<Longrightarrow> E e d"
    and commit: "\<And>d0 x d. P d0 \<Longrightarrow> R d0 x d \<Longrightarrow> Q x d"
    and commit_fails: "\<And>d0 x d e. P d0 \<Longrightarrow> R d0 x d \<Longrightarrow> E e (d0\<lparr>next_task := next_task d\<rparr>)"
    and reply_lost: "\<And>d0 x d e. P d0 \<Longrightarrow> R d0 x d \<Longrightarrow> E e d"
    and rollback: "\<And>d0 d e. P d0 \<Longrightarrow> F d0 e d \<Longrightarrow> E e (d0\<lparr>next_task := next_task d\<rparr>)"
  shows "dbh P (transaction c body) Q E"
proof -
  have "case r of Inl e \<Rightarrow> E e (w_db v) | Inr x \<Rightarrow> Q x (w_db v)"
    if P: "P (w_db w)" and run: "transaction c body w = (r, v)" for w r v
  proof -
    obtain b w0 where b: "statement c (ret ()) w = (b, w0)" by (cases "statement c (ret ()) w")
    have w0: "w_db w0 = w_db w" using statement_cases [OF b] by (auto simp: ret_def)
    show ?thesis
    proof (cases b)
      case (Inl e)
      then show ?thesis using b w0 P run begin_fails by (auto simp: transaction_def)
    next
      case (Inr u)
      obtain rb w1 where rb: "body w0 = (rb, w1)" by (cases "body w0")
      have trip: "dbh (\<lambda>d. d = w_db w) body (R (w_db w)) (F (w_db w))" by (rule body [OF P])
      show ?thesis
      proof (cases rb)
        case (Inl e)
        then have "F (w_db w) e (w_db w1)" using dbhD_err [OF trip] w0 rb by auto
        then show ?thesis using Inl \<open>b = Inr u\<close> b rb run P w0 rollback by (auto simp: transaction_def)
      next
        case (Inr x)
        then have R: "R (w_db w) x (w_db w1)" using dbhD_ok [OF trip] w0 rb by auto
        have "statement c (\<lambda>v. (Inr x, v\<lparr>w_db := w_db w1\<rparr>)) (rolled_back w0 w1) = (r, v)"
          using Inr \<open>b = Inr u\<close> b rb run by (simp add: transaction_def)
        from statement_cases [OF this] show ?thesis
          using commit [OF P R] commit_fails [OF P R] reply_lost [OF P R] w0 by auto
      qed
    qed
  qed
  then show ?thesis by (intro dbhI) fastforce+
qed

text \<open>Invariants of the tables: the building blocks of every preservation proof.\<close>

named_theorems keeps_rules \<open>preservation of an invariant of the tables\<close>

lemma keeps_query [keeps_rules]: "keeps I (query c q)"
  by (rule dbh_query)

lemma keeps_update:
  "(\<And>now d x d'. I d \<Longrightarrow> u now d = Inr (x, d') \<Longrightarrow> I d') \<Longrightarrow> keeps I (update c u)"
  by (rule dbh_update)

lemma keeps_check_lock [keeps_rules]: "keeps I (check_lock c)"
  by (rule dbh_check_lock)

lemma keeps_transaction:
  assumes "keeps I body"
    and "\<And>d n. I d \<Longrightarrow> I (d\<lparr>next_task := n\<rparr>)"
  shows "keeps I (transaction c body)"
  by (rule dbh_transaction [where R = "\<lambda>_ _. I" and F = "\<lambda>_ _. I"])
    (auto intro: dbh_pre [OF assms(1)] assms(2))

lemma keeps_combinators [keeps_rules]:
  "keeps I (ret x)" "keeps I (throw e)" "keeps I (failIf b e)" "keeps I (liftE r)" "keeps I (getA f)"
  by (auto intro!: dbh_rules)

lemma keeps_bind [keeps_rules]: "keeps I m \<Longrightarrow> (\<And>x. keeps I (f x)) \<Longrightarrow> keeps I (bindA m f)"
  by (rule dbh_bind)

lemma keeps_try [keeps_rules]:
  "keeps I m \<Longrightarrow> (\<And>e. keeps I (h e)) \<Longrightarrow> (\<And>x. keeps I (f x)) \<Longrightarrow> keeps I (tryA m h f)"
  by (rule dbh_try)

lemma keeps_branches [keeps_rules]:
  "(b \<Longrightarrow> keeps I m) \<Longrightarrow> (\<not> b \<Longrightarrow> keeps I n) \<Longrightarrow> keeps I (if b then m else n)"
  "(x = None \<Longrightarrow> keeps I m) \<Longrightarrow> (\<And>y. x = Some y \<Longrightarrow> keeps I (k y)) \<Longrightarrow>
   keeps I (case x of None \<Rightarrow> m | Some y \<Rightarrow> k y)"
  "(\<And>a b. p = (a, b) \<Longrightarrow> keeps I (g a b)) \<Longrightarrow> keeps I (case p of (a, b) \<Rightarrow> g a b)"
  by (auto split: option.splits prod.splits)

lemma keeps_for [keeps_rules]: "(\<And>x. x \<in> set xs \<Longrightarrow> keeps I (f x)) \<Longrightarrow> keeps I (forA xs f)"
  unfolding dbh_def by (rule hoare_for)

end
