(* ===== verification/TaskMeta.thy ===== *)
theory TaskMeta
  imports Database
begin

text \<open>
  The binding of a progress database to one task and the sealing of its object list,
  \<^verbatim>\<open>internal/progress/task.go\<close>, with the scan's write path \<^verbatim>\<open>InsertScan\<close> of
  \<^verbatim>\<open>internal/progress/progress.go\<close>. The lemmas say that a database is bound at most once, that
  every run of another binding is refused, that a used database without a binding is never
  adopted, and that only a list with exactly the reconciled number of rows is sealed.
\<close>

section \<open>Bindings\<close>

text \<open>The verb \<^verbatim>\<open>%q\<close>; escapes inside the quoted text are left out.\<close>

definition quote :: "string \<Rightarrow> string" where
  "quote s = CHR 0x22 # s @ [CHR 0x22]"

definition diff_line :: "string \<Rightarrow> string \<Rightarrow> string \<Rightarrow> string list" where
  "diff_line name stored cur =
     (if stored \<noteq> cur
      then [name @ '': database has '' @ quote stored @ '', this run has '' @ quote cur]
      else [])"

definition binding_diff :: "binding \<Rightarrow> binding \<Rightarrow> string list" where
  "binding_diff b now =
     diff_line ''chain id'' (b_chain b) (b_chain now) @
     diff_line ''SP operator'' (b_operator b) (b_operator now) @
     diff_line ''object storage'' (b_storage b) (b_storage now) @
     diff_line ''SpDB'' (b_spdb b) (b_spdb now) @
     diff_line ''bucket'' (b_bucket b) (b_bucket now) @
     diff_line ''bucket id'' (dec (unat (b_bucket_id b))) (dec (unat (b_bucket_id now)))"

definition ScanNone :: string where "ScanNone = ''NONE''"
definition ScanRunning :: string where "ScanRunning = ''RUNNING''"
definition ScanComplete :: string where "ScanComplete = ''COMPLETE''"

definition errNoTask :: err where
  "errNoTask = Sentinel (''progress database has no task binding yet; run scan with this SP'' @ CHR 0x27 # ''s config first'')"

definition ErrEmptyScan :: err where
  "ErrEmptyScan = Sentinel ''scan found 0 objects; refusing to seal an empty manifest; check --bucket / --bucket-id and BSDB synchronization with the chain''"

section \<open>Operations\<close>

text \<open>\<^verbatim>\<open>Task\<close>: \<open>None\<close> is \<^verbatim>\<open>ok=false\<close>, a database that was never bound.\<close>

definition read_task :: "ctx \<Rightarrow> (world, meta_row option) act" where
  "read_task c = query c (\<lambda>d. Inr (t_meta d))"

definition check_binding :: "ctx \<Rightarrow> binding \<Rightarrow> (world, unit) act" where
  "check_binding c b =
     bindA (read_task c) (\<lambda>t. case t of
       None \<Rightarrow> throw errNoTask
     | Some m \<Rightarrow>
         let diff = binding_diff (m_binding m) b in
         failIf (length diff > 0)
           (Txt (''progress database belongs to another task; refusing to run:'' @ newline # ''  '' @
                 join_on (newline # ''  '') diff)))"

text \<open>
  What \<^verbatim>\<open>INSERT IGNORE\<close> makes of a value that its column cannot hold, without an error: a text in a
  \<^verbatim>\<open>VARCHAR(n)\<close> is cut after \<open>n\<close> characters (texts are UTF-8), a number in an \<^verbatim>\<open>INT\<close> becomes the nearest one.
\<close>

definition column_text :: "nat \<Rightarrow> string \<Rightarrow> string" where
  "column_text n s = (if length (runes s) > n then concat (take n (runes s)) else s)"

definition column_int :: "i64 \<Rightarrow> i64" where
  "column_int v =
     (if sint v < - 2147483648 then - 2147483648
      else if 2147483647 < sint v then 2147483647
      else v)"

definition stored_binding :: "binding \<Rightarrow> binding" where
  "stored_binding b =
     \<lparr>b_chain = column_text 64 (b_chain b), b_operator = column_text 128 (b_operator b),
      b_storage = column_text 512 (b_storage b), b_spdb = column_text 512 (b_spdb b),
      b_bucket = column_text 64 (b_bucket b), b_bucket_id = b_bucket_id b\<rparr>"

text \<open>\<^verbatim>\<open>INSERT IGNORE\<close> of the row with \<open>id = 1\<close>: an existing row stays.\<close>

definition insert_meta :: "binding \<Rightarrow> db \<Rightarrow> db" where
  "insert_meta b d =
     (case t_meta d of
        Some _ \<Rightarrow> d
      | None \<Rightarrow> d\<lparr>t_meta := Some \<lparr>m_binding = stored_binding b, m_status = ScanNone, m_bsdb_count = None,
                  m_rows = None, m_finished = None\<rparr>\<rparr>)"

definition bind_task :: "ctx \<Rightarrow> binding \<Rightarrow> (world, unit) act" where
  "bind_task c b =
     bindA (read_task c) (\<lambda>t.
     bindA (case t of
         Some _ \<Rightarrow> ret ()
       | None \<Rightarrow>
           bindA (query c (\<lambda>d. Inr (length (t_scan d), length (t_progress d)))) (\<lambda>n.
           failIf (fst n > 0 \<or> snd n > 0)
             (Txt (''progress database has '' @ dec (fst n) @ '' listed objects and '' @ dec (snd n) @
               '' results but no task binding (written by an older version, possibly for another SP); refusing to adopt it, use a new empty progress database'')))) (\<lambda>_.
     bindA (exec c (\<lambda>now d. insert_meta b d)) (\<lambda>_.
     check_binding c b)))"

definition require_complete_scan :: "ctx \<Rightarrow> (world, unit) act" where
  "require_complete_scan c =
     bindA (read_task c) (\<lambda>t. case t of
       None \<Rightarrow> throw errNoTask
     | Some m \<Rightarrow>
         failIf (m_status m \<noteq> ScanComplete)
           (Txt (''object list is not complete (scan status '' @ m_status m @ ''); re-run scan until it reports complete'')))"

text \<open>The zero \<^verbatim>\<open>Task\<close> of an unbound database has an empty scan status.\<close>

definition scan_status_of :: "meta_row option \<Rightarrow> string" where
  "scan_status_of t = (case t of None \<Rightarrow> [] | Some m \<Rightarrow> m_status m)"

definition begin_scan :: "ctx \<Rightarrow> nat \<Rightarrow> (world, unit) act" where
  "begin_scan c bsdb_count =
     bindA (check_lock c) (\<lambda>_.
     bindA (read_task c) (\<lambda>t.
     bindA (failIf (scan_status_of t = ScanComplete)
       (Txt ''scan is already COMPLETE and frozen; use task create (do not rescan this database)'')) (\<lambda>_.
     bindA (query c (\<lambda>d. Inr (length (t_tasks d)))) (\<lambda>tasks.
     bindA (failIf (tasks \<noteq> 0) (Txt ''cannot change a manifest after subtasks exist'')) (\<lambda>_.
     exec c (\<lambda>now d. d\<lparr>t_meta := map_option (\<lambda>m. m\<lparr>m_status := ScanRunning,
       m_bsdb_count := Some bsdb_count, m_rows := None, m_finished := None\<rparr>) (t_meta d)\<rparr>))))))"

definition finish_scan :: "ctx \<Rightarrow> nat \<Rightarrow> (world, unit) act" where
  "finish_scan c rows =
     bindA (failIf (rows = 0) ErrEmptyScan) (\<lambda>_.
     bindA (check_lock c) (\<lambda>_.
     bindA (query c (\<lambda>d. Inr (length (t_scan d)))) (\<lambda>actual.
     bindA (failIf (actual \<noteq> rows)
       (Txt (''persisted scan count '' @ dec actual @ '' differs from source '' @ dec rows @
             ''; list remains incomplete; investigate source changes''))) (\<lambda>_.
     exec c (\<lambda>now d. d\<lparr>t_meta := map_option (\<lambda>m. m\<lparr>m_status := ScanComplete,
       m_rows := Some rows, m_finished := Some now\<rparr>) (t_meta d)\<rparr>)))))"

text \<open>\<^verbatim>\<open>INSERT IGNORE\<close> of one batch: a listed object keeps its first snapshot, as far as the columns hold it.\<close>

definition stored_row :: "scan_row \<Rightarrow> scan_row" where
  "stored_row r = r\<lparr>sr_status := column_text 16 (sr_status r), sr_version := column_int (sr_version r)\<rparr>"

fun insert_ignore :: "scan_row list \<Rightarrow> scan_row list \<Rightarrow> scan_row list" where
  "insert_ignore stored [] = stored"
| "insert_ignore stored (r # rs) =
     (if sr_oid r \<in> sr_oid ` set stored then insert_ignore stored rs
      else insert_ignore (stored @ [stored_row r]) rs)"

definition insert_scan :: "ctx \<Rightarrow> scan_row list \<Rightarrow> (world, unit) act" where
  "insert_scan c rows =
     bindA (check_lock c) (\<lambda>_.
     if length rows = 0 then ret ()
     else exec c (\<lambda>now d. d\<lparr>t_scan := insert_ignore (t_scan d) rows\<rparr>))"

section \<open>Lemmas\<close>

lemma binding_diff_empty [simp]: "binding_diff a b = [] \<longleftrightarrow> a = b"
  by (cases a; cases b) (auto simp: binding_diff_def diff_line_def)

lemma insert_meta_bound [simp]: "t_meta d = Some m \<Longrightarrow> insert_meta b d = d"
  by (simp add: insert_meta_def)

lemma ScanStatus_neq [simp]: "ScanRunning \<noteq> ScanComplete" "ScanNone \<noteq> ScanComplete"
  by (simp_all add: ScanRunning_def ScanComplete_def ScanNone_def)

lemma dbh_read_task:
  assumes "\<And>d e. P d \<Longrightarrow> E e d" "\<And>d. P d \<Longrightarrow> Q (t_meta d) d"
  shows "dbh P (read_task c) Q E"
  unfolding read_task_def by (rule dbh_query) (use assms in auto)

lemma column_text_fits [simp]: "length s \<le> n \<Longrightarrow> column_text n s = s"
  using runes_length [of s] by (simp add: column_text_def)

lemma stored_row_oid [simp]: "sr_oid (stored_row r) = sr_oid r"
  by (simp add: stored_row_def)

definition fits_columns :: "scan_row \<Rightarrow> bool" where
  "fits_columns r \<longleftrightarrow> length (runes (sr_status r)) \<le> 16 \<and> - 2147483648 \<le> sint (sr_version r) \<and> sint (sr_version r) \<le> 2147483647"

lemma stored_row_fits: "fits_columns r \<Longrightarrow> stored_row r = r"
  by (cases r) (simp add: fits_columns_def stored_row_def column_text_def column_int_def)

lemma insert_ignore_oids:
  "sr_oid ` set (insert_ignore stored rows) = sr_oid ` set stored \<union> sr_oid ` set rows"
  by (induction stored rows rule: insert_ignore.induct) auto

lemma insert_ignore_distinct:
  "distinct (map sr_oid stored) \<Longrightarrow> distinct (map sr_oid (insert_ignore stored rows))"
  by (induction stored rows rule: insert_ignore.induct) auto

text \<open>A successful check means: bound to exactly this binding.\<close>

lemma check_binding_ok:
  "dbh P (check_binding c b) (\<lambda>_ d. P d \<and> map_option m_binding (t_meta d) = Some b) (\<lambda>_. P)"
  unfolding check_binding_def
  by (rule dbh_bind, rule dbh_read_task [where Q = "\<lambda>t d. P d \<and> t_meta d = t"])
    (auto simp: Let_def intro!: dbh_rules)

lemma bind_task_spec:
  "dbh (\<lambda>d. d = d0) (bind_task c b)
     (\<lambda>_ d. d = insert_meta b d0 \<and> map_option m_binding (t_meta d) = Some b \<and>
        (t_meta d0 = None \<longrightarrow> t_scan d0 = [] \<and> t_progress d0 = []))
     (\<lambda>_ d. d = d0 \<or> d = insert_meta b d0 \<and> (t_meta d0 = None \<longrightarrow> t_scan d0 = [] \<and> t_progress d0 = []))"
  (is "dbh _ _ ?Q ?E")
proof -
  let ?fresh = "t_meta d0 = None \<longrightarrow> t_scan d0 = [] \<and> t_progress d0 = []"
  have 1: "dbh (\<lambda>d. d = d0) (read_task c) (\<lambda>t d. d = d0 \<and> t = t_meta d0) ?E"
    by (rule dbh_read_task) auto
  have 2: "dbh (\<lambda>d. d = d0 \<and> t = t_meta d0)
     (case t of Some _ \<Rightarrow> ret ()
       | None \<Rightarrow> bindA (query c (\<lambda>d. Inr (length (t_scan d), length (t_progress d)))) (\<lambda>n.
           failIf (fst n > 0 \<or> snd n > 0) (err n))) (\<lambda>_ d. d = d0 \<and> ?fresh) ?E" for t err
    by (rule dbh_case_option, rule dbh_bind,
        rule dbh_query [where Q = "\<lambda>n d. d = d0 \<and> n = (length (t_scan d0), length (t_progress d0))"])
      (auto intro!: dbh_rules)
  have 3: "dbh (\<lambda>d. d = d0 \<and> ?fresh) (exec c (\<lambda>now d. insert_meta b d))
     (\<lambda>_ d. d = insert_meta b d0 \<and> ?fresh) ?E"
    by (rule dbh_update) auto
  have 4: "dbh (\<lambda>d. d = insert_meta b d0 \<and> ?fresh) (check_binding c b) ?Q ?E"
    by (rule dbh_weaken [OF check_binding_ok]) auto
  show ?thesis
    unfolding bind_task_def
    by (rule dbh_bind [OF 1], rule dbh_bind [OF 2], rule dbh_bind [OF 3], rule 4)
qed

lemma finish_scan_spec:
  "dbh (\<lambda>d. d = d0) (finish_scan c rows)
     (\<lambda>_ d. 0 < rows \<and> length (t_scan d0) = rows \<and> (\<exists>now. d = d0\<lparr>t_meta := map_option
        (\<lambda>m. m\<lparr>m_status := ScanComplete, m_rows := Some rows, m_finished := Some now\<rparr>) (t_meta d0)\<rparr>))
     (\<lambda>_ d. d = d0 \<or> 0 < rows \<and> length (t_scan d0) = rows \<and> (\<exists>now. d = d0\<lparr>t_meta := map_option
        (\<lambda>m. m\<lparr>m_status := ScanComplete, m_rows := Some rows, m_finished := Some now\<rparr>) (t_meta d0)\<rparr>))"
  unfolding finish_scan_def
  apply (rule dbh_bind, rule dbh_failIf [where Q = "\<lambda>_ d. d = d0 \<and> 0 < rows"], simp, simp)
  apply (rule dbh_bind, rule dbh_check_lock [where Q = "\<lambda>_ d. d = d0 \<and> 0 < rows"], simp, simp)
  apply (rule dbh_bind, rule dbh_query [where Q = "\<lambda>n d. d = d0 \<and> 0 < rows \<and> n = length (t_scan d0)"],
      simp, simp)
  apply (rule dbh_bind, rule dbh_failIf [where Q = "\<lambda>_ d. d = d0 \<and> 0 < rows \<and> length (t_scan d0) = rows"],
      simp, simp)
  apply (rule dbh_update)
  apply auto
  done

lemma begin_scan_spec:
  "dbh (\<lambda>d. d = d0) (begin_scan c n)
     (\<lambda>_ d. scan_status_of (t_meta d0) \<noteq> ScanComplete \<and> t_tasks d0 = [] \<and>
        d = d0\<lparr>t_meta := map_option (\<lambda>m. m\<lparr>m_status := ScanRunning, m_bsdb_count := Some n,
              m_rows := None, m_finished := None\<rparr>) (t_meta d0)\<rparr>)
     (\<lambda>_ d. d = d0 \<or> scan_status_of (t_meta d0) \<noteq> ScanComplete \<and> t_tasks d0 = [] \<and>
        d = d0\<lparr>t_meta := map_option (\<lambda>m. m\<lparr>m_status := ScanRunning, m_bsdb_count := Some n,
              m_rows := None, m_finished := None\<rparr>) (t_meta d0)\<rparr>)"
  unfolding begin_scan_def
  apply (rule dbh_bind, rule dbh_check_lock [where Q = "\<lambda>_ d. d = d0"], simp, simp)
  apply (rule dbh_bind, rule dbh_read_task [where Q = "\<lambda>t d. d = d0 \<and> t = t_meta d0"], simp, simp)
  apply (rule dbh_bind,
      rule dbh_failIf [where Q = "\<lambda>_ d. d = d0 \<and> scan_status_of (t_meta d0) \<noteq> ScanComplete"], simp, simp)
  apply (rule dbh_bind, rule dbh_query [where Q = "\<lambda>k d. d = d0 \<and>
      scan_status_of (t_meta d0) \<noteq> ScanComplete \<and> k = length (t_tasks d0)"], simp, simp)
  apply (rule dbh_bind, rule dbh_failIf [where Q = "\<lambda>_ d. d = d0 \<and>
      scan_status_of (t_meta d0) \<noteq> ScanComplete \<and> t_tasks d0 = []"], simp, simp)
  apply (rule dbh_update)
  apply auto
  done

section \<open>Properties\<close>

text \<open>C39. A progress database is bound at most once and never adopted. Whatever the environment
  does to the statements, binding leaves the tables as they were or inserts the binding into a
  database without one, and the latter only if the database holds neither a list nor results; an
  existing binding is never changed, and success means the database is bound to exactly the
  binding of this run.\<close>

theorem bind_task_once:
  "dbh (\<lambda>d. d = d0) (bind_task c b)
     (\<lambda>_ d. map_option m_binding (t_meta d) = Some b \<and>
        (d = d0 \<or> (t_meta d0 = None \<and> t_scan d0 = [] \<and> t_progress d0 = [] \<and> d = insert_meta b d0)))
     (\<lambda>_ d. d = d0 \<or> (t_meta d0 = None \<and> t_scan d0 = [] \<and> t_progress d0 = [] \<and> d = insert_meta b d0))"
  by (rule dbh_weaken [OF bind_task_spec]) (auto simp: insert_meta_def split: option.splits)

text \<open>C40. A list is sealed as COMPLETE only when it is not empty and the table holds exactly the
  number of rows the scan reconciled; otherwise the tables do not change (a lost reply can hide a
  sealing that took place, nothing else). A sealed list is never reopened: starting a scan on it
  fails and changes nothing.\<close>

theorem sealing:
  "dbh (\<lambda>d. d = d0) (finish_scan c rows)
     (\<lambda>_ d. 0 < length (t_scan d0) \<and> length (t_scan d0) = rows \<and> t_scan d = t_scan d0 \<and>
        map_option m_status (t_meta d) = map_option (\<lambda>_. ScanComplete) (t_meta d0))
     (\<lambda>_ d. d = d0 \<or> (0 < length (t_scan d0) \<and> length (t_scan d0) = rows \<and> t_scan d = t_scan d0)) \<and>
   dbh (\<lambda>d. d = d0 \<and> scan_status_of (t_meta d) = ScanComplete) (begin_scan c n)
     (\<lambda>_ d. False) (\<lambda>_ d. d = d0)"
proof
  show "dbh (\<lambda>d. d = d0) (finish_scan c rows)
     (\<lambda>_ d. 0 < length (t_scan d0) \<and> length (t_scan d0) = rows \<and> t_scan d = t_scan d0 \<and>
        map_option m_status (t_meta d) = map_option (\<lambda>_. ScanComplete) (t_meta d0))
     (\<lambda>_ d. d = d0 \<or> (0 < length (t_scan d0) \<and> length (t_scan d0) = rows \<and> t_scan d = t_scan d0))"
    by (rule dbh_weaken [OF finish_scan_spec]) (auto simp: option.map_comp o_def)
  show "dbh (\<lambda>d. d = d0 \<and> scan_status_of (t_meta d) = ScanComplete) (begin_scan c n)
     (\<lambda>_ d. False) (\<lambda>_ d. d = d0)"
  proof (cases "scan_status_of (t_meta d0) = ScanComplete")
    case True
    then show ?thesis by (intro dbh_weaken [OF begin_scan_spec [of d0]]) auto
  next
    case False
    then show ?thesis by (intro dbhI) auto
  qed
qed

end
