(* ===== verification/Capacity.thy ===== *)
theory Capacity
  imports ProgressRows
begin

text \<open>
  Capacity parsing and the choice of a subtask's objects, \<^verbatim>\<open>ParseCapacity\<close> and
  \<^verbatim>\<open>SelectCapacity\<close> of \<^verbatim>\<open>internal/progress/subtask.go\<close>. The lemmas give the exact language
  of capacities, and for the selection: a contiguous prefix, within both limits, oversized objects
  alone, nothing left out that would still fit, no wrap-around of the running total.
\<close>

section \<open>Definitions\<close>

abbreviation max_u64 :: u64 where "max_u64 \<equiv> - 1"

definition capacity_units :: "(string \<times> u64) list" where
  "capacity_units = [(''TiB'', 2 ^ 40), (''GiB'', 2 ^ 30), (''MiB'', 2 ^ 20), (''KiB'', 2 ^ 10), (''B'', 1)]"

text \<open>The loop over the units; \<^verbatim>\<open>break\<close> leaves it with the error.\<close>

fun try_units :: "(string \<times> u64) list \<Rightarrow> string \<Rightarrow> u64 option" where
  "try_units [] value = None"
| "try_units ((name, factor) # units) value =
     (if suffix name value
      then (case parse_uint 64 (trim_suffix value name) of
              None \<Rightarrow> None
            | Some m \<Rightarrow> let n = (of_nat m :: u64) in
                if n = 0 \<or> n > max_u64 div factor then None else Some (n * factor))
      else try_units units value)"

definition parse_capacity :: "string \<Rightarrow> err + u64" where
  "parse_capacity value =
     (case try_units capacity_units value of
        Some n \<Rightarrow> Inr n
      | None \<Rightarrow> Inl (Txt (''invalid capacity '' @ value @ '': use a positive integer with B/KiB/MiB/GiB/TiB'')))"

fun select_loop :: "u64 \<Rightarrow> int \<Rightarrow> scan_row list \<Rightarrow> scan_row list \<Rightarrow> u64 \<Rightarrow> err + scan_row list \<times> u64" where
  "select_loop target limit [] out acc = Inr (out, acc)"
| "select_loop target limit (r # rs) out acc =
     (if int (length out) \<ge> limit \<or> acc \<ge> target then Inr (out, acc)
      else if sr_payload r > target \<and> length out > 0 then Inr (out, acc)
      else if max_u64 - acc < sr_payload r then Inl (Txt ''logical size overflow'')
      else select_loop target limit rs (out @ [r]) (acc + sr_payload r))"

definition select_capacity :: "scan_row list \<Rightarrow> u64 \<Rightarrow> int \<Rightarrow> err + scan_row list \<times> u64" where
  "select_capacity rows target limit =
     (if target = 0 \<or> limit \<le> 0 then Inl (Txt ''positive target size and max-objects required'')
      else select_loop target limit rows [] 0)"

text \<open>The exact total of a list of objects.\<close>

definition payload_sum :: "scan_row list \<Rightarrow> nat" where
  "payload_sum rows = (\<Sum>r\<leftarrow>rows. unat (sr_payload r))"

lemma payload_sum_simps [simp]:
  "payload_sum [] = 0" "payload_sum (r # rs) = unat (sr_payload r) + payload_sum rs"
  "payload_sum (xs @ ys) = payload_sum xs + payload_sum ys"
  by (simp_all add: payload_sum_def)

lemma payload_member_le: "r \<in> set rows \<Longrightarrow> unat (sr_payload r) \<le> payload_sum rows"
  by (induction rows) auto

text \<open>What holds of every selection in progress.\<close>

definition within_limits :: "u64 \<Rightarrow> int \<Rightarrow> scan_row list \<Rightarrow> u64 \<Rightarrow> bool" where
  "within_limits target limit out acc \<longleftrightarrow>
     unat acc = payload_sum out \<and> int (length out) \<le> limit \<and>
     (out = [] \<or> payload_sum (butlast out) < unat target) \<and>
     (list_all (\<lambda>r. sr_payload r \<le> target) out \<or> length out = 1)"

lemma within_limits_snoc:
  assumes inv: "within_limits target limit out acc"
    and lim: "int (length out) < limit" "acc < target"
    and r: "sr_payload r \<le> target \<or> out = []" "\<not> max_u64 - acc < sr_payload r"
  shows "within_limits target limit (out @ [r]) (acc + sr_payload r)"
proof -
  have tot: "unat acc = payload_sum out" using inv by (simp add: within_limits_def)
  have "sr_payload r \<le> max_u64 - acc" using r(2) by simp
  then have "unat (sr_payload r) \<le> 18446744073709551615 - unat acc"
    by (simp add: word_le_nat_alt unat_max_minus)
  then have "unat acc + unat (sr_payload r) < 18446744073709551616"
    using unat_bounds(1) [of acc] by linarith
  then have add: "unat (acc + sr_payload r) = payload_sum out + unat (sr_payload r)"
    using tot by (simp add: unat_add_lem [THEN iffD1])
  have small: "list_all (\<lambda>x. sr_payload x \<le> target) out"
    using payload_member_le [of _ out] lim(2) tot
    by (fastforce simp: list_all_iff word_le_nat_alt word_less_nat_alt)
  show ?thesis
    using small r(1) add lim tot by (auto simp: within_limits_def word_less_nat_alt)
qed

lemma select_loop_spec:
  assumes "select_loop target limit rows out acc = Inr (res, tot)"
    and "within_limits target limit out acc"
  shows "\<exists>taken rest. rows = taken @ rest \<and> res = out @ taken \<and> within_limits target limit res tot \<and>
           (rest = [] \<or> limit \<le> int (length res) \<or> target \<le> tot \<or>
            (res \<noteq> [] \<and> target < sr_payload (hd rest)))"
  using assms
proof (induction target limit rows out acc rule: select_loop.induct)
  case (1 target limit out acc)
  then show ?case by auto
next
  case (2 target limit r rs out acc)
  show ?case
  proof (cases "limit \<le> int (length out) \<or> target \<le> acc \<or> (target < sr_payload r \<and> 0 < length out)")
    case True
    then have "res = out" "tot = acc" using "2.prems"(1) by (auto split: if_splits)
    then show ?thesis using True "2.prems"(2) by (intro exI [of _ "[]"] exI [of _ "r # rs"]) auto
  next
    case False
    then have no: "\<not> max_u64 - acc < sr_payload r"
      and step: "select_loop target limit rs (out @ [r]) (acc + sr_payload r) = Inr (res, tot)"
      using "2.prems"(1) by (auto split: if_splits)
    have "within_limits target limit (out @ [r]) (acc + sr_payload r)"
      using False no "2.prems"(2) by (intro within_limits_snoc) auto
    with "2.IH" step False no obtain taken rest where
      "rs = taken @ rest" "res = (out @ [r]) @ taken" "within_limits target limit res tot"
      "rest = [] \<or> limit \<le> int (length res) \<or> target \<le> tot \<or> (res \<noteq> [] \<and> target < sr_payload (hd rest))"
      by auto
    then show ?thesis by (intro exI [of _ "r # taken"] exI [of _ rest]) auto
  qed
qed

text \<open>With a target of at most half the range the running total cannot wrap.\<close>

lemma select_loop_total:
  assumes "within_limits target limit out acc" "unat target \<le> 2 ^ 63" "0 < target"
  shows "\<exists>res tot. select_loop target limit rows out acc = Inr (res, tot)"
  using assms
proof (induction rows arbitrary: out acc)
  case (Cons r rs)
  show ?case
  proof (cases "limit \<le> int (length out) \<or> target \<le> acc \<or> (target < sr_payload r \<and> 0 < length out)")
    case False
    have "unat acc + unat (sr_payload r) < 2 ^ 64"
    proof (cases "out = []")
      case True
      then show ?thesis using Cons.prems(1) by (simp add: within_limits_def)
    next
      case False
      with \<open>\<not> (limit \<le> _ \<or> _)\<close> have "unat acc < unat target" "unat (sr_payload r) \<le> unat target"
        by (auto simp: word_less_nat_alt word_le_nat_alt)
      then show ?thesis using Cons.prems(2) by simp
    qed
    then have no: "\<not> max_u64 - acc < sr_payload r"
      by (simp add: word_less_nat_alt unat_max_minus)
    then have "within_limits target limit (out @ [r]) (acc + sr_payload r)"
      using False Cons.prems(1) by (intro within_limits_snoc) auto
    then show ?thesis using Cons.IH [OF _ Cons.prems(2,3)] False no by auto
  qed auto
qed simp

text \<open>The unit names do not overlap on digits: at most one unit fits.\<close>

lemma digits_last: "list_all is_digit ds \<Longrightarrow> \<not> is_digit c \<Longrightarrow> \<not> prefix (c # cs) (rev ds)"
  by (cases "rev ds") (auto simp: list_all_iff dest!: arg_cong [of _ _ set])

lemma not_digit_unit [simp]:
  "\<not> is_digit (CHR ''i'')" "\<not> is_digit (CHR ''B'')"
  by (simp_all add: is_digit_def)

lemma parse_uint_digits: "parse_uint bits ds = Some n \<Longrightarrow> list_all is_digit ds"
  by (auto simp: parse_uint_def split: if_splits)

lemma try_units_at:
  assumes "(name, f) \<in> set capacity_units" "list_all is_digit ds"
  shows "try_units capacity_units (ds @ name) = try_units [(name, f)] (ds @ name)"
  using assms digits_last [OF assms(2)]
  by (auto simp: capacity_units_def suffix_to_prefix)

lemma max_div: "f \<noteq> 0 \<Longrightarrow> \<not> (n :: u64) > max_u64 div f \<longleftrightarrow> unat n * unat f < 2 ^ 64"
proof -
  assume "f \<noteq> 0"
  then have f: "0 < unat f" by (simp add: unat_gt_0)
  have m: "unat (- 1 :: u64) = 18446744073709551615"
    by (simp add: unsigned_minus_1_eq_mask mask_eq_exp_minus_1)
  have "\<not> n > max_u64 div f \<longleftrightarrow> unat n \<le> 18446744073709551615 div unat f"
    by (simp add: word_less_nat_alt unat_div m not_less)
  also have "\<dots> \<longleftrightarrow> unat n * unat f \<le> 18446744073709551615"
    using f by (simp add: less_eq_div_iff_mult_less_eq)
  finally show ?thesis by (simp add: less_Suc_eq_le [symmetric] del: less_Suc_eq_le)
qed

lemma try_unit_value:
  assumes "f \<noteq> 0"
  shows "try_units [(name, f)] (ds @ name) = Some c \<longleftrightarrow>
    (\<exists>n. parse_uint 64 ds = Some n \<and> 0 < n \<and> n * unat f < 2 ^ 64 \<and> c = of_nat n * f)"
proof (cases "parse_uint 64 ds")
  case (Some n)
  then have n: "unat (of_nat n :: u64) = n" "(of_nat n :: u64) = 0 \<longleftrightarrow> n = 0"
    using parse_uint_bound [OF Some] by (auto simp: unat_of_nat word_of_nat_eq_0_iff nat_dvd_not_less
        intro: ccontr)
  then show ?thesis
    using Some max_div [OF assms, of "of_nat n"] by (auto simp: Let_def suffixI)
qed (simp add: suffixI)

lemma try_units_suffix:
  "try_units units v = Some c \<Longrightarrow>
     \<exists>name f ds. (name, f) \<in> set units \<and> v = ds @ name \<and> try_units [(name, f)] v = Some c"
proof (induction units v rule: try_units.induct)
  case (2 name f units v)
  show ?case
  proof (cases "suffix name v")
    case True
    then obtain ds where "v = ds @ name" by (auto simp: suffix_def)
    then show ?thesis using "2.prems" True
      by (intro exI [of _ name] exI [of _ f] exI [of _ ds]) simp
  next
    case False
    with "2.IH" "2.prems" obtain name' f' ds where "(name', f') \<in> set units" "v = ds @ name'"
      "try_units [(name', f')] v = Some c" by fastforce
    then show ?thesis
      by (intro exI [of _ name'] exI [of _ f'] exI [of _ ds]) simp
  qed
qed simp

lemma select_capacity_prefix:
  assumes "select_capacity rows target limit = Inr (res, tot)"
  shows "prefix res rows"
proof -
  have pos: "target \<noteq> 0" "0 < limit"
    and run: "select_loop target limit rows [] 0 = Inr (res, tot)"
    using assms by (auto simp: select_capacity_def split: if_splits)
  have "within_limits target limit [] 0" using pos by (simp add: within_limits_def)
  from select_loop_spec [OF run this] show ?thesis by auto
qed

section \<open>Properties\<close>

text \<open>C36. A selection is a contiguous prefix of the sorted candidates within both limits: at most
  \<open>limit\<close> objects, its total is the exact sum (no wrap-around), every proper prefix is below the
  target, so only the last object can go over it; an object larger than the target stands alone;
  and the selection stops early only when a limit is reached or the next object is oversized, so a
  non-empty pool always gives a non-empty task.\<close>

theorem select_capacity_spec:
  assumes "select_capacity rows target limit = Inr (res, tot)"
  shows "\<exists>rest. rows = res @ rest \<and> int (length res) \<le> limit \<and> unat tot = payload_sum res \<and>
           (res = [] \<or> payload_sum (butlast res) < unat target) \<and>
           (list_all (\<lambda>r. sr_payload r \<le> target) res \<or> length res = 1) \<and>
           (rest = [] \<or> limit = int (length res) \<or> target \<le> tot \<or>
            (res \<noteq> [] \<and> target < sr_payload (hd rest))) \<and>
           (res = [] \<longleftrightarrow> rows = [])"
proof -
  have pos: "target \<noteq> 0" "0 < limit"
    and run: "select_loop target limit rows [] 0 = Inr (res, tot)"
    using assms by (auto simp: select_capacity_def split: if_splits)
  have "within_limits target limit [] 0" using pos by (simp add: within_limits_def)
  from select_loop_spec [OF run this] obtain rest where
    split: "rows = res @ rest" and lim: "within_limits target limit res tot" and
    stop: "rest = [] \<or> limit \<le> int (length res) \<or> target \<le> tot \<or> (res \<noteq> [] \<and> target < sr_payload (hd rest))"
    by auto
  have "res = [] \<Longrightarrow> tot = 0" using lim by (simp add: within_limits_def unat_eq_0)
  then have "res = [] \<Longrightarrow> rest = []" using stop pos by auto
  then show ?thesis
    using split lim stop pos
    by (intro exI [of _ rest]) (auto simp: within_limits_def)
qed

theorem select_capacity_spec_witness:
  "\<exists>rest. [\<lparr>sr_oid = 1, sr_payload = 9, sr_status = ''SEALED'', sr_version = 0\<rparr>,
          \<lparr>sr_oid = 2, sr_payload = 1, sr_status = ''SEALED'', sr_version = 0\<rparr>] =
         [\<lparr>sr_oid = 1, sr_payload = 9, sr_status = ''SEALED'', sr_version = 0\<rparr>] @ rest"
  using select_capacity_spec [of
      "[\<lparr>sr_oid = 1, sr_payload = 9, sr_status = ''SEALED'', sr_version = 0\<rparr>,
        \<lparr>sr_oid = 2, sr_payload = 1, sr_status = ''SEALED'', sr_version = 0\<rparr>]" 5 10
      "[\<lparr>sr_oid = 1, sr_payload = 9, sr_status = ''SEALED'', sr_version = 0\<rparr>]" 9]
  by (simp add: select_capacity_def)

text \<open>C37. The selection succeeds on every list of candidates when both limits are positive and the
  target is at most \<open>2 ^ 63\<close> bytes: the overflow error of the code is unreachable there.\<close>

theorem select_capacity_total:
  assumes "0 < target" "unat target \<le> 2 ^ 63" "0 < limit"
  shows "\<exists>res tot. select_capacity rows target limit = Inr (res, tot)"
proof -
  have "within_limits target limit [] 0" using assms by (simp add: within_limits_def)
  from select_loop_total [OF this assms(2,1)] show ?thesis
    using assms by (simp add: select_capacity_def)
qed

theorem select_capacity_total_witness:
  "\<exists>res tot. select_capacity [] 536870912000 10000 = Inr (res, tot)"
  by (rule select_capacity_total) simp_all

text \<open>C38. A capacity is accepted exactly when it is a decimal number directly followed by one of
  B, KiB, MiB, GiB, TiB, is positive, and its value in bytes fits in 64 bits; the result is that
  value.\<close>

theorem parse_capacity_iff:
  "parse_capacity value = Inr c \<longleftrightarrow>
     (\<exists>name f ds n. (name, f) \<in> set capacity_units \<and> value = ds @ name \<and>
        parse_uint 64 ds = Some n \<and> 0 < n \<and> n * unat f < 2 ^ 64 \<and> c = of_nat n * f)"
proof -
  have pos: "f \<noteq> 0" if "(name, f) \<in> set capacity_units" for name f
    using that by (auto simp: capacity_units_def)
  have "parse_capacity value = Inr c \<longleftrightarrow> try_units capacity_units value = Some c"
    by (simp add: parse_capacity_def split: option.splits)
  also have "\<dots> \<longleftrightarrow> (\<exists>name f ds n. (name, f) \<in> set capacity_units \<and> value = ds @ name \<and>
        parse_uint 64 ds = Some n \<and> 0 < n \<and> n * unat f < 2 ^ 64 \<and> c = of_nat n * f)"
    (is "_ \<longleftrightarrow> ?R")
  proof
    assume "try_units capacity_units value = Some c"
    from try_units_suffix [OF this] show ?R
      using try_unit_value [OF pos] by fastforce
  next
    assume ?R
    then show "try_units capacity_units value = Some c"
      using try_units_at try_unit_value [OF pos] parse_uint_digits by fastforce
  qed
  finally show ?thesis .
qed

end
