(* ===== verification/Subtask.thy ===== *)
theory Subtask
  imports TaskMeta Capacity
begin

text \<open>
  The subtask operations of \<^verbatim>\<open>internal/progress/subtask.go\<close>, one definition per method of
  \<^verbatim>\<open>*DB\<close>, in the order of the file: selection of the task a command works on, allocation
  (\<open>create_subtask\<close>), claiming, the purge and verify phases, safety holds, deferral, resumption,
  reports and the per-object result. Every statement of the source is one \<open>query\<close>, \<open>exec\<close> or
  \<open>update\<close>; the transactions are transactions.
\<close>

section \<open>Errors\<close>

definition ErrNoCurrentTask :: err where
  "ErrNoCurrentTask = Sentinel ''no current deletion subtask; run task create first (or supply --task-id for repair/history)''"

definition ErrNoVerifyTask :: err where
  "ErrNoVerifyTask = Sentinel ''no task awaiting verification''"

definition ErrNoUnassigned :: err where
  "ErrNoUnassigned = Sentinel ''no unassigned objects; inspect status for deferred objects and final completion''"

definition OutOfRange :: err where
  "OutOfRange = Txt ''Out of range value''"

section \<open>Reading subtasks\<close>

text \<open>
  \<^verbatim>\<open>readSubtask\<close>: \<^verbatim>\<open>hold_oid\<close> is an unsigned column scanned into a signed \<^verbatim>\<open>NullInt64\<close>, which
  fails on the upper half of the range.
\<close>

definition read_subtask :: "subtask \<Rightarrow> err + subtask" where
  "read_subtask s =
     (case st_hold_oid s of
        Some x \<Rightarrow> if unat x < 2 ^ 63 then Inr s
                  else Inl (Txt ''converting hold_oid to a int64: value out of range'')
      | None \<Rightarrow> Inr s)"

fun read_all :: "subtask list \<Rightarrow> err + subtask list" where
  "read_all [] = Inr []"
| "read_all (s # ss) =
     (case read_subtask s of
        Inl e \<Rightarrow> Inl e
      | Inr r \<Rightarrow> (case read_all ss of Inl e \<Rightarrow> Inl e | Inr rs \<Rightarrow> Inr (r # rs)))"

text \<open>\<^verbatim>\<open>QueryRowContext(...).Scan\<close>: the first row, or \<^verbatim>\<open>sql.ErrNoRows\<close>.\<close>

definition first_row :: "subtask list \<Rightarrow> err + subtask" where
  "first_row rows = (case rows of [] \<Rightarrow> Inl ErrNoRows | s # _ \<Rightarrow> read_subtask s)"

definition tasks_where :: "(subtask \<Rightarrow> bool) \<Rightarrow> db \<Rightarrow> subtask list" where
  "tasks_where P d = sort_key st_id (filter P (t_tasks d))"

definition subtask_row :: "ctx \<Rightarrow> u64 \<Rightarrow> (world, subtask) act" where
  "subtask_row c tid = query c (\<lambda>d. first_row (filter (\<lambda>s. st_id s = tid) (t_tasks d)))"

definition select_current :: "subtask list \<Rightarrow> u64 \<Rightarrow> err + subtask" where
  "select_current found expected =
     (if length found = 0 then Inl ErrNoCurrentTask
      else if length found > 1
      then Inl (Txt ''multiple unfinished subtasks: investigate database consistency before operating'')
      else if expected \<noteq> 0 \<and> expected \<noteq> st_id (found ! 0)
      then Inl (Txt (''--task-id '' @ dec (unat expected) @ '' does not match current task '' @
                 dec (unat (st_id (found ! 0))) @
                 ''; refusing to run; review the current task summary first''))
      else Inr (found ! 0))"

text \<open>The rows of the first deletion pass that is not finished.\<close>

definition deleting :: "subtask \<Rightarrow> bool" where
  "deleting s \<longleftrightarrow> st_done s = None \<and> st_purged s = None"

definition resolve_subtask :: "ctx \<Rightarrow> u64 \<Rightarrow> (world, subtask) act" where
  "resolve_subtask c tid =
     (if tid > 0 then subtask_row c tid
      else bindA (query c (\<lambda>d. read_all (take 2 (tasks_where deleting d)))) (\<lambda>found.
           liftE (select_current found 0)))"

definition resolve_current :: "ctx \<Rightarrow> u64 \<Rightarrow> (world, subtask) act" where
  "resolve_current c expected =
     bindA (resolve_subtask c 0) (\<lambda>s. liftE (select_current [s] expected))"

definition require_no_hold :: "ctx \<Rightarrow> (world, unit) act" where
  "require_no_hold c =
     tryA (query c (\<lambda>d. case tasks_where (\<lambda>s. st_hold s \<noteq> []) d of
             [] \<Rightarrow> Inl ErrNoRows | s # _ \<Rightarrow> Inr (st_id s)))
       (\<lambda>e. if err_is e ErrNoRows then ret () else throw e)
       (\<lambda>tid. throw (Txt (''SAFETY_HOLD on task '' @ dec (unat tid) @
                ''; investigate and task resume --task-id '' @ dec (unat tid) @ '' first'')))"

definition resolve_purge :: "ctx \<Rightarrow> u64 \<Rightarrow> (world, subtask) act" where
  "resolve_purge c tid =
     bindA (require_no_hold c) (\<lambda>_.
     if tid \<noteq> 0
     then bindA (subtask_row c tid) (\<lambda>s.
          if st_done s \<noteq> None
          then throw (Txt ''task already verified; use verify --task-id N --restart before any repair'')
          else if st_purged s \<noteq> None then ret s
          else resolve_current c tid)
     else resolve_current c tid)"

definition resolve_verify :: "ctx \<Rightarrow> u64 \<Rightarrow> (world, subtask) act" where
  "resolve_verify c tid =
     (if tid \<noteq> 0 then subtask_row c tid
      else tryA (query c (\<lambda>d. first_row (tasks_where (\<lambda>s. st_done s = None \<and> st_purged s \<noteq> None) d)))
             (\<lambda>e. if err_is e ErrNoRows then throw ErrNoVerifyTask else throw e)
             ret)"

definition resolve_admin :: "ctx \<Rightarrow> u64 \<Rightarrow> (world, subtask) act" where
  "resolve_admin c tid =
     (if tid \<noteq> 0 then subtask_row c tid
      else tryA (query c (\<lambda>d. first_row (tasks_where (\<lambda>s. st_done s = None \<and> st_hold s \<noteq> []) d)))
             (\<lambda>e. if \<not> err_is e ErrNoRows then throw e
                  else tryA (resolve_current c 0)
                         (\<lambda>e. if \<not> err_is e ErrNoCurrentTask then throw e else resolve_verify c 0)
                         ret)
             ret)"

definition subtasks :: "ctx \<Rightarrow> (world, subtask list) act" where
  "subtasks c = query c (\<lambda>d. read_all (tasks_where (\<lambda>_. True) d))"

section \<open>Counts\<close>

definition progress_of :: "db \<Rightarrow> u64 \<Rightarrow> progress_row option" where
  "progress_of d oid = find (\<lambda>p. pr_oid p = oid) (t_progress d)"

definition objects_of :: "db \<Rightarrow> u64 \<Rightarrow> task_object list" where
  "objects_of d tid = filter (\<lambda>o'. ob_task o' = tid) (t_objects d)"

text \<open>\<^verbatim>\<open>p.status = n\<close>, not true of a missing row.\<close>

definition has_status :: "nat \<Rightarrow> progress_row option \<Rightarrow> bool" where
  "has_status n p \<longleftrightarrow> (case p of None \<Rightarrow> False | Some r \<Rightarrow> pr_status r = n)"

definition count_if :: "('a \<Rightarrow> bool) \<Rightarrow> 'a list \<Rightarrow> nat" where
  "count_if P xs = length (filter P xs)"

definition current_verdict :: "subtask \<Rightarrow> string \<Rightarrow> task_object \<Rightarrow> bool" where
  "current_verdict t v o' \<longleftrightarrow> \<not> ob_deferred o' \<and> ob_gen o' = st_gen t \<and> ob_status o' = v"

definition zero_counts :: sub_counts where
  "zero_counts = \<lparr>c_total = 0, c_deferred = 0, c_pending = 0, c_failed = 0, c_processed = 0,
     c_verified = 0, c_residue = 0, c_errors = 0, c_keys = 0, c_bytes = 0\<rparr>"

text \<open>Reading a sum (a DECIMAL) into a \<^verbatim>\<open>uint64\<close> fails when it does not fit.\<close>

definition read_counts :: "db \<Rightarrow> u64 \<Rightarrow> err + sub_counts" where
  "read_counts d tid =
     (case find (\<lambda>t. st_id t = tid) (t_tasks d) of
        None \<Rightarrow> Inr zero_counts
      | Some t \<Rightarrow>
          let rows = objects_of d tid;
              prog = (\<lambda>o'. progress_of d (ob_oid o'));
              live = (\<lambda>o'. \<not> ob_deferred o');
              keys = (\<Sum>o'\<leftarrow>rows. case prog o' of None \<Rightarrow> 0 | Some p \<Rightarrow> unat (pr_keys p));
              bytes = (\<Sum>o'\<leftarrow>rows. case prog o' of None \<Rightarrow> 0 | Some p \<Rightarrow> unat (pr_bytes p))
          in if keys \<ge> 2 ^ 64 \<or> bytes \<ge> 2 ^ 64 then Inl OutOfRange
             else Inr \<lparr>c_total = length rows,
               c_deferred = count_if ob_deferred rows,
               c_pending = count_if (\<lambda>o'. live o' \<and> \<not> has_status 1 (prog o') \<and> \<not> has_status 2 (prog o')) rows,
               c_failed = count_if (\<lambda>o'. live o' \<and> has_status 2 (prog o')) rows,
               c_processed = count_if (\<lambda>o'. live o' \<and> has_status 1 (prog o')) rows,
               c_verified = count_if (current_verdict t ''PASS'') rows,
               c_residue = count_if (current_verdict t ''RESIDUE'') rows,
               c_errors = count_if (current_verdict t ''ERROR'') rows,
               c_keys = of_nat keys, c_bytes = of_nat bytes\<rparr>)"

definition sub_counts :: "ctx \<Rightarrow> u64 \<Rightarrow> (world, sub_counts) act" where
  "sub_counts c tid = query c (\<lambda>d. read_counts d tid)"

section \<open>Allocation\<close>

text \<open>The two conditions on a scanned object, the default one and \<^verbatim>\<open>--retry-deferred\<close>.\<close>

definition unassigned :: "db \<Rightarrow> scan_row \<Rightarrow> bool" where
  "unassigned d s \<longleftrightarrow> \<not> list_ex (\<lambda>o'. ob_oid o' = sr_oid s) (t_objects d)"

definition newest :: "db \<Rightarrow> task_object \<Rightarrow> bool" where
  "newest d o' \<longleftrightarrow>
     \<not> list_ex (\<lambda>n. ob_oid n = ob_oid o' \<and> ob_task n > ob_task o') (t_objects d)"

definition retryable :: "db \<Rightarrow> scan_row \<Rightarrow> bool" where
  "retryable d s \<longleftrightarrow>
     list_ex (\<lambda>o'. list_ex (\<lambda>t. st_id t = ob_task o' \<and> ob_oid o' = sr_oid s \<and> ob_deferred o' \<and>
                          st_purged t \<noteq> None \<and> newest d o') (t_tasks d)) (t_objects d)"

definition candidates :: "bool \<Rightarrow> int \<Rightarrow> db \<Rightarrow> scan_row list" where
  "candidates retry limit d =
     take (nat limit) (sort_key sr_oid
       (filter (if retry then retryable d else unassigned d) (t_scan d)))"

text \<open>\<^verbatim>\<open>INSERT INTO purge_tasks\<close> with the column defaults; the result is \<^verbatim>\<open>LastInsertId\<close>.\<close>

definition insert_task :: "u64 \<Rightarrow> nat \<Rightarrow> u64 \<Rightarrow> string \<Rightarrow> db \<Rightarrow> err + u64 \<times> db" where
  "insert_task target count logical digest d =
     (if next_task d = max_u64 then Inl (Txt ''Failed to read auto-increment value from storage engine'')
      else Inr (next_task d, d\<lparr>
        t_tasks := t_tasks d @ [\<lparr>st_id = next_task d, st_target = target, st_objects = count,
          st_logical = logical, st_digest = digest, st_phase = ''READY'', st_hold = [],
          st_hold_oid = None, st_gen = 1, st_done = None, st_purged = None, st_conn = None\<rparr>],
        next_task := next_task d + 1\<rparr>))"

definition new_object :: "u64 \<Rightarrow> u64 \<Rightarrow> task_object" where
  "new_object tid oid = \<lparr>ob_task = tid, ob_oid = oid, ob_deferred = False, ob_reason = [],
     ob_deferred_at = None, ob_gen = 0, ob_status = ''PENDING'', ob_detail = [],
     ob_verified_at = None\<rparr>"

definition insert_object :: "u64 \<Rightarrow> u64 \<Rightarrow> db \<Rightarrow> err + unit \<times> db" where
  "insert_object tid oid d =
     (if list_ex (\<lambda>o'. ob_task o' = tid \<and> ob_oid o' = oid) (t_objects d)
      then Inl (Txt ''Duplicate entry for key PRIMARY'')
      else Inr ((), d\<lparr>t_objects := t_objects d @ [new_object tid oid]\<rparr>))"

text \<open>An UPDATE of \<^verbatim>\<open>purge_progress\<close> moves \<^verbatim>\<open>updated_at\<close> of the rows it changes.\<close>

definition touch :: "nat \<Rightarrow> progress_row \<Rightarrow> progress_row \<Rightarrow> progress_row" where
  "touch now old new = (if new = old then old else new\<lparr>pr_updated := now\<rparr>)"

definition update_progress ::
  "nat \<Rightarrow> (progress_row \<Rightarrow> bool) \<Rightarrow> (progress_row \<Rightarrow> progress_row) \<Rightarrow> db \<Rightarrow> db" where
  "update_progress now P f d =
     d\<lparr>t_progress := map (\<lambda>p. if P p then touch now p (f p) else p) (t_progress d)\<rparr>"

definition update_tasks :: "(subtask \<Rightarrow> bool) \<Rightarrow> (subtask \<Rightarrow> subtask) \<Rightarrow> db \<Rightarrow> db" where
  "update_tasks P f d = d\<lparr>t_tasks := map (\<lambda>s. if P s then f s else s) (t_tasks d)\<rparr>"

definition update_objects :: "(task_object \<Rightarrow> bool) \<Rightarrow> (task_object \<Rightarrow> task_object) \<Rightarrow> db \<Rightarrow> db" where
  "update_objects P f d = d\<lparr>t_objects := map (\<lambda>o'. if P o' then f o' else o') (t_objects d)\<rparr>"

definition allocate_object :: "ctx \<Rightarrow> u64 \<Rightarrow> bool \<Rightarrow> scan_row \<Rightarrow> (world, unit) act" where
  "allocate_object c tid retry r =
     bindA (update c (\<lambda>now. insert_object tid (sr_oid r))) (\<lambda>_.
     if retry
     then exec c (\<lambda>now. update_progress now (\<lambda>p. pr_oid p = sr_oid r)
            (\<lambda>p. p\<lparr>pr_status := 2, pr_reason := Some ''explicit deferred retry''\<rparr>))
     else ret ())"

definition allocate ::
  "(string \<Rightarrow> string) \<Rightarrow> ctx \<Rightarrow> u64 \<Rightarrow> int \<Rightarrow> bool \<Rightarrow> (world, u64) act" where
  "allocate H c target limit retry =
     bindA (query c (\<lambda>d. case t_meta d of None \<Rightarrow> Inl ErrNoRows | Some _ \<Rightarrow> Inr ())) (\<lambda>_.
     bindA (query c (\<lambda>d. Inr (candidates retry limit d))) (\<lambda>cands.
     bindA (liftE (select_capacity cands target limit)) (\<lambda>sel.
     bindA (failIf (length (fst sel) = 0) ErrNoUnassigned) (\<lambda>_.
     bindA (update c (\<lambda>now. insert_task target (length (fst sel)) (snd sel) (digest_rows H (fst sel)))) (\<lambda>tid.
     bindA (forA (fst sel) (allocate_object c tid retry)) (\<lambda>_.
     bindA (check_lock c) (\<lambda>_.
     ret tid)))))))"

text \<open>Results of an older version that belong to no subtask.\<close>

definition legacy_results :: "db \<Rightarrow> nat" where
  "legacy_results d =
     count_if (\<lambda>p. \<not> list_ex (\<lambda>o'. ob_oid o' = pr_oid p) (t_objects d)) (t_progress d)"

definition create_subtask ::
  "(string \<Rightarrow> string) \<Rightarrow> ctx \<Rightarrow> u64 \<Rightarrow> int \<Rightarrow> bool \<Rightarrow> (world, subtask) act" where
  "create_subtask H c target limit retry =
     bindA (check_lock c) (\<lambda>_.
     bindA (failIf (target = 0 \<or> limit \<le> 0 \<or> limit > 100000)
       (Txt ''target must be positive; max-objects must be 1..100000'')) (\<lambda>_.
     bindA (require_complete_scan c) (\<lambda>_.
     bindA (require_no_hold c) (\<lambda>_.
     tryA (resolve_subtask c 0)
       (\<lambda>e. if \<not> err_is e ErrNoCurrentTask then throw e
        else
         bindA (query c (\<lambda>d. Inr (legacy_results d))) (\<lambda>legacy.
         bindA (failIf (legacy > 0)
           (Txt ''unassigned legacy purge results: use a fresh progress DB or an explicitly reviewed migration'')) (\<lambda>_.
         bindA (transaction c (allocate H c target limit retry)) (\<lambda>tid.
         subtask_row c tid))))
       ret))))"

section \<open>Manifest and claims\<close>

definition scan_of :: "db \<Rightarrow> u64 \<Rightarrow> scan_row option" where
  "scan_of d oid = find (\<lambda>s. sr_oid s = oid) (t_scan d)"

text \<open>The members of a task joined with their snapshots.\<close>

definition member_rows :: "db \<Rightarrow> u64 \<Rightarrow> (task_object \<times> scan_row) list" where
  "member_rows d tid =
     List.map_filter (\<lambda>o'. map_option (Pair o') (scan_of d (ob_oid o'))) (objects_of d tid)"

definition manifest :: "db \<Rightarrow> u64 \<Rightarrow> scan_row list" where
  "manifest d tid = sort_key sr_oid (map snd (member_rows d tid))"

definition check_manifest :: "(string \<Rightarrow> string) \<Rightarrow> ctx \<Rightarrow> subtask \<Rightarrow> (world, unit) act" where
  "check_manifest H c s =
     bindA (query c (\<lambda>d. Inr (manifest d (st_id s)))) (\<lambda>list.
     failIf (length list \<noteq> st_objects s \<or> digest_rows H list \<noteq> st_digest s)
       (Txt ''subtask manifest changed; refusing to operate''))"

text \<open>The objects of a task that need work: not processed, or with verified residue.\<close>

definition claimable :: "db \<Rightarrow> task_object \<Rightarrow> bool" where
  "claimable d o' \<longleftrightarrow>
     \<not> ob_deferred o' \<and> (\<not> has_status 1 (progress_of d (ob_oid o')) \<or> ob_status o' = ''RESIDUE'')"

definition claim_rows :: "db \<Rightarrow> u64 \<Rightarrow> u64 \<Rightarrow> nat \<Rightarrow> claim_row list" where
  "claim_rows d tid after limit =
     take limit (sort_key sr_oid (map snd (filter
       (\<lambda>(o', s). sr_oid s > after \<and> claimable d o') (member_rows d tid))))"

definition claim_subtask :: "ctx \<Rightarrow> u64 \<Rightarrow> u64 \<Rightarrow> nat \<Rightarrow> (world, claim_row list) act" where
  "claim_subtask c tid after limit = query c (\<lambda>d. Inr (claim_rows d tid after limit))"

end
