(* ===== verification/SubtaskPhases.thy ===== *)
theory SubtaskPhases
  imports Subtask
begin

text \<open>
  The second half of \<^verbatim>\<open>internal/progress/subtask.go\<close>: the purge and verify phases of a
  subtask, safety holds, deferral and resumption, the reports, and the per-object results a
  deletion run writes (with \<^verbatim>\<open>Fail\<close> and \<^verbatim>\<open>Done\<close> of \<^verbatim>\<open>progress.go\<close>).
\<close>

section \<open>The purge phase\<close>

definition begin_purge :: "(string \<Rightarrow> string) \<Rightarrow> ctx \<Rightarrow> subtask \<Rightarrow> (world, unit) act" where
  "begin_purge H c s =
     bindA (check_lock c) (\<lambda>_.
     bindA (failIf (st_done s \<noteq> None \<or> st_hold s \<noteq> []) (Txt ''task is completed or on SAFETY_HOLD'')) (\<lambda>_.
     bindA (require_no_hold c) (\<lambda>_.
     bindA (check_manifest H c s) (\<lambda>_.
     transaction c (
       bindA (exec c (\<lambda>now d. update_progress now
         (\<lambda>p. list_ex (\<lambda>o'. ob_oid o' = pr_oid p \<and> ob_task o' = st_id s \<and> \<not> ob_deferred o' \<and>
                        ob_status o' = ''RESIDUE'') (t_objects d))
         (\<lambda>p. p\<lparr>pr_status := 2, pr_reason := Some ''verify found residue''\<rparr>) d)) (\<lambda>_.
       bindA (getA lock_id) (\<lambda>cid.
       update c (\<lambda>now d.
         let here = (\<lambda>t. st_id t = st_id s \<and> st_done t = None \<and> st_hold t = []) in
         if list_ex (\<lambda>t. here t \<and> st_gen t = max_u64) (t_tasks d) then Inl OutOfRange
         else Inr ((), update_tasks here
           (\<lambda>t. t\<lparr>st_phase := ''PURGE'', st_gen := st_gen t + 1, st_conn := Some cid\<rparr>) d)))))))))"

text \<open>\<^verbatim>\<open>COALESCE(x, y)\<close>\<close>

definition coalesce :: "'a option \<Rightarrow> 'a option \<Rightarrow> 'a option" where
  "coalesce x y = (case x of None \<Rightarrow> y | Some _ \<Rightarrow> x)"

definition incomplete_text :: "sub_counts \<Rightarrow> string" where
  "incomplete_text n = ''deletion incomplete: pending='' @ dec (c_pending n) @ '' failed='' @
     dec (c_failed n) @ '' total='' @ dec (c_total n)"

definition complete_purge :: "ctx \<Rightarrow> subtask \<Rightarrow> (world, unit) act" where
  "complete_purge c s =
     bindA (check_lock c) (\<lambda>_.
     bindA (sub_counts c (st_id s)) (\<lambda>n.
     bindA (failIf (c_total n = 0 \<or> c_total n \<noteq> st_objects s \<or> c_pending n + c_failed n > 0)
       (Txt (incomplete_text n))) (\<lambda>_.
     bindA (exec c (\<lambda>now. update_tasks
       (\<lambda>t. st_id t = st_id s \<and> st_done t = None \<and> st_hold t = [])
       (\<lambda>t. t\<lparr>st_purged := coalesce (st_purged t) (Some now), st_phase := ''PURGE''\<rparr>))) (\<lambda>_.
     bindA (subtask_row c (st_id s)) (\<lambda>t.
     failIf (st_purged t = None \<or> st_hold t \<noteq> [] \<or> st_done t \<noteq> None)
       (Txt ''task could not be marked deletion-complete''))))))"

definition clip_reason :: "string \<Rightarrow> string" where
  "clip_reason reason =
     (if length (runes reason) > 3900 then concat (take 3900 (runes reason)) else reason)"

definition hold :: "ctx \<Rightarrow> u64 \<Rightarrow> u64 option \<Rightarrow> string \<Rightarrow> (world, unit) act" where
  "hold c tid oid reason =
     bindA (check_lock c) (\<lambda>_.
     exec c (\<lambda>now. update_tasks (\<lambda>t. st_id t = tid \<and> st_done t = None)
       (\<lambda>t. t\<lparr>st_hold := clip_reason reason, st_hold_oid := oid\<rparr>)))"

section \<open>The verify phase\<close>

definition begin_verify ::
  "(string \<Rightarrow> string) \<Rightarrow> ctx \<Rightarrow> subtask \<Rightarrow> bool \<Rightarrow> (world, subtask) act" where
  "begin_verify H c s restart =
     bindA (check_lock c) (\<lambda>_.
     bindA (failIf (st_hold s \<noteq> []) (Txt ''SAFETY_HOLD: investigate and task resume first'')) (\<lambda>_.
     if st_done s \<noteq> None \<and> \<not> restart then ret s
     else
       bindA (check_manifest H c s) (\<lambda>_.
       bindA (sub_counts c (st_id s)) (\<lambda>n.
       bindA (failIf (c_pending n + c_failed n > 0)
         (Txt ''task has unprocessed/failed objects; purge or explicitly defer them before verify'')) (\<lambda>_.
       bindA (getA lock_id) (\<lambda>cid.
       let g = (if restart then st_gen s + 1 else st_gen s) in
       bindA (exec c (\<lambda>now. update_tasks (\<lambda>t. st_id t = st_id s)
         (\<lambda>t. t\<lparr>st_phase := ''VERIFY'', st_gen := g, st_done := None,
              st_purged := coalesce (st_purged t) (Some now), st_conn := Some cid\<rparr>))) (\<lambda>_.
       subtask_row c (st_id s))))))))"

text \<open>\<^verbatim>\<open>VerifyPending\<close>: members without a PASS in the generation of \<open>s\<close>.\<close>

definition needs_check :: "u64 \<Rightarrow> task_object \<Rightarrow> bool" where
  "needs_check gen o' \<longleftrightarrow> \<not> ob_deferred o' \<and> (ob_gen o' \<noteq> gen \<or> ob_status o' \<noteq> ''PASS'')"

definition verify_pending :: "ctx \<Rightarrow> subtask \<Rightarrow> u64 \<Rightarrow> nat \<Rightarrow> (world, u64 list) act" where
  "verify_pending c s after limit =
     query c (\<lambda>d. Inr (take limit (sort (map ob_oid (filter
       (\<lambda>o'. ob_oid o' > after \<and> needs_check (st_gen s) o') (objects_of d (st_id s)))))))"

definition record_verify :: "ctx \<Rightarrow> subtask \<Rightarrow> u64 \<Rightarrow> string \<Rightarrow> string \<Rightarrow> (world, unit) act" where
  "record_verify c s oid status detail =
     bindA (failIf (status \<noteq> ''PASS'' \<and> status \<noteq> ''ERROR'' \<and> status \<noteq> ''RESIDUE'')
       (Txt ''invalid verification result'')) (\<lambda>_.
     bindA (check_lock c) (\<lambda>_.
     exec c (\<lambda>now. update_objects
       (\<lambda>o'. ob_task o' = st_id s \<and> ob_oid o' = oid \<and> \<not> ob_deferred o')
       (\<lambda>o'. o'\<lparr>ob_gen := st_gen s, ob_status := status, ob_detail := detail,
               ob_verified_at := Some now\<rparr>))))"

definition unverified_text :: "sub_counts \<Rightarrow> string" where
  "unverified_text n = ''verification incomplete: pass='' @ dec (c_verified n) @ '' deferred='' @
     dec (c_deferred n) @ '' total='' @ dec (c_total n) @ '' residue='' @ dec (c_residue n) @
     '' errors='' @ dec (c_errors n)"

definition complete_verify :: "ctx \<Rightarrow> subtask \<Rightarrow> (world, unit) act" where
  "complete_verify c s =
     bindA (check_lock c) (\<lambda>_.
     bindA (sub_counts c (st_id s)) (\<lambda>n.
     bindA (failIf (c_total n \<noteq> st_objects s \<or> c_pending n + c_failed n > 0 \<or>
                    c_verified n + c_deferred n \<noteq> c_total n) (Txt (unverified_text n))) (\<lambda>_.
     bindA (exec c (\<lambda>now. update_tasks
       (\<lambda>t. st_id t = st_id s \<and> st_hold t = [] \<and> st_phase t = ''VERIFY'' \<and> st_gen t = st_gen s)
       (\<lambda>t. t\<lparr>st_done := Some now\<rparr>))) (\<lambda>_.
     bindA (subtask_row c (st_id s)) (\<lambda>t.
     failIf (st_done t = None) (Txt ''task could not be finalized''))))))"

section \<open>Operator decisions\<close>

definition add_event :: "u64 \<Rightarrow> u64 option \<Rightarrow> string \<Rightarrow> string \<Rightarrow> db \<Rightarrow> db" where
  "add_event tid oid action reason d =
     d\<lparr>t_events := t_events d @ [\<lparr>te_task = tid, te_oid = oid, te_action = action, te_reason = reason\<rparr>]\<rparr>"

text \<open>Lifting a hold: \<^verbatim>\<open>hold_reason='', hold_oid=NULL\<close>.\<close>

definition lift_hold :: "u64 \<Rightarrow> db \<Rightarrow> db" where
  "lift_hold tid = update_tasks (\<lambda>t. st_id t = tid) (\<lambda>t. t\<lparr>st_hold := [], st_hold_oid := None\<rparr>)"

definition active_member :: "u64 \<Rightarrow> u64 \<Rightarrow> task_object \<Rightarrow> bool" where
  "active_member tid oid o' \<longleftrightarrow> ob_task o' = tid \<and> ob_oid o' = oid \<and> \<not> ob_deferred o'"

text \<open>The deferring UPDATE returns the number of rows it changed.\<close>

definition defer_rows :: "u64 \<Rightarrow> u64 \<Rightarrow> string \<Rightarrow> nat \<Rightarrow> db \<Rightarrow> nat \<times> db" where
  "defer_rows tid oid reason now d =
     (count_if (active_member tid oid) (t_objects d),
      update_objects (active_member tid oid)
        (\<lambda>o'. o'\<lparr>ob_deferred := True, ob_reason := reason, ob_deferred_at := Some now\<rparr>) d)"

definition defer_tx :: "ctx \<Rightarrow> subtask \<Rightarrow> u64 \<Rightarrow> string \<Rightarrow> (world, unit) act" where
  "defer_tx c s oid reason =
     bindA (update c (\<lambda>now d. Inr (defer_rows (st_id s) oid reason now d))) (\<lambda>n.
     bindA (failIf (n \<noteq> 1) (Txt ''OID is not an active member of this task'')) (\<lambda>_.
     bindA (exec c (\<lambda>now. add_event (st_id s) (Some oid) ''DEFER'' reason)) (\<lambda>_.
     if st_hold s \<noteq> [] then exec c (\<lambda>now. lift_hold (st_id s)) else ret ())))"

definition defer_object :: "ctx \<Rightarrow> subtask \<Rightarrow> u64 \<Rightarrow> string \<Rightarrow> (world, unit) act" where
  "defer_object c s oid reason =
     bindA (failIf (blank reason) (Txt ''--reason is required'')) (\<lambda>_.
     bindA (failIf (length (runes reason) > 3900) (Txt ''--reason must be at most 3900 characters'')) (\<lambda>_.
     bindA (failIf (st_done s \<noteq> None) (Txt ''cannot defer from a completed task'')) (\<lambda>_.
     bindA (failIf (st_hold s \<noteq> [] \<and> st_hold_oid s \<noteq> Some oid)
       (Txt ''global/unrelated safety hold cannot be bypassed by deferring this object'')) (\<lambda>_.
     bindA (check_lock c) (\<lambda>_.
     bindA (transaction c (defer_tx c s oid reason)) (\<lambda>_.
     bindA (sub_counts c (st_id s)) (\<lambda>n.
     if c_pending n + c_failed n = 0 then complete_purge c s else ret ())))))))"

definition resume_safety :: "ctx \<Rightarrow> subtask \<Rightarrow> string \<Rightarrow> (world, unit) act" where
  "resume_safety c s reason =
     bindA (failIf (blank reason) (Txt ''--reason is required'')) (\<lambda>_.
     bindA (failIf (st_hold s = []) (Txt ''task is not on SAFETY_HOLD; rerun purge/verify directly'')) (\<lambda>_.
     bindA (check_lock c) (\<lambda>_.
     transaction c (
       bindA (exec c (\<lambda>now. add_event (st_id s) None ''RESUME''
         (reason @ ''; previous hold: '' @ st_hold s))) (\<lambda>_.
       exec c (\<lambda>now. lift_hold (st_id s)))))))"

section \<open>Reports\<close>

record report_row =
  rr_oid :: u64
  rr_kind :: string
  rr_detail :: string

definition report_rows :: "db \<Rightarrow> subtask \<Rightarrow> report_row list" where
  "report_rows d s =
     sort_key rr_oid (map
       (\<lambda>o'. \<lparr>rr_oid = ob_oid o', rr_kind = (if ob_deferred o' then ''DEFERRED'' else ob_status o'),
             rr_detail = (if ob_deferred o' then ob_reason o' else ob_detail o')\<rparr>)
       (filter (\<lambda>o'. ob_deferred o' \<or> (ob_gen o' = st_gen s \<and> ob_status o' \<in> {''ERROR'', ''RESIDUE''}))
         (objects_of d (st_id s))))"

definition verify_report :: "ctx \<Rightarrow> subtask \<Rightarrow> (world, report_row list) act" where
  "verify_report c s = query c (\<lambda>d. Inr (report_rows d s))"

definition outstanding :: "ctx \<Rightarrow> (world, nat \<times> nat) act" where
  "outstanding c =
     bindA (query c (\<lambda>d. Inr (count_if (unassigned d) (t_scan d)))) (\<lambda>un.
     bindA (query c (\<lambda>d. Inr (count_if (\<lambda>o'. ob_deferred o' \<and> newest d o') (t_objects d)))) (\<lambda>df.
     ret (un, df)))"

section \<open>Per-object results\<close>

text \<open>
  The counters of \<^verbatim>\<open>purge_progress\<close>: \<^verbatim>\<open>deleted_keys\<close> is a 32-bit column,
  \<^verbatim>\<open>deleted_bytes\<close> a 64-bit one; a sum out of range is an error of the statement.
\<close>

definition credit :: "u64 \<Rightarrow> u64 \<Rightarrow> progress_row \<Rightarrow> progress_row option" where
  "credit keys bytes p =
     (if unat (pr_keys p) + unat keys \<ge> 2 ^ 32 \<or> unat (pr_bytes p) + unat bytes \<ge> 2 ^ 64 then None
      else Some (p\<lparr>pr_keys := pr_keys p + keys, pr_bytes := pr_bytes p + bytes\<rparr>))"

definition fresh_progress :: "u64 \<Rightarrow> nat \<Rightarrow> progress_row" where
  "fresh_progress oid now = \<lparr>pr_oid = oid, pr_status = 0, pr_keys = 0, pr_bytes = 0,
     pr_reason = None, pr_role = None, pr_expected = None, pr_updated = now\<rparr>"

text \<open>
  \<^verbatim>\<open>INSERT ... ON DUPLICATE KEY UPDATE\<close>: \<open>new\<close> completes a fresh row, \<open>old\<close> the stored one,
  both after the counters.
\<close>

definition upsert ::
  "u64 \<Rightarrow> u64 \<Rightarrow> u64 \<Rightarrow> (progress_row \<Rightarrow> progress_row) \<Rightarrow> (progress_row \<Rightarrow> progress_row) \<Rightarrow>
   nat \<Rightarrow> db \<Rightarrow> err + unit \<times> db" where
  "upsert oid keys bytes new old now d =
     (case progress_of d oid of
        None \<Rightarrow>
          (case credit keys bytes (fresh_progress oid now) of
             None \<Rightarrow> Inl OutOfRange
           | Some p \<Rightarrow> Inr ((), d\<lparr>t_progress := t_progress d @ [new p]\<rparr>))
      | Some r \<Rightarrow>
          (case credit keys bytes r of
             None \<Rightarrow> Inl OutOfRange
           | Some p \<Rightarrow> Inr ((), update_progress now (\<lambda>q. pr_oid q = oid) (\<lambda>_. old p) d)))"

definition done_stmt ::
  "u64 \<Rightarrow> u64 \<Rightarrow> u64 \<Rightarrow> string \<Rightarrow> u64 option \<Rightarrow> nat \<Rightarrow> db \<Rightarrow> err + unit \<times> db" where
  "done_stmt oid keys bytes role expected =
     upsert oid keys bytes
       (\<lambda>p. p\<lparr>pr_status := 1, pr_reason := None, pr_role := Some role, pr_expected := expected\<rparr>)
       (\<lambda>p. p\<lparr>pr_status := 1, pr_reason := None,
            pr_role := (if role = ''none'' then pr_role p else Some role),
            pr_expected := coalesce expected (pr_expected p)\<rparr>)"

text \<open>\<^verbatim>\<open>Done\<close> of \<^verbatim>\<open>progress.go\<close>, without a subtask.\<close>

definition done_plain ::
  "ctx \<Rightarrow> u64 \<Rightarrow> u64 \<Rightarrow> u64 \<Rightarrow> string \<Rightarrow> u64 option \<Rightarrow> (world, unit) act" where
  "done_plain c oid keys bytes role expected = update c (done_stmt oid keys bytes role expected)"

definition fail_object :: "ctx \<Rightarrow> u64 \<Rightarrow> u64 \<Rightarrow> u64 \<Rightarrow> string \<Rightarrow> (world, unit) act" where
  "fail_object c oid keys bytes reason =
     (let reason = (if length reason > 4000 then take 4000 reason else reason);
          mark = (\<lambda>p. p\<lparr>pr_status := 2, pr_reason := Some reason\<rparr>)
      in update c (upsert oid keys bytes mark mark))"

definition member_query :: "u64 \<Rightarrow> u64 \<Rightarrow> db \<Rightarrow> err + unit" where
  "member_query tid oid d =
     (if list_ex (active_member tid oid) (t_objects d) then Inr () else Inl ErrNoRows)"

definition done_subtask ::
  "ctx \<Rightarrow> u64 \<Rightarrow> u64 \<Rightarrow> u64 \<Rightarrow> u64 \<Rightarrow> string \<Rightarrow> u64 option \<Rightarrow> (world, unit) act" where
  "done_subtask c tid oid keys bytes role expected =
     bindA (check_lock c) (\<lambda>_.
     transaction c (
       bindA (query c (member_query tid oid)) (\<lambda>_.
       bindA (update c (done_stmt oid keys bytes role expected)) (\<lambda>_.
       exec c (\<lambda>now. update_objects (\<lambda>o'. ob_task o' = tid \<and> ob_oid o' = oid)
         (\<lambda>o'. o'\<lparr>ob_gen := 0, ob_status := ''PENDING'', ob_detail := [], ob_verified_at := None\<rparr>))))))"

definition check_member :: "ctx \<Rightarrow> u64 \<Rightarrow> u64 \<Rightarrow> (world, unit) act" where
  "check_member c tid oid = bindA (check_lock c) (\<lambda>_. query c (member_query tid oid))"

end
