(* ===== verification/ProgressQueries.thy ===== *)
theory ProgressQueries
  imports SubtaskPhases
begin

text \<open>
  The rest of \<^verbatim>\<open>internal/progress/progress.go\<close>: opening an existing database
  (\<^verbatim>\<open>EnsureSchema\<close>, with the recovery of a crash after the last result), and the read-only
  queries behind \<^verbatim>\<open>status\<close>. The lemmas about the counters rest on the invariant of
  \<^verbatim>\<open>Lifecycle\<close>.
\<close>

section \<open>EnsureSchema\<close>

text \<open>
  The schema as far as the statements of \<^verbatim>\<open>EnsureSchema\<close> read it: the later columns an older
  database lacks, and the number of tables with another storage engine. The tables of the model
  have every column; one that is added is NULL in every row, which is what the records hold.
\<close>

record schema =
  sc_missing :: "(string \<times> string) list"
  sc_foreign :: nat

definition later_columns :: "(string \<times> string) list" where
  "later_columns =
     [(''purge_progress'', ''role''), (''purge_progress'', ''expected_bytes''),
      (''purge_tasks'', ''purged_at''), (''purge_tasks'', ''execution_connection_id'')]"

definition table_names :: "string list" where
  "table_names = [''scan_objects'', ''purge_progress'', ''task_meta'', ''purge_tasks'',
     ''task_objects'', ''task_events'']"

definition create_table :: "ctx \<Rightarrow> string \<Rightarrow> (world, unit) act" where
  "create_table c name = exec c (\<lambda>now d. d)"

definition add_column :: "schema \<Rightarrow> ctx \<Rightarrow> string \<times> string \<Rightarrow> (world, unit) act" where
  "add_column sc c col =
     bindA (query c (\<lambda>d. Inr (if col \<in> set (sc_missing sc) then 0 else 1 :: nat))) (\<lambda>n.
     if n = 0 then exec c (\<lambda>now d. d) else ret ())"

text \<open>\<^verbatim>\<open>SET execution_connection_id=NULL\<close>\<close>

definition forget_owners :: "db \<Rightarrow> db" where
  "forget_owners = update_tasks (\<lambda>t. st_conn t \<noteq> None) (\<lambda>t. t\<lparr>st_conn := None\<rparr>)"

text \<open>A member whose deletion is not recorded as done.\<close>

definition undeleted :: "db \<Rightarrow> task_object \<Rightarrow> bool" where
  "undeleted d o' \<longleftrightarrow> \<not> ob_deferred o' \<and> \<not> has_status 1 (progress_of d (ob_oid o'))"

definition recoverable :: "db \<Rightarrow> subtask \<Rightarrow> bool" where
  "recoverable d t \<longleftrightarrow>
     st_purged t = None \<and> st_hold t = [] \<and> st_objects t > 0 \<and>
     (st_phase t \<noteq> ''READY'' \<or>
      \<not> list_ex (\<lambda>o'. ob_task o' = st_id t \<and> \<not> ob_deferred o') (t_objects d)) \<and>
     st_objects t = count_if (\<lambda>o'. ob_task o' = st_id t) (t_objects d) \<and>
     \<not> list_ex (\<lambda>o'. ob_task o' = st_id t \<and> undeleted d o') (t_objects d)"

definition recover_purged :: "nat \<Rightarrow> db \<Rightarrow> db" where
  "recover_purged now d =
     update_tasks (recoverable d) (\<lambda>t. t\<lparr>st_purged := coalesce (st_done t) (Some now)\<rparr>) d"

definition ensure_schema :: "schema \<Rightarrow> ctx \<Rightarrow> (world, unit) act" where
  "ensure_schema sc c =
     bindA (check_lock c) (\<lambda>_.
     bindA (forA table_names (create_table c)) (\<lambda>_.
     bindA (forA later_columns (add_column sc c)) (\<lambda>_.
     bindA (query c (\<lambda>d. Inr (sc_foreign sc))) (\<lambda>n.
     bindA (failIf (n \<noteq> 0)
       (Txt ''progress tables must use InnoDB; review/migrate storage engines before running'')) (\<lambda>_.
     bindA (exec c (\<lambda>now. forget_owners)) (\<lambda>_.
     exec c recover_purged))))))"

section \<open>Queries\<close>

text \<open>\<^verbatim>\<open>Claim\<close>, the claim of a database without subtasks.\<close>

definition plain_claim_rows :: "db \<Rightarrow> u64 \<Rightarrow> nat \<Rightarrow> bool \<Rightarrow> claim_row list" where
  "plain_claim_rows d after limit retry =
     take limit (sort_key sr_oid (filter
       (\<lambda>s. sr_oid s > after \<and>
          (if retry then has_status 2 (progress_of d (sr_oid s))
           else progress_of d (sr_oid s) = None)) (t_scan d)))"

definition plain_claim :: "ctx \<Rightarrow> u64 \<Rightarrow> nat \<Rightarrow> bool \<Rightarrow> (world, claim_row list) act" where
  "plain_claim c after limit retry = query c (\<lambda>d. Inr (plain_claim_rows d after limit retry))"

record counts =
  n_total :: u64
  n_done :: u64
  n_failed :: u64
  n_keys :: u64
  n_bytes :: u64
  n_scan_bytes :: u64
  n_checked :: u64
  n_mismatch :: u64

text \<open>\<^verbatim>\<open>Remaining\<close>: an unsigned subtraction, it wraps around.\<close>

definition remaining :: "counts \<Rightarrow> u64" where
  "remaining c = n_total c - n_done c - n_failed c"

definition size_known :: "progress_row \<Rightarrow> bool" where
  "size_known p \<longleftrightarrow> pr_status p = 1 \<and> pr_expected p \<noteq> None"

definition size_mismatch :: "progress_row \<Rightarrow> bool" where
  "size_mismatch p \<longleftrightarrow> pr_status p = 1 \<and>
     (case pr_expected p of None \<Rightarrow> False | Some e \<Rightarrow> pr_bytes p \<noteq> e)"

text \<open>A total that does not fit a \<^verbatim>\<open>uint64\<close> cannot be scanned.\<close>

definition scan_totals :: "db \<Rightarrow> err + nat \<times> u64" where
  "scan_totals d =
     (let bytes = (\<Sum>s\<leftarrow>t_scan d. unat (sr_payload s))
      in if bytes \<ge> 2 ^ 64 then Inl OutOfRange else Inr (length (t_scan d), of_nat bytes))"

definition progress_totals :: "db \<Rightarrow> err + u64 \<times> u64" where
  "progress_totals d =
     (let keys = (\<Sum>p\<leftarrow>t_progress d. unat (pr_keys p));
          bytes = (\<Sum>p\<leftarrow>t_progress d. unat (pr_bytes p))
      in if keys \<ge> 2 ^ 64 \<or> bytes \<ge> 2 ^ 64 then Inl OutOfRange
         else Inr (of_nat keys, of_nat bytes))"

definition read_totals :: "db \<Rightarrow> nat \<Rightarrow> u64 \<Rightarrow> err + counts" where
  "read_totals d total_rows scan_bytes =
     (case progress_totals d of
        Inl e \<Rightarrow> Inl e
      | Inr (keys, bytes) \<Rightarrow>
          let rows = t_progress d in
          Inr \<lparr>n_total = of_nat total_rows,
            n_done = of_nat (count_if (\<lambda>p. pr_status p = 1) rows),
            n_failed = of_nat (count_if (\<lambda>p. pr_status p = 2) rows),
            n_keys = keys, n_bytes = bytes, n_scan_bytes = scan_bytes,
            n_checked = of_nat (count_if size_known rows),
            n_mismatch = of_nat (count_if size_mismatch rows)\<rparr>)"

definition read_all_counts :: "ctx \<Rightarrow> (world, counts) act" where
  "read_all_counts c =
     bindA (query c scan_totals) (\<lambda>(total_rows, scan_bytes).
     query c (\<lambda>d. read_totals d total_rows scan_bytes))"

definition mismatch_line :: "progress_row \<Rightarrow> string" where
  "mismatch_line p =
     dec (unat (pr_oid p)) @ [tab] @ (case pr_role p of None \<Rightarrow> [] | Some r \<Rightarrow> r) @ [tab] @
     ''deleted='' @ dec (unat (pr_bytes p)) @ [tab] @
     ''expected='' @ (case pr_expected p of None \<Rightarrow> [] | Some e \<Rightarrow> dec (unat e))"

definition mismatches :: "ctx \<Rightarrow> nat \<Rightarrow> (world, string list) act" where
  "mismatches c limit =
     query c (\<lambda>d. Inr (map mismatch_line
       (take limit (sort_key pr_oid (filter size_mismatch (t_progress d))))))"

text \<open>Failures, the latest first.\<close>

definition failures :: "ctx \<Rightarrow> nat \<Rightarrow> (world, string list) act" where
  "failures c limit =
     query c (\<lambda>d. Inr (map
       (\<lambda>p. dec (unat (pr_oid p)) @ [tab] @ (case pr_reason p of None \<Rightarrow> [] | Some r \<Rightarrow> r))
       (take limit (sort_key (\<lambda>p. - int (pr_updated p))
         (filter (\<lambda>p. pr_status p = 2) (t_progress d))))))"

definition scan_ids :: "ctx \<Rightarrow> u64 \<Rightarrow> nat \<Rightarrow> (world, scan_row list) act" where
  "scan_ids c after limit =
     query c (\<lambda>d. Inr (take limit (sort_key sr_oid (filter (\<lambda>s. sr_oid s > after) (t_scan d)))))"

end
