(* ===== verification/Lifecycle.thy ===== *)
theory Lifecycle
  imports ProgressQueries
begin

text \<open>
  The invariant of the progress database and its preservation by every operation of
  \<^verbatim>\<open>internal/progress\<close>, whatever the environment does to the statements. Keys are unique; every
  member of a task is a listed object, with at most one task holding it undeferred; at most one
  task is in its first deletion pass; and a task is only marked done when each of its undeferred
  members is deleted and passed verification in the task's current generation.
\<close>

section \<open>The invariant\<close>

definition object_key :: "task_object \<Rightarrow> u64 \<times> u64" where
  "object_key o' = (ob_task o', ob_oid o')"

text \<open>Deleted, and verified in the generation \<open>gen\<close>.\<close>

definition passed :: "db \<Rightarrow> u64 \<Rightarrow> task_object \<Rightarrow> bool" where
  "passed d gen o' \<longleftrightarrow>
     ob_gen o' = gen \<and> ob_status o' = ''PASS'' \<and> has_status 1 (progress_of d (ob_oid o'))"

definition certified :: "db \<Rightarrow> subtask \<Rightarrow> bool" where
  "certified d t \<longleftrightarrow> list_all (\<lambda>o'. ob_deferred o' \<or> passed d (st_gen t) o') (objects_of d (st_id t))"

definition keys_ok :: "db \<Rightarrow> bool" where
  "keys_ok d \<longleftrightarrow>
     distinct (map st_id (t_tasks d)) \<and> list_all (\<lambda>t. 0 < st_id t \<and> st_id t < next_task d) (t_tasks d) \<and>
     0 < next_task d \<and>
     distinct (map object_key (t_objects d)) \<and>
     list_all (\<lambda>o'. ob_task o' \<in> st_id ` set (t_tasks d) \<and> ob_oid o' \<in> sr_oid ` set (t_scan d)) (t_objects d) \<and>
     distinct (map sr_oid (t_scan d)) \<and>
     distinct (map pr_oid (t_progress d)) \<and>
     list_all (\<lambda>p. pr_oid p \<in> sr_oid ` set (t_scan d) \<and> pr_status p \<in> {1, 2}) (t_progress d)"

definition sealed :: "db \<Rightarrow> bool" where
  "sealed d \<longleftrightarrow> scan_status_of (t_meta d) = ScanComplete"

definition task_ok :: "db \<Rightarrow> subtask \<Rightarrow> bool" where
  "task_ok d t \<longleftrightarrow>
     0 < st_objects t \<and> st_objects t = length (objects_of d (st_id t)) \<and>
     (st_done t \<noteq> None \<longrightarrow> st_purged t \<noteq> None \<and> st_hold t = [] \<and> certified d t) \<and>
     (st_phase t = ''VERIFY'' \<longrightarrow> st_purged t \<noteq> None)"

definition db_ok :: "db \<Rightarrow> bool" where
  "db_ok d \<longleftrightarrow>
     keys_ok d \<and> list_all (task_ok d) (t_tasks d) \<and>
     length (filter deleting (t_tasks d)) \<le> 1 \<and>
     list_all (\<lambda>o'. ob_deferred o' \<or> newest d o') (t_objects d) \<and>
     (t_tasks d \<noteq> [] \<longrightarrow> sealed d)"

lemma db_okI:
  assumes "keys_ok d" "\<And>t. t \<in> set (t_tasks d) \<Longrightarrow> task_ok d t"
    and "length (filter deleting (t_tasks d)) \<le> 1"
    and "\<And>o'. o' \<in> set (t_objects d) \<Longrightarrow> \<not> ob_deferred o' \<Longrightarrow> newest d o'"
    and "t_tasks d \<noteq> [] \<Longrightarrow> sealed d"
  shows "db_ok d"
  using assms by (auto simp: db_ok_def list_all_iff)

lemma db_okD:
  assumes "db_ok d"
  shows "keys_ok d" "\<And>t. t \<in> set (t_tasks d) \<Longrightarrow> task_ok d t"
    "length (filter deleting (t_tasks d)) \<le> 1"
    "\<And>o'. o' \<in> set (t_objects d) \<Longrightarrow> \<not> ob_deferred o' \<Longrightarrow> newest d o'"
    "t_tasks d \<noteq> [] \<Longrightarrow> sealed d"
  using assms by (auto simp: db_ok_def list_all_iff)

lemma db_ok_empty: "db_ok empty_db"
  by (simp add: db_ok_def keys_ok_def empty_db_def)

lemma task_id_inj: "keys_ok d \<Longrightarrow> s \<in> set (t_tasks d) \<Longrightarrow> t \<in> set (t_tasks d) \<Longrightarrow> st_id s = st_id t \<Longrightarrow> s = t"
  by (auto simp: keys_ok_def distinct_map inj_on_def)

text \<open>An object is held undeferred by at most one task.\<close>

lemma active_unique:
  assumes "db_ok d" "a \<in> set (t_objects d)" "b \<in> set (t_objects d)"
    and "\<not> ob_deferred a" "\<not> ob_deferred b" "ob_oid a = ob_oid b"
  shows "a = b"
proof -
  have "newest d a" "newest d b" using assms db_okD(4) by auto
  then have "\<not> ob_task b < ob_task a" "\<not> ob_task a < ob_task b"
    using assms(2,3,6) by (auto simp: newest_def list_ex_iff)
  then have "ob_task a = ob_task b" by simp
  then show ?thesis
    using assms db_okD(1) [OF assms(1)] by (auto simp: keys_ok_def distinct_map inj_on_def object_key_def)
qed

lemma certifiedD:
  "certified d t \<Longrightarrow> o' \<in> set (t_objects d) \<Longrightarrow> ob_task o' = st_id t \<Longrightarrow> \<not> ob_deferred o' \<Longrightarrow>
     passed d (st_gen t) o'"
  by (auto simp: certified_def objects_of_def list_all_iff)

section \<open>Updates of one table\<close>

named_theorems upd_simps \<open>fields after an update of one table\<close>

lemma update_fields [simp]:
  "t_tasks (update_objects P f d) = t_tasks d" "t_tasks (update_progress now Q g d) = t_tasks d"
  "t_objects (update_tasks R h d) = t_objects d" "t_objects (update_progress now Q g d) = t_objects d"
  "t_progress (update_tasks R h d) = t_progress d" "t_progress (update_objects P f d) = t_progress d"
  "t_scan (update_tasks R h d) = t_scan d" "t_scan (update_objects P f d) = t_scan d"
  "t_scan (update_progress now Q g d) = t_scan d"
  "t_meta (update_tasks R h d) = t_meta d" "t_meta (update_objects P f d) = t_meta d"
  "t_meta (update_progress now Q g d) = t_meta d"
  "next_task (update_tasks R h d) = next_task d" "next_task (update_objects P f d) = next_task d"
  "next_task (update_progress now Q g d) = next_task d"
  by (simp_all add: update_objects_def update_tasks_def update_progress_def)

lemma sealed_update [simp]:
  "sealed (update_tasks R h d) = sealed d" "sealed (update_objects P f d) = sealed d"
  "sealed (update_progress now Q g d) = sealed d"
  by (simp_all add: sealed_def)

lemma progress_of_cong: "t_progress d = t_progress d' \<Longrightarrow> progress_of d oid = progress_of d' oid"
  by (simp add: progress_of_def)

lemma reads_update_tasks [simp]:
  "progress_of (update_tasks R h d) oid = progress_of d oid"
  "progress_of (update_objects P f d) oid = progress_of d oid"
  "objects_of (update_tasks R h d) tid = objects_of d tid"
  "objects_of (update_progress now Q g d) tid = objects_of d tid"
  "newest (update_tasks R h d) = newest d" "newest (update_progress now Q g d) = newest d"
  "passed (update_tasks R h d) = passed d" "passed (update_objects P f d) = passed d"
  by (auto simp: progress_of_def objects_of_def newest_def passed_def fun_eq_iff)

lemma certified_update_tasks [simp]: "certified (update_tasks R h d) = certified d"
  by (simp add: certified_def fun_eq_iff)

lemma task_ok_update_tasks [simp]: "task_ok (update_tasks R h d) = task_ok d"
  by (simp add: task_ok_def fun_eq_iff)

lemma set_update_tasks:
  "set (t_tasks (update_tasks R h d)) = (\<lambda>t. if R t then h t else t) ` set (t_tasks d)"
  by (simp add: update_tasks_def)

lemma set_update_objects:
  "set (t_objects (update_objects P f d)) = (\<lambda>t. if P t then f t else t) ` set (t_objects d)"
  by (simp add: update_objects_def)

lemma length_filter_map_le:
  "(\<And>x. x \<in> set xs \<Longrightarrow> P (f x) \<Longrightarrow> P x) \<Longrightarrow> length (filter P (map f xs)) \<le> length (filter P xs)"
  by (induction xs) (auto simp: le_SucI)

lemma map_map_same:
  "(\<And>x. x \<in> set xs \<Longrightarrow> g (f x) = g x) \<Longrightarrow> map g (map f xs) = map g xs"
  by simp

text \<open>An UPDATE of tasks.\<close>

lemma db_ok_update_tasks:
  assumes "db_ok d"
    and key: "\<And>t. t \<in> set (t_tasks d) \<Longrightarrow> R t \<Longrightarrow> st_id (h t) = st_id t"
    and ok: "\<And>t. t \<in> set (t_tasks d) \<Longrightarrow> R t \<Longrightarrow> task_ok d t \<Longrightarrow> task_ok d (h t)"
    and del: "\<And>t. t \<in> set (t_tasks d) \<Longrightarrow> R t \<Longrightarrow> deleting (h t) \<Longrightarrow> deleting t"
  shows "db_ok (update_tasks R h d)"
proof (rule db_okI)
  let ?u = "\<lambda>t. if R t then h t else t"
  have ids: "map st_id (t_tasks (update_tasks R h d)) = map st_id (t_tasks d)"
    using key by (simp add: update_tasks_def)
  then have "st_id ` set (t_tasks (update_tasks R h d)) = st_id ` set (t_tasks d)"
    by (metis list.set_map)
  moreover have "list_all (\<lambda>t. 0 < st_id t \<and> st_id t < next_task d) (t_tasks (update_tasks R h d))"
    using db_okD(1) [OF assms(1)] key by (auto simp: keys_ok_def list_all_iff set_update_tasks)
  ultimately show "keys_ok (update_tasks R h d)"
    using db_okD(1) [OF assms(1)] ids by (simp add: keys_ok_def)
  show "task_ok (update_tasks R h d) t" if "t \<in> set (t_tasks (update_tasks R h d))" for t
    using that ok db_okD(2) [OF assms(1)] by (auto simp: set_update_tasks)
  have "length (filter deleting (map ?u (t_tasks d))) \<le> length (filter deleting (t_tasks d))"
    by (rule length_filter_map_le) (use del in \<open>auto split: if_splits\<close>)
  then show "length (filter deleting (t_tasks (update_tasks R h d))) \<le> 1"
    using db_okD(3) [OF assms(1)] by (simp add: update_tasks_def)
  show "newest (update_tasks R h d) o'" if "o' \<in> set (t_objects (update_tasks R h d))" "\<not> ob_deferred o'" for o'
    using that db_okD(4) [OF assms(1)] by simp
  show "sealed (update_tasks R h d)" if "t_tasks (update_tasks R h d) \<noteq> []"
    using that db_okD(5) [OF assms(1)] by (cases "t_tasks d") (auto simp: update_tasks_def sealed_def)
qed

text \<open>An UPDATE of members: keys stay, deferred ones stay deferred, and what a done task relies
  on stays passed.\<close>

lemma objects_of_update:
  assumes "\<And>o'. P o' \<Longrightarrow> object_key (f o') = object_key o'"
  shows "objects_of (update_objects P f d) tid = map (\<lambda>o'. if P o' then f o' else o') (objects_of d tid)"
proof -
  have "ob_task (if P x then f x else x) = ob_task x" for x
    using assms [of x] by (auto simp: object_key_def)
  then show ?thesis by (simp add: objects_of_def update_objects_def filter_map o_def)
qed

lemma newest_update_objects:
  assumes "\<And>o'. P o' \<Longrightarrow> object_key (f o') = object_key o'"
  shows "newest (update_objects P f d) (if P o' then f o' else o') = newest d o'"
proof -
  have k: "ob_task (if P x then f x else x) = ob_task x" "ob_oid (if P x then f x else x) = ob_oid x" for x
    using assms [of x] by (auto simp: object_key_def)
  show ?thesis unfolding newest_def update_objects_def by (simp add: list_ex_iff k del: if_image_distrib)
qed

lemma db_ok_update_objects:
  assumes "db_ok d"
    and key: "\<And>o'. P o' \<Longrightarrow> object_key (f o') = object_key o'"
    and keep: "\<And>o'. o' \<in> set (t_objects d) \<Longrightarrow> P o' \<Longrightarrow> \<not> ob_deferred (f o') \<Longrightarrow> \<not> ob_deferred o'"
    and pass: "\<And>o' t. o' \<in> set (t_objects d) \<Longrightarrow> P o' \<Longrightarrow> \<not> ob_deferred (f o') \<Longrightarrow>
      t \<in> set (t_tasks d) \<Longrightarrow> ob_task o' = st_id t \<Longrightarrow> st_done t \<noteq> None \<Longrightarrow>
      passed d (st_gen t) o' \<Longrightarrow> passed d (st_gen t) (f o')"
  shows "db_ok (update_objects P f d)"
proof (rule db_okI)
  let ?u = "\<lambda>o'. if P o' then f o' else o'"
  have k: "object_key (?u x) = object_key x" for x using key by simp
  have keys: "map object_key (t_objects (update_objects P f d)) = map object_key (t_objects d)"
    using key by (simp add: update_objects_def)
  have "list_all (\<lambda>o'. ob_task o' \<in> A \<and> ob_oid o' \<in> B) (t_objects (update_objects P f d)) =
        list_all (\<lambda>o'. ob_task o' \<in> A \<and> ob_oid o' \<in> B) (t_objects d)" for A B
    using k unfolding update_objects_def by (simp add: list_all_iff object_key_def del: if_image_distrib)
  then show "keys_ok (update_objects P f d)"
    using db_okD(1) [OF assms(1)] keys by (simp add: keys_ok_def)
  show "task_ok (update_objects P f d) t" if "t \<in> set (t_tasks (update_objects P f d))" for t
  proof -
    have t: "t \<in> set (t_tasks d)" and ok: "task_ok d t" using that db_okD(2) [OF assms(1)] by auto
    have "certified (update_objects P f d) t" if "certified d t" "st_done t \<noteq> None"
    proof -
      have "\<forall>x\<in>set (objects_of d (st_id t)). ob_deferred (?u x) \<or> passed d (st_gen t) (?u x)"
        using \<open>certified d t\<close> keep pass [of _ t] t \<open>st_done t \<noteq> None\<close>
        by (auto simp: certified_def list_all_iff objects_of_def)
      then show ?thesis
        by (simp add: certified_def objects_of_update [OF key] list_all_iff del: if_image_distrib)
    qed
    then show ?thesis using ok by (auto simp: task_ok_def objects_of_update [OF key])
  qed
  show "length (filter deleting (t_tasks (update_objects P f d))) \<le> 1"
    using db_okD(3) [OF assms(1)] by simp
  show "newest (update_objects P f d) o'"
    if new: "o' \<in> set (t_objects (update_objects P f d))" "\<not> ob_deferred o'" for o'
  proof -
    obtain x where x: "x \<in> set (t_objects d)" "o' = ?u x" using new(1) by (auto simp: set_update_objects)
    then have "\<not> ob_deferred x" using new(2) keep by (auto split: if_splits)
    then show ?thesis using x db_okD(4) [OF assms(1)] newest_update_objects [OF key, where o' = x] by simp
  qed
  show "sealed (update_objects P f d)" if "t_tasks (update_objects P f d) \<noteq> []"
    using that db_okD(5) [OF assms(1)] by simp
qed

text \<open>Writing results: what a done task relies on stays deleted.\<close>

definition relied_on :: "db \<Rightarrow> u64 \<Rightarrow> bool" where
  "relied_on d oid \<longleftrightarrow>
     (\<exists>o'\<in>set (t_objects d). ob_oid o' = oid \<and> \<not> ob_deferred o' \<and>
        (\<exists>t\<in>set (t_tasks d). st_id t = ob_task o' \<and> st_done t \<noteq> None))"

lemma set_progress_fields [simp]:
  "newest (d\<lparr>t_progress := ps\<rparr>) = newest d" "objects_of (d\<lparr>t_progress := ps\<rparr>) = objects_of d"
  "sealed (d\<lparr>t_progress := ps\<rparr>) = sealed d"
  by (auto simp: newest_def objects_of_def sealed_def fun_eq_iff)

lemma db_ok_set_progress:
  assumes "db_ok d" "distinct (map pr_oid ps)"
    and "\<And>p. p \<in> set ps \<Longrightarrow> pr_oid p \<in> sr_oid ` set (t_scan d) \<and> pr_status p \<in> {1, 2}"
    and keep: "\<And>oid. relied_on d oid \<Longrightarrow> has_status 1 (progress_of d oid) \<Longrightarrow>
      has_status 1 (progress_of (d\<lparr>t_progress := ps\<rparr>) oid)"
  shows "db_ok (d\<lparr>t_progress := ps\<rparr>)" (is "db_ok ?d")
proof (rule db_okI)
  show "keys_ok ?d" using db_okD(1) [OF assms(1)] assms(2,3) by (auto simp: keys_ok_def list_all_iff)
  show "task_ok ?d t" if "t \<in> set (t_tasks ?d)" for t
  proof -
    have t: "t \<in> set (t_tasks d)" and ok: "task_ok d t" using that db_okD(2) [OF assms(1)] by auto
    have "passed ?d (st_gen t) o'"
      if "o' \<in> set (t_objects d)" "ob_task o' = st_id t" "\<not> ob_deferred o'" "st_done t \<noteq> None"
        "passed d (st_gen t) o'" for o'
    proof -
      have "relied_on d (ob_oid o')"
        unfolding relied_on_def by (rule bexI [OF _ that(1)], intro conjI bexI [OF _ t]) (use that in auto)
      then show ?thesis using that keep [of "ob_oid o'"] by (simp add: passed_def)
    qed
    then show ?thesis
      using ok by (auto simp: task_ok_def certified_def list_all_iff objects_of_def)
  qed
  show "length (filter deleting (t_tasks ?d)) \<le> 1" using db_okD(3) [OF assms(1)] by simp
  show "newest ?d o'" if "o' \<in> set (t_objects ?d)" "\<not> ob_deferred o'" for o'
    using that db_okD(4) [OF assms(1)] by simp
  show "sealed ?d" if "t_tasks ?d \<noteq> []" using that db_okD(5) [OF assms(1)] by simp
qed

lemma find_map_key:
  "(\<And>x. k (f x) = k x) \<Longrightarrow> find (\<lambda>x. k x = a) (map f xs) = map_option f (find (\<lambda>x. k x = a) xs)"
  by (induction xs) auto

lemma find_in: "find P xs = Some x \<Longrightarrow> x \<in> set xs \<and> P x"
  by (auto simp: find_Some_iff)

lemma progress_of_oid: "progress_of d oid = Some p \<Longrightarrow> p \<in> set (t_progress d) \<and> pr_oid p = oid"
  unfolding progress_of_def by (drule find_in)

lemma touch_simps [simp]:
  "pr_oid (touch now p q) = pr_oid q" "pr_status (touch now p q) = pr_status q"
  "pr_keys (touch now p q) = pr_keys q" "pr_bytes (touch now p q) = pr_bytes q"
  by (auto simp: touch_def)

lemma has_status_simps [simp]:
  "has_status n None = False" "has_status n (Some p) \<longleftrightarrow> pr_status p = n"
  by (simp_all add: has_status_def)

lemma progress_of_update:
  assumes "\<And>p. Q p \<Longrightarrow> pr_oid (g p) = pr_oid p"
  shows "progress_of (update_progress now Q g d) oid =
    map_option (\<lambda>p. if Q p then touch now p (g p) else p) (progress_of d oid)"
  unfolding progress_of_def update_progress_def using assms by (simp add: find_map_key)

lemma db_ok_update_progress:
  assumes "db_ok d" and key: "\<And>p. Q p \<Longrightarrow> pr_oid (g p) = pr_oid p"
    and status: "\<And>p. Q p \<Longrightarrow> pr_status (g p) \<in> {1, 2}"
    and keep: "\<And>p. Q p \<Longrightarrow> pr_status (g p) = 1 \<or> \<not> relied_on d (pr_oid p)"
  shows "db_ok (update_progress now Q g d)"
proof -
  let ?u = "\<lambda>p. if Q p then touch now p (g p) else p"
  have "pr_oid (?u p) = pr_oid p" for p using key by simp
  then have "distinct (map pr_oid (map ?u (t_progress d)))"
    using db_okD(1) [OF assms(1)] by (simp only: keys_ok_def map_map o_def)
  moreover have "pr_oid p \<in> sr_oid ` set (t_scan d) \<and> pr_status p \<in> {1, 2}"
    if mem: "p \<in> set (map ?u (t_progress d))" for p
  proof -
    obtain x where "x \<in> set (t_progress d)" "p = ?u x"
      using mem by (simp only: set_map image_iff) blast
    then show ?thesis using db_okD(1) [OF assms(1)] key status [of x] by (auto simp: keys_ok_def list_all_iff)
  qed
  moreover have "has_status 1 (progress_of (update_progress now Q g d) oid)"
    if "relied_on d oid" "has_status 1 (progress_of d oid)" for oid
    using that keep
    by (cases "progress_of d oid") (auto simp: progress_of_update [OF key] dest!: progress_of_oid)
  ultimately show ?thesis
    using db_ok_set_progress [OF assms(1)] unfolding update_progress_def by blast
qed


lemma credit_fields [simp]:
  assumes "credit keys bytes p = Some q"
  shows "pr_oid q = pr_oid p" "pr_status q = pr_status p" "pr_role q = pr_role p"
    "pr_expected q = pr_expected p"
  using assms by (auto simp: credit_def split: if_splits)

lemma progress_of_none: "progress_of d oid = None \<longleftrightarrow> oid \<notin> pr_oid ` set (t_progress d)"
  by (auto simp: progress_of_def find_None_iff)

lemma find_append: "find P (xs @ ys) = (case find P xs of None \<Rightarrow> find P ys | Some x \<Rightarrow> Some x)"
  by (induction xs) auto

lemma db_ok_upsert:
  assumes "db_ok d" "oid \<in> sr_oid ` set (t_scan d)"
    and oids: "\<And>p. pr_oid (new p) = pr_oid p" "\<And>p. pr_oid (old p) = pr_oid p"
    and status: "\<And>p. pr_status (new p) \<in> {1, 2}" "\<And>p. pr_status (old p) \<in> {1, 2}"
    and keep: "\<And>p. pr_status (old p) = 1 \<or> \<not> relied_on d oid"
    and run: "upsert oid keys bytes new old now d = Inr (x, d')"
  shows "db_ok d'"
proof (cases "progress_of d oid")
  case None
  then obtain p where p: "credit keys bytes (fresh_progress oid now) = Some p"
    and d': "d' = d\<lparr>t_progress := t_progress d @ [new p]\<rparr>"
    using run by (auto simp: upsert_def split: option.splits)
  have oid: "pr_oid (new p) = oid" using p oids by (simp add: fresh_progress_def)
  show ?thesis unfolding d'
  proof (rule db_ok_set_progress [OF assms(1)])
    show "distinct (map pr_oid (t_progress d @ [new p]))"
      using db_okD(1) [OF assms(1)] None oid by (auto simp: keys_ok_def progress_of_none)
    show "pr_oid q \<in> sr_oid ` set (t_scan d) \<and> pr_status q \<in> {1, 2}"
      if "q \<in> set (t_progress d @ [new p])" for q
      using that db_okD(1) [OF assms(1)] oid assms(2) status(1) [of p] by (auto simp: keys_ok_def list_all_iff)
    show "has_status 1 (progress_of (d\<lparr>t_progress := t_progress d @ [new p]\<rparr>) a)"
      if "has_status 1 (progress_of d a)" for a
      using that by (auto simp: progress_of_def find_append has_status_def split: option.splits)
  qed
next
  case (Some r)
  then obtain p where p: "credit keys bytes r = Some p"
    and d': "d' = update_progress now (\<lambda>q. pr_oid q = oid) (\<lambda>_. old p) d"
    using run by (auto simp: upsert_def split: option.splits)
  have "pr_oid (old p) = oid" using p oids progress_of_oid [OF Some] by simp
  then show ?thesis
    unfolding d' by (intro db_ok_update_progress [OF assms(1)]) (use status(2) [of p] keep [of p] in auto)
qed

end
