(* ===== verification/Preservation.thy ===== *)
theory Preservation
  imports Lifecycle
begin

text \<open>
  Every operation of \<^verbatim>\<open>internal/progress\<close> keeps the invariant of \<open>Lifecycle\<close>, on success, on
  every error and when the reply to a statement is lost. Three operations need their caller's
  discipline: writing a result or a verdict is only allowed on a task that is not done.
\<close>

section \<open>Tools\<close>

lemma keeps_statements:
  assumes "\<And>n. keeps (\<lambda>d. I d \<and> next_task d = n) body"
  shows "keeps I (transaction c body)"
proof (rule dbh_transaction [where R = "\<lambda>d0 _ d. I d \<and> next_task d = next_task d0"
        and F = "\<lambda>d0 _ d. I d \<and> next_task d = next_task d0"])
  fix d0 assume "I d0"
  then show "dbh (\<lambda>d. d = d0) body (\<lambda>_ d. I d \<and> next_task d = next_task d0)
      (\<lambda>_ d. I d \<and> next_task d = next_task d0)"
    by (intro dbh_pre [OF assms [of "next_task d0"]]) auto
next
  fix d0 d :: db assume "I d0" "I d \<and> next_task d = next_task d0"
  then have "d0\<lparr>next_task := next_task d\<rparr> = d0" by simp
  with \<open>I d0\<close> show "I (d0\<lparr>next_task := next_task d\<rparr>)" by simp
  then show "I (d0\<lparr>next_task := next_task d\<rparr>)" .
qed auto

lemma db_ok_add_event [simp]: "db_ok (add_event tid oid action reason d) = db_ok d"
proof -
  let ?d = "add_event tid oid action reason d"
  have fields: "t_tasks ?d = t_tasks d" "t_objects ?d = t_objects d" "t_scan ?d = t_scan d"
    "t_progress ?d = t_progress d" "t_meta ?d = t_meta d" "next_task ?d = next_task d"
    by (simp_all add: add_event_def)
  then show ?thesis
    by (simp add: db_ok_def keys_ok_def task_ok_def certified_def objects_of_def passed_def
        progress_of_def newest_def sealed_def cong: list.pred_cong)
qed

lemma next_task_add_event [simp]: "next_task (add_event tid oid action reason d) = next_task d"
  by (simp add: add_event_def)

text \<open>Changes of a task that nothing relies on.\<close>

lemma task_ok_trivial [simp]:
  "task_ok d (t\<lparr>st_conn := x\<rparr>) = task_ok d t"
  "task_ok d t \<Longrightarrow> task_ok d (t\<lparr>st_hold := [], st_hold_oid := y\<rparr>)"
  by (auto simp: task_ok_def certified_def)

lemma deleting_trivial [simp]:
  "deleting (t\<lparr>st_conn := x\<rparr>) = deleting t" "deleting (t\<lparr>st_hold := h, st_hold_oid := y\<rparr>) = deleting t"
  by (auto simp: deleting_def)

lemma coalesce_None [simp]: "coalesce x y = None \<longleftrightarrow> x = None \<and> y = None"
  by (auto simp: coalesce_def split: option.splits)

lemma db_ok_lift_hold: "db_ok d \<Longrightarrow> db_ok (lift_hold tid d)"
  unfolding lift_hold_def by (rule db_ok_update_tasks) simp_all

lemma next_task_lift_hold [simp]: "next_task (lift_hold tid d) = next_task d"
  by (simp add: lift_hold_def)

section \<open>Queries\<close>

lemma keeps_reads [keeps_rules]:
  "keeps I (read_task c)" "keeps I (subtask_row c tid)" "keeps I (sub_counts c tid)"
  "keeps I (check_manifest H c s)" "keeps I (require_no_hold c)" "keeps I (require_complete_scan c)"
  "keeps I (check_member c tid oid)" "keeps I (resolve_subtask c tid)" "keeps I (resolve_current c tid)"
  unfolding read_task_def subtask_row_def sub_counts_def check_manifest_def require_no_hold_def
    require_complete_scan_def check_member_def resolve_subtask_def resolve_current_def
  by (intro keeps_rules)+

lemma keeps_resolve [keeps_rules]:
  "keeps I (resolve_purge c tid)" "keeps I (resolve_verify c tid)" "keeps I (resolve_admin c tid)"
  unfolding resolve_purge_def resolve_verify_def resolve_admin_def
  by (intro keeps_rules)+

section \<open>Simple operations\<close>

lemma hold_ok: "keeps db_ok (hold c tid oid reason)"
  unfolding hold_def
  by (intro keeps_rules keeps_update)
    (auto intro!: db_ok_update_tasks simp: task_ok_def certified_def)

lemma complete_purge_ok: "keeps db_ok (complete_purge c s)"
  unfolding complete_purge_def
  by (intro keeps_rules keeps_update)
    (auto intro!: db_ok_update_tasks simp: task_ok_def certified_def deleting_def)

lemma begin_verify_ok: "keeps db_ok (begin_verify H c s restart)"
  unfolding begin_verify_def Let_def
  by (intro keeps_rules keeps_update)
    (auto intro!: db_ok_update_tasks simp: task_ok_def certified_def deleting_def)

lemma resume_safety_ok: "keeps db_ok (resume_safety c s reason)"
  unfolding resume_safety_def
  by (intro keeps_rules keeps_statements keeps_update) (auto simp: db_ok_lift_hold)

lemma ensure_schema_ok: "keeps db_ok (ensure_schema sc c)"
  unfolding ensure_schema_def create_table_def add_column_def
  by (intro keeps_rules keeps_update)
    (auto intro!: db_ok_update_tasks simp: forget_owners_def recover_purged_def recoverable_def
      task_ok_def certified_def deleting_def)

lemma defer_object_ok: "keeps db_ok (defer_object c s oid reason)"
  unfolding defer_object_def defer_tx_def
  by (intro keeps_rules keeps_statements keeps_update complete_purge_ok)
    (auto intro!: db_ok_update_objects simp: db_ok_lift_hold defer_rows_def object_key_def)

section \<open>Verification\<close>

lemma count_cover:
  assumes "count_if P xs + count_if Q xs = length xs" "\<And>x. x \<in> set xs \<Longrightarrow> \<not> (P x \<and> Q x)"
  shows "\<forall>x\<in>set xs. P x \<or> Q x"
proof -
  have "count_if (\<lambda>x. P x \<or> Q x) xs = count_if P xs + count_if Q xs"
    using assms(2) by (induction xs) (auto simp: count_if_def)
  then have len: "length (filter (\<lambda>x. P x \<or> Q x) xs) = length xs" using assms(1) by (simp add: count_if_def)
  show ?thesis
  proof
    fix x assume "x \<in> set xs"
    then show "P x \<or> Q x" using len length_filter_less [of x xs "\<lambda>x. P x \<or> Q x"] by fastforce
  qed
qed

lemma find_task: "keys_ok d \<Longrightarrow> t \<in> set (t_tasks d) \<Longrightarrow> find (\<lambda>s. st_id s = st_id t) (t_tasks d) = Some t"
  by (cases "find (\<lambda>s. st_id s = st_id t) (t_tasks d)")
    (auto simp: find_None_iff dest: find_in task_id_inj)

lemma counts_certified:
  assumes "keys_ok d" "t \<in> set (t_tasks d)" "read_counts d (st_id t) = Inr n"
    and "c_pending n + c_failed n = 0" "c_verified n + c_deferred n = c_total n"
  shows "certified d t"
proof -
  let ?rows = "objects_of d (st_id t)"
  have n: "c_total n = length ?rows" "c_deferred n = count_if ob_deferred ?rows"
    "c_verified n = count_if (current_verdict t ''PASS'') ?rows"
    "c_pending n = count_if (\<lambda>o'. \<not> ob_deferred o' \<and> \<not> has_status 1 (progress_of d (ob_oid o')) \<and>
       \<not> has_status 2 (progress_of d (ob_oid o'))) ?rows"
    "c_failed n = count_if (\<lambda>o'. \<not> ob_deferred o' \<and> has_status 2 (progress_of d (ob_oid o'))) ?rows"
    using assms(1-3) by (auto simp: read_counts_def find_task Let_def split: if_splits)
  have "\<forall>o'\<in>set ?rows. current_verdict t ''PASS'' o' \<or> ob_deferred o'"
  proof (rule count_cover)
    show "count_if (current_verdict t ''PASS'') ?rows + count_if ob_deferred ?rows = length ?rows"
      using n(1-3) assms(5) by simp
  qed (simp add: current_verdict_def)
  moreover have "\<forall>o'\<in>set ?rows. ob_deferred o' \<or> has_status 1 (progress_of d (ob_oid o'))"
    using n assms(4) by (auto simp: count_if_def filter_empty_conv)
  ultimately show ?thesis
    by (auto simp: certified_def list_all_iff passed_def current_verdict_def)
qed

text \<open>Completing a verification: the counts decide, and nothing changes between them and the
  update of the task.\<close>

lemma complete_verify_ok: "keeps db_ok (complete_verify c s)"
proof -
  let ?sure = "\<lambda>n d. db_ok d \<and> read_counts d (st_id s) = Inr n"
  let ?guard = "\<lambda>n. c_pending n + c_failed n = 0 \<and> c_verified n + c_deferred n = c_total n"
  have counts: "dbh db_ok (sub_counts c (st_id s)) ?sure (\<lambda>_. db_ok)"
    unfolding sub_counts_def by (rule dbh_query) auto
  have guard: "dbh (?sure n) (failIf (c_total n \<noteq> st_objects s \<or> c_pending n + c_failed n > 0 \<or>
       c_verified n + c_deferred n \<noteq> c_total n) e) (\<lambda>_ d. ?sure n d \<and> ?guard n) (\<lambda>_. db_ok)" for n e
    by (rule dbh_failIf) auto
  have mark: "dbh (\<lambda>d. ?sure n d \<and> ?guard n) (exec c (\<lambda>now. update_tasks
       (\<lambda>t. st_id t = st_id s \<and> st_hold t = [] \<and> st_phase t = ''VERIFY'' \<and> st_gen t = st_gen s)
       (\<lambda>t. t\<lparr>st_done := Some now\<rparr>))) (\<lambda>_. db_ok) (\<lambda>_. db_ok)" for n
  proof -
    have "db_ok (update_tasks
       (\<lambda>t. st_id t = st_id s \<and> st_hold t = [] \<and> st_phase t = ''VERIFY'' \<and> st_gen t = st_gen s)
       (\<lambda>t. t\<lparr>st_done := Some now\<rparr>) d)" if sure: "?sure n d \<and> ?guard n" for d now
    proof (rule db_ok_update_tasks)
      fix t assume t: "t \<in> set (t_tasks d)" "task_ok d t"
        and here: "st_id t = st_id s \<and> st_hold t = [] \<and> st_phase t = ''VERIFY'' \<and> st_gen t = st_gen s"
      have "certified d t"
        by (rule counts_certified [OF _ t(1), of n]) (use sure here db_okD(1) in auto)
      then show "task_ok d (t\<lparr>st_done := Some now\<rparr>)" using t here by (auto simp: task_ok_def certified_def)
    qed (use sure in \<open>auto simp: deleting_def\<close>)
    then show ?thesis by (intro dbh_update) auto
  qed
  show ?thesis
    unfolding complete_verify_def
    by (rule keeps_bind [OF keeps_check_lock], rule dbh_bind [OF counts], rule dbh_bind [OF guard],
        rule dbh_bind [OF mark]) (intro keeps_rules)
qed

text \<open>A verdict on a member of a task that is not done.\<close>

definition open_task :: "u64 \<Rightarrow> db \<Rightarrow> bool" where
  "open_task tid d \<longleftrightarrow> list_all (\<lambda>t. st_id t = tid \<longrightarrow> st_done t = None) (t_tasks d)"

lemma open_task_updates [simp]:
  "open_task tid (update_objects P f d) = open_task tid d"
  "open_task tid (update_progress now Q g d) = open_task tid d"
  by (simp_all add: open_task_def)

lemma record_verify_ok:
  "keeps (\<lambda>d. db_ok d \<and> open_task (st_id s) d) (record_verify c s oid status detail)"
  unfolding record_verify_def
  by (intro keeps_rules keeps_update)
    (auto intro!: db_ok_update_objects simp: object_key_def open_task_def list_all_iff)

section \<open>Results of a deletion run\<close>

lemma relied_on_open:
  assumes "db_ok d" "open_task tid d" "list_ex (active_member tid oid) (t_objects d)"
  shows "\<not> relied_on d oid"
proof
  assume "relied_on d oid"
  then obtain a t where a: "a \<in> set (t_objects d)" "ob_oid a = oid" "\<not> ob_deferred a"
    and t: "t \<in> set (t_tasks d)" "st_id t = ob_task a" "st_done t \<noteq> None" by (auto simp: relied_on_def)
  obtain b where "b \<in> set (t_objects d)" "ob_task b = tid" "ob_oid b = oid" "\<not> ob_deferred b"
    using assms(3) by (auto simp: list_ex_iff active_member_def)
  then have "ob_task a = tid" using active_unique [OF assms(1) a(1)] a by auto
  then show False using t assms(2) by (auto simp: open_task_def list_all_iff)
qed

lemma active_listed:
  assumes "db_ok d" "list_ex (active_member tid oid) (t_objects d)"
  shows "oid \<in> sr_oid ` set (t_scan d)"
  using db_okD(1) [OF assms(1)] assms(2) by (auto simp: keys_ok_def list_all_iff list_ex_iff active_member_def)

lemma upsert_fields:
  assumes "upsert oid keys bytes new old now d = Inr (x, d')"
  shows "t_tasks d' = t_tasks d" "t_objects d' = t_objects d" "next_task d' = next_task d"
  using assms by (auto simp: upsert_def update_progress_def split: option.splits)

lemma member_query_ok:
  "dbh P (query c (member_query tid oid))
     (\<lambda>_ d. P d \<and> list_ex (active_member tid oid) (t_objects d)) (\<lambda>_. P)"
  by (rule dbh_query) (auto simp: member_query_def split: if_splits)

lemma done_stmt_ok:
  assumes "db_ok d" "list_ex (active_member tid oid) (t_objects d)"
    and run: "done_stmt oid keys bytes role expected now d = Inr (x, d')"
  shows "db_ok d'"
  by (rule db_ok_upsert [OF assms(1) active_listed [OF assms(1,2)] _ _ _ _ _ run [unfolded done_stmt_def]])
    simp_all

lemma fail_stmt_ok:
  assumes "db_ok d" "open_task tid d" "list_ex (active_member tid oid) (t_objects d)"
    and run: "upsert oid keys bytes m m now d = Inr (x, d')"
    and m: "\<And>p. pr_oid (m p) = pr_oid p" "\<And>p. pr_status (m p) = 2"
  shows "db_ok d'"
  by (rule db_ok_upsert [OF assms(1) active_listed [OF assms(1,3)] _ _ _ _ _ run])
    (simp_all add: m relied_on_open [OF assms(1-3)])

lemma done_subtask_ok:
  "keeps (\<lambda>d. db_ok d \<and> open_task tid d) (done_subtask c tid oid keys bytes role expected)"
proof -
  let ?I = "\<lambda>n d. (db_ok d \<and> open_task tid d) \<and> next_task d = (n :: u64)"
  let ?J = "\<lambda>n d. ?I n d \<and> list_ex (active_member tid oid) (t_objects d)"
  have stmt: "dbh (?J n) (update c (done_stmt oid keys bytes role expected)) (\<lambda>_. ?I n) (\<lambda>_. ?I n)" for n
  proof -
    have "?I n d'" if J: "?J n d" and run: "done_stmt oid keys bytes role expected now d = Inr (x, d')"
      for d now x d'
    proof (intro conjI)
      note f = upsert_fields [OF run [unfolded done_stmt_def]]
      show "db_ok d'" by (rule done_stmt_ok [OF _ _ run]) (use J in auto)
      show "open_task tid d'" "next_task d' = n" using J f by (simp_all add: open_task_def)
    qed
    then show ?thesis by (intro dbh_update) blast+
  qed
  have reset: "keeps (?I n) (exec c (\<lambda>now. update_objects (\<lambda>o'. ob_task o' = tid \<and> ob_oid o' = oid)
         (\<lambda>o'. o'\<lparr>ob_gen := 0, ob_status := ''PENDING'', ob_detail := [], ob_verified_at := None\<rparr>)))" for n
    by (rule keeps_update)
      (auto intro!: db_ok_update_objects simp: object_key_def open_task_def list_all_iff)
  show ?thesis
    unfolding done_subtask_def
    by (rule keeps_bind [OF keeps_check_lock], rule keeps_statements, rule dbh_bind [OF member_query_ok],
        rule dbh_bind [OF stmt], rule reset)
qed

text \<open>\<^verbatim>\<open>progressAdapter.Fail\<close> of \<^verbatim>\<open>cmd/limewire-purge/main.go\<close>: only for an active member.\<close>

definition fail_subtask :: "ctx \<Rightarrow> u64 \<Rightarrow> u64 \<Rightarrow> u64 \<Rightarrow> u64 \<Rightarrow> string \<Rightarrow> (world, unit) act" where
  "fail_subtask c tid oid keys bytes reason =
     bindA (check_member c tid oid) (\<lambda>_. fail_object c oid keys bytes reason)"

lemma fail_subtask_ok:
  "keeps (\<lambda>d. db_ok d \<and> open_task tid d) (fail_subtask c tid oid keys bytes reason)"
proof -
  let ?I = "\<lambda>d. db_ok d \<and> open_task tid d"
  let ?J = "\<lambda>d. ?I d \<and> list_ex (active_member tid oid) (t_objects d)"
  have check: "dbh ?I (check_member c tid oid) (\<lambda>_. ?J) (\<lambda>_. ?I)"
    unfolding check_member_def by (rule dbh_bind [OF keeps_check_lock member_query_ok])
  have "?I d'" if J: "?J d" and run: "upsert oid keys bytes m m now d = Inr (x, d')"
    and m: "m = (\<lambda>p. p\<lparr>pr_status := 2, pr_reason := Some why\<rparr>)" for d now x d' m why
  proof
    show "db_ok d'" by (rule fail_stmt_ok [OF _ _ _ run, of tid]) (use J m in auto)
    show "open_task tid d'" using J upsert_fields [OF run] by (simp add: open_task_def)
  qed
  then have "dbh ?J (fail_object c oid keys bytes reason) (\<lambda>_. ?I) (\<lambda>_. ?I)"
    unfolding fail_object_def Let_def by (intro dbh_update) blast+
  then show ?thesis unfolding fail_subtask_def by (rule dbh_bind [OF check])
qed

section \<open>Starting a deletion run\<close>

lemma residue_not_relied:
  assumes "db_ok d" "o' \<in> set (t_objects d)" "\<not> ob_deferred o'" "ob_status o' \<noteq> ''PASS''"
  shows "\<not> relied_on d (ob_oid o')"
proof
  assume "relied_on d (ob_oid o')"
  then obtain a t where a: "a \<in> set (t_objects d)" "ob_oid a = ob_oid o'" "\<not> ob_deferred a"
    and t: "t \<in> set (t_tasks d)" "ob_task a = st_id t" "st_done t \<noteq> None" by (auto simp: relied_on_def)
  have "a = o'" by (rule active_unique [OF assms(1) a(1) assms(2) a(3) assms(3) a(2)])
  moreover have "passed d (st_gen t) a"
    using db_okD(2) [OF assms(1) t(1)] t certifiedD [OF _ a(1) t(2) a(3)] by (auto simp: task_ok_def)
  ultimately show False using assms(4) by (simp add: passed_def)
qed

lemma open_task_update_tasks:
  assumes "open_task tid d" "\<And>t. R t \<Longrightarrow> st_id (h t) = st_id t"
    and "\<And>t. R t \<Longrightarrow> st_done t = None \<Longrightarrow> st_done (h t) = None"
  shows "open_task tid (update_tasks R h d)"
  using assms by (auto simp: open_task_def list_all_iff set_update_tasks)

lemma begin_purge_ok:
  "keeps (\<lambda>d. db_ok d \<and> open_task tid d) (begin_purge H c s)"
proof -
  let ?I = "\<lambda>n d. (db_ok d \<and> open_task tid d) \<and> next_task d = (n :: u64)"
  have marks: "keeps (?I n) (exec c (\<lambda>now d. update_progress now
         (\<lambda>p. list_ex (\<lambda>o'. ob_oid o' = pr_oid p \<and> ob_task o' = st_id s \<and> \<not> ob_deferred o' \<and>
                        ob_status o' = ''RESIDUE'') (t_objects d))
         (\<lambda>p. p\<lparr>pr_status := 2, pr_reason := Some ''verify found residue''\<rparr>) d))" for n
  proof (rule keeps_update)
    fix now d x d' assume I: "?I n d" and run: "Inr ((), update_progress now
         (\<lambda>p. list_ex (\<lambda>o'. ob_oid o' = pr_oid p \<and> ob_task o' = st_id s \<and> \<not> ob_deferred o' \<and>
                        ob_status o' = ''RESIDUE'') (t_objects d))
         (\<lambda>p. p\<lparr>pr_status := 2, pr_reason := Some ''verify found residue''\<rparr>) d) = Inr (x, d')"
    have "db_ok d'"
      using run by (auto intro!: db_ok_update_progress [OF conjunct1 [OF conjunct1 [OF I]]]
          simp: list_ex_iff dest!: residue_not_relied [OF conjunct1 [OF conjunct1 [OF I]]])
    then show "?I n d'" using I run by auto
  qed
  have start: "keeps (?I n) (update c (\<lambda>now d.
         let here = (\<lambda>t. st_id t = st_id s \<and> st_done t = None \<and> st_hold t = []) in
         if list_ex (\<lambda>t. here t \<and> st_gen t = max_u64) (t_tasks d) then Inl OutOfRange
         else Inr ((), update_tasks here
           (\<lambda>t. t\<lparr>st_phase := ''PURGE'', st_gen := st_gen t + 1, st_conn := Some cid\<rparr>) d)))" for n cid
    by (rule keeps_update)
      (auto simp: Let_def task_ok_def certified_def deleting_def split: if_splits
        intro!: db_ok_update_tasks open_task_update_tasks)
  show ?thesis
    unfolding begin_purge_def
    by (intro keeps_rules keeps_statements marks start)
qed

lemma hold_open: "keeps (open_task k) (hold c tid oid reason)"
  unfolding hold_def by (intro keeps_rules keeps_update) (auto intro!: open_task_update_tasks)

lemma complete_purge_open: "keeps (open_task k) (complete_purge c s)"
  unfolding complete_purge_def by (intro keeps_rules keeps_update) (auto intro!: open_task_update_tasks)

lemma keeps_conj: "keeps I m \<Longrightarrow> keeps J m \<Longrightarrow> keeps (\<lambda>d. I d \<and> J d) m"
  by (rule dbhI) (auto dest: dbhD_ok dbhD_err)

section \<open>The scan and the binding\<close>

lemma db_ok_meta:
  assumes "db_ok d" "t_tasks d \<noteq> [] \<Longrightarrow> scan_status_of m = ScanComplete"
  shows "db_ok (d\<lparr>t_meta := m\<rparr>)"
proof -
  let ?d = "d\<lparr>t_meta := m\<rparr>"
  have "keys_ok ?d = keys_ok d" by (simp add: keys_ok_def)
  moreover have "task_ok ?d = task_ok d" "newest ?d = newest d"
    by (simp_all add: fun_eq_iff task_ok_def certified_def passed_def progress_of_def objects_of_def newest_def)
  ultimately show ?thesis using assms by (simp add: db_ok_def sealed_def)
qed

lemma db_ok_scan:
  assumes "db_ok d" "distinct (map sr_oid rows)" "sr_oid ` set (t_scan d) \<subseteq> sr_oid ` set rows"
  shows "db_ok (d\<lparr>t_scan := rows\<rparr>)"
proof -
  let ?d = "d\<lparr>t_scan := rows\<rparr>"
  have "keys_ok ?d" using db_okD(1) [OF assms(1)] assms(2,3) by (auto simp: keys_ok_def list_all_iff)
  moreover have "task_ok ?d = task_ok d" "newest ?d = newest d"
    by (simp_all add: fun_eq_iff task_ok_def certified_def passed_def progress_of_def objects_of_def newest_def)
  ultimately show ?thesis using assms(1) by (simp add: db_ok_def sealed_def)
qed

lemma insert_scan_ok: "keeps db_ok (insert_scan c rows)"
proof -
  have "db_ok (d\<lparr>t_scan := insert_ignore (t_scan d) rows\<rparr>)" if "db_ok d" for d
    using that db_okD(1) [OF that]
    by (intro db_ok_scan) (auto simp: keys_ok_def insert_ignore_distinct insert_ignore_oids)
  then show ?thesis
    unfolding insert_scan_def by (intro keeps_rules keeps_update) auto
qed

lemma begin_scan_ok: "keeps db_ok (begin_scan c n)"
proof (rule dbhI)
  fix w e v assume ok: "db_ok (w_db w)" and run: "begin_scan c n w = (Inl e, v)"
  show "db_ok (w_db v)" using dbhD_err [OF begin_scan_spec refl run] ok by (auto intro: db_ok_meta)
next
  fix w x v assume ok: "db_ok (w_db w)" and run: "begin_scan c n w = (Inr x, v)"
  show "db_ok (w_db v)" using dbhD_ok [OF begin_scan_spec refl run] ok by (auto intro: db_ok_meta)
qed

lemma db_ok_complete:
  "db_ok d \<Longrightarrow> db_ok (d\<lparr>t_meta := map_option (\<lambda>m. m\<lparr>m_status := ScanComplete,
     m_rows := Some rows, m_finished := Some now\<rparr>) (t_meta d)\<rparr>)"
  using db_okD(5) [of d] by (intro db_ok_meta) (auto simp: sealed_def scan_status_of_def ScanComplete_def
      split: option.splits)

lemma finish_scan_ok: "keeps db_ok (finish_scan c rows)"
  unfolding finish_scan_def by (intro keeps_rules keeps_update) (auto intro: db_ok_complete)

lemma db_ok_insert_meta: "db_ok d \<Longrightarrow> db_ok (insert_meta b d)"
  using db_okD(5) [of d]
  by (cases "t_meta d") (auto simp: insert_meta_def sealed_def scan_status_of_def ScanComplete_def intro: db_ok_meta)

lemma bind_task_ok: "keeps db_ok (bind_task c b)"
  unfolding bind_task_def check_binding_def
  by (intro keeps_rules keeps_update) (auto intro: db_ok_insert_meta simp: Let_def intro!: keeps_rules)

end
