(* ===== verification/Allocation.thy ===== *)
theory Allocation
  imports Preservation
begin

text \<open>
  Allocation keeps the invariant. A new task takes unassigned objects, or objects whose newest
  membership is deferred, so that no object gets a second undeferred holder; it is only created
  when no task is in its first deletion pass.
\<close>

section \<open>Fresh task numbers\<close>

lemma word_less_succ: "(x :: u64) \<noteq> max_u64 \<Longrightarrow> x < x + 1"
proof -
  assume "x \<noteq> max_u64"
  then have "1 + x \<noteq> 0" by (metis add.commute add_eq_0_iff2 minus_equation_iff)
  then have "unat (x + 1) = Suc (unat x)" by (metis add.commute unatSuc)
  then show ?thesis by (simp add: word_less_nat_alt)
qed

lemma word_le_succ [simp]: "(x :: u64) \<noteq> max_u64 \<Longrightarrow> x \<le> x + 1"
  using word_less_succ [of x] by simp

lemma db_ok_next: "db_ok d \<Longrightarrow> next_task d \<le> n \<Longrightarrow> db_ok (d\<lparr>next_task := n\<rparr>)"
proof -
  assume d: "db_ok d" and n: "next_task d \<le> n"
  let ?d = "d\<lparr>next_task := n\<rparr>"
  have "keys_ok ?d" using db_okD(1) [OF d] n by (auto simp: keys_ok_def list_all_iff)
  moreover have "task_ok ?d = task_ok d" "newest ?d = newest d"
    by (simp_all add: fun_eq_iff task_ok_def certified_def passed_def progress_of_def objects_of_def newest_def)
  ultimately show ?thesis using d by (simp add: db_ok_def sealed_def)
qed

section \<open>The state during an allocation\<close>

definition alloc_state :: "u64 \<Rightarrow> db \<Rightarrow> u64 list \<Rightarrow> db \<Rightarrow> bool" where
  "alloc_state tid d0 oids d \<longleftrightarrow>
     t_tasks d = t_tasks d0 \<and> t_scan d = t_scan d0 \<and> t_meta d = t_meta d0 \<and> t_events d = t_events d0 \<and>
     next_task d = next_task d0 \<and> t_objects d = t_objects d0 @ map (new_object tid) oids \<and>
     map pr_oid (t_progress d) = map pr_oid (t_progress d0) \<and>
     list_all (\<lambda>p. pr_status p \<in> {1, 2}) (t_progress d) \<and>
     (\<forall>oid. oid \<notin> set oids \<longrightarrow> progress_of d oid = progress_of d0 oid)"

lemma alloc_state_start:
  "list_all (\<lambda>p. pr_status p \<in> {1, 2}) (t_progress d) \<Longrightarrow> alloc_state tid d [] d"
  by (simp add: alloc_state_def)

lemma alloc_state_object:
  assumes "alloc_state tid d0 oids d" "insert_object tid oid d = Inr (x, d')"
  shows "alloc_state tid d0 (oids @ [oid]) d'"
proof -
  have d': "d' = d\<lparr>t_objects := t_objects d @ [new_object tid oid]\<rparr>"
    using assms(2) by (auto simp: insert_object_def split: if_splits)
  have "progress_of d' = progress_of d" by (simp add: d' progress_of_def fun_eq_iff)
  then show ?thesis using assms(1) by (simp add: alloc_state_def d')
qed

lemma alloc_state_mark:
  assumes "alloc_state tid d0 oids d" "oid \<in> set oids"
  shows "alloc_state tid d0 oids (update_progress now (\<lambda>p. pr_oid p = oid)
     (\<lambda>p. p\<lparr>pr_status := 2, pr_reason := why\<rparr>) d)" (is "alloc_state _ _ _ ?d")
proof -
  have "map pr_oid (t_progress ?d) = map pr_oid (t_progress d)"
    by (simp add: update_progress_def)
  moreover have "list_all (\<lambda>p. pr_status p \<in> {1, 2}) (t_progress ?d)"
    using assms(1) by (auto simp: alloc_state_def update_progress_def list_all_iff)
  moreover have "progress_of ?d a = progress_of d a" if "a \<notin> set oids" for a
    using that assms(2)
    by (cases "progress_of d a") (auto simp: progress_of_update dest!: progress_of_oid)
  moreover have "t_events ?d = t_events d" by (simp add: update_progress_def)
  ultimately show ?thesis using assms(1) unfolding alloc_state_def by simp
qed

lemma alloc_state_next: "alloc_state tid d0 oids d \<Longrightarrow> next_task d = next_task d0"
  by (simp add: alloc_state_def)

lemma allocate_objects:
  "dbh (alloc_state tid d0 oids) (forA rows (allocate_object c tid retry))
     (\<lambda>_. alloc_state tid d0 (oids @ map sr_oid rows)) (\<lambda>_ d. next_task d = next_task d0)"
proof (induction rows arbitrary: oids)
  case Nil
  then show ?case by (simp add: dbh_ret)
next
  case (Cons r rows)
  let ?S = "alloc_state tid d0 (oids @ [sr_oid r])" and ?E = "\<lambda>_ d. next_task d = next_task d0"
  have ins: "dbh (alloc_state tid d0 oids) (update c (\<lambda>now. insert_object tid (sr_oid r))) (\<lambda>_. ?S) ?E"
    by (rule dbh_update) (auto intro: alloc_state_object dest: alloc_state_object alloc_state_next)
  have mark: "dbh ?S (exec c (\<lambda>now. update_progress now (\<lambda>p. pr_oid p = sr_oid r)
            (\<lambda>p. p\<lparr>pr_status := 2, pr_reason := Some ''explicit deferred retry''\<rparr>))) (\<lambda>_. ?S) ?E"
    by (rule dbh_update) (auto intro: alloc_state_mark dest: alloc_state_next)
  have one: "dbh (alloc_state tid d0 oids) (allocate_object c tid retry r) (\<lambda>_. ?S) ?E"
    unfolding allocate_object_def
    by (rule dbh_bind [OF ins]) (auto intro!: dbh_if mark dbh_ret)
  show ?case using Cons.IH [of "oids @ [sr_oid r]"] by (auto intro!: dbh_bind [OF one])
qed

section \<open>Candidates\<close>

definition free_oid :: "db \<Rightarrow> u64 \<Rightarrow> bool" where
  "free_oid d oid \<longleftrightarrow> list_all (\<lambda>o'. ob_oid o' = oid \<longrightarrow> ob_deferred o') (t_objects d)"

lemma retryable_free:
  assumes "db_ok d" "retryable d s"
  shows "free_oid d (sr_oid s)"
proof -
  obtain a where a: "a \<in> set (t_objects d)" "ob_oid a = sr_oid s" "ob_deferred a" "newest d a"
    using assms(2) by (auto simp: retryable_def list_ex_iff)
  have "ob_deferred b" if b: "b \<in> set (t_objects d)" "ob_oid b = sr_oid s" for b
  proof (rule ccontr)
    assume nd: "\<not> ob_deferred b"
    then have "newest d b" using db_okD(4) [OF assms(1) b(1)] by simp
    then have "\<not> ob_task b < ob_task a" "\<not> ob_task a < ob_task b"
      using a b by (auto simp: newest_def list_ex_iff)
    then have "object_key a = object_key b" using a b by (simp add: object_key_def)
    then have "a = b" using db_okD(1) [OF assms(1)] a b by (auto simp: keys_ok_def distinct_map inj_on_def)
    then show False using nd a by simp
  qed
  then show ?thesis by (auto simp: free_oid_def list_all_iff)
qed

lemma unassigned_free: "unassigned d s \<Longrightarrow> free_oid d (sr_oid s)"
  by (auto simp: unassigned_def free_oid_def list_all_iff list_ex_iff)

lemma candidates_free:
  assumes "db_ok d" "r \<in> set (candidates retry limit d)"
  shows "free_oid d (sr_oid r)" "r \<in> set (t_scan d)"
  using assms unassigned_free retryable_free [OF assms(1)]
  by (auto simp: candidates_def dest!: in_set_takeD split: if_splits)

lemma candidates_distinct:
  assumes "db_ok d"
  shows "distinct (map sr_oid (candidates retry limit d))"
proof -
  have "distinct (map sr_oid (t_scan d))" using db_okD(1) [OF assms] by (simp add: keys_ok_def)
  then have "distinct (map sr_oid (filter P (t_scan d)))" for P by (simp add: distinct_map inj_on_def)
  then have "distinct (map sr_oid (sort_key sr_oid (filter P (t_scan d))))" for P
    by (simp add: distinct_map)
  then show ?thesis by (simp add: candidates_def take_map [symmetric])
qed

section \<open>The allocated task\<close>

definition fresh_task :: "u64 \<Rightarrow> u64 \<Rightarrow> nat \<Rightarrow> u64 \<Rightarrow> string \<Rightarrow> subtask" where
  "fresh_task tid target count logical digest =
     \<lparr>st_id = tid, st_target = target, st_objects = count, st_logical = logical, st_digest = digest,
      st_phase = ''READY'', st_hold = [], st_hold_oid = None, st_gen = 1, st_done = None,
      st_purged = None, st_conn = None\<rparr>"

lemma insert_task_cases:
  "insert_task target n logical digest d = Inr (tid, d') \<longleftrightarrow>
     tid = next_task d \<and> next_task d \<noteq> max_u64 \<and>
     d' = d\<lparr>t_tasks := t_tasks d @ [fresh_task tid target n logical digest], next_task := next_task d + 1\<rparr>"
  by (auto simp: insert_task_def fresh_task_def)

text \<open>Appending a task and its members to the tables.\<close>

definition with_task :: "db \<Rightarrow> subtask \<Rightarrow> u64 list \<Rightarrow> db" where
  "with_task d t oids = d\<lparr>t_tasks := t_tasks d @ [t], next_task := next_task d + 1,
     t_objects := t_objects d @ map (new_object (st_id t)) oids\<rparr>"

lemma members_below:
  "keys_ok d \<Longrightarrow> o' \<in> set (t_objects d) \<Longrightarrow> ob_task o' < next_task d"
  by (auto simp: keys_ok_def list_all_iff)

lemma db_ok_with_task:
  assumes ok: "db_ok d" and sealed: "sealed d" and idle: "filter deleting (t_tasks d) = []"
    and room: "next_task d \<noteq> max_u64"
    and oids: "distinct oids" "oids \<noteq> []" "set oids \<subseteq> sr_oid ` set (t_scan d)"
    and free: "\<And>oid. oid \<in> set oids \<Longrightarrow> free_oid d oid"
  shows "db_ok (with_task d (fresh_task (next_task d) target (length oids) logical digest) oids)"
    (is "db_ok (with_task d ?t oids)")
proof (rule db_okI)
  let ?d = "with_task d ?t oids" and ?n = "next_task d"
  have k: "keys_ok d" by (rule db_okD(1) [OF ok])
  have less: "?n < ?n + 1" by (rule word_less_succ [OF room])
  have old: "objects_of ?d tid = objects_of d tid" if "tid \<noteq> ?n" for tid
    using that by (simp add: objects_of_def with_task_def fresh_task_def new_object_def filter_empty_conv)
  have new: "objects_of ?d ?n = map (new_object ?n) oids"
    by (auto simp: objects_of_def with_task_def fresh_task_def new_object_def filter_empty_conv
        dest!: members_below [OF k])
  have prog: "progress_of ?d = progress_of d" by (simp add: progress_of_def with_task_def fun_eq_iff)
  have keys: "distinct (map object_key (t_objects ?d))"
  proof -
    have "distinct (map object_key (map (new_object ?n) oids))"
      using oids(1) by (simp add: distinct_map inj_on_def object_key_def new_object_def)
    moreover have "distinct (map object_key (t_objects d))" using k by (simp add: keys_ok_def)
    ultimately show ?thesis
      by (auto simp: with_task_def fresh_task_def object_key_def new_object_def dest!: members_below [OF k])
  qed
  have ids: "list_all (\<lambda>t. 0 < st_id t \<and> st_id t < ?n) (t_tasks d)" "0 < ?n" "distinct (map st_id (t_tasks d))"
    using k by (auto simp: keys_ok_def)
  have tasks: "t_tasks ?d = t_tasks d @ [?t]" "st_id ?t = ?n" "next_task ?d = ?n + 1"
    by (simp_all add: with_task_def fresh_task_def)
  have "distinct (map st_id (t_tasks ?d))" using ids by (auto simp: tasks list_all_iff)
  moreover have "list_all (\<lambda>t. 0 < st_id t \<and> st_id t < next_task ?d) (t_tasks ?d)"
    using ids less less_trans [OF _ less] by (simp add: tasks list_all_iff)
  moreover have "0 < next_task ?d" using ids(2) less by (simp add: tasks)
  moreover have "list_all (\<lambda>o'. ob_task o' \<in> st_id ` set (t_tasks ?d) \<and> ob_oid o' \<in> sr_oid ` set (t_scan d)) (t_objects ?d)"
    using k oids(3) by (auto simp: keys_ok_def list_all_iff with_task_def fresh_task_def new_object_def)
  ultimately show "keys_ok ?d"
    using k keys unfolding keys_ok_def by (simp add: with_task_def)
  show "task_ok ?d t" if "t \<in> set (t_tasks ?d)" for t
  proof (cases "t = ?t")
    case True
    have "st_id ?t = ?n" by (simp add: fresh_task_def)
    then show ?thesis using True new oids(2) by (simp add: task_ok_def fresh_task_def)
  next
    case False
    then have mem: "t \<in> set (t_tasks d)" using that by (simp add: tasks)
    then have "st_id t < ?n" using ids(1) by (simp add: list_all_iff)
    then have "st_id t \<noteq> ?n" by simp
    then show ?thesis
      using db_okD(2) [OF ok mem] by (auto simp: task_ok_def certified_def old passed_def prog)
  qed
  show "length (filter deleting (t_tasks ?d)) \<le> 1" using idle by (simp add: with_task_def)
  show "newest ?d o'" if mem: "o' \<in> set (t_objects ?d)" and nd: "\<not> ob_deferred o'" for o'
  proof (cases "o' \<in> set (t_objects d)")
    case True
    then have "ob_oid o' \<notin> set oids" using free nd by (auto simp: free_oid_def list_all_iff)
    then show ?thesis
      using db_okD(4) [OF ok True nd]
      by (auto simp: newest_def with_task_def list_ex_iff new_object_def fresh_task_def)
  next
    case False
    then obtain oid where "o' = new_object ?n oid" using mem by (auto simp: with_task_def fresh_task_def)
    then show ?thesis
      using members_below [OF k]
      by (fastforce simp: newest_def with_task_def list_ex_iff new_object_def fresh_task_def dest: order.asym)
  qed
  show "sealed ?d" using sealed by (simp add: sealed_def with_task_def)
qed

text \<open>The tables after the loop: the appended task, and the retried results reopened.\<close>

lemma db_ok_allocated:
  assumes ok: "db_ok d" and sealed: "sealed d" and idle: "filter deleting (t_tasks d) = []"
    and room: "next_task d \<noteq> max_u64"
    and oids: "distinct oids" "oids \<noteq> []" "set oids \<subseteq> sr_oid ` set (t_scan d)"
    and free: "\<And>oid. oid \<in> set oids \<Longrightarrow> free_oid d oid"
    and ins: "insert_task target (length oids) logical digest d = Inr (tid, d1)"
    and loop: "alloc_state tid d1 oids d2"
  shows "db_ok d2"
proof -
  let ?t = "fresh_task (next_task d) target (length oids) logical digest"
  let ?d = "with_task d ?t oids"
  have d1: "tid = next_task d" "d1 = d\<lparr>t_tasks := t_tasks d @ [?t], next_task := next_task d + 1\<rparr>"
    using ins by (auto simp: insert_task_cases)
  have base: "db_ok ?d" by (rule db_ok_with_task [OF assms(1-8)])
  have prog: "progress_of d1 = progress_of d" "progress_of ?d = progress_of d"
    by (simp_all add: d1 progress_of_def with_task_def fun_eq_iff)
  have d2: "d2 = ?d\<lparr>t_progress := t_progress d2\<rparr>"
    using loop d1 by (intro db.equality) (simp_all add: alloc_state_def with_task_def fresh_task_def)
  have same: "map pr_oid (t_progress d2) = map pr_oid (t_progress d)"
    using loop d1 by (simp add: alloc_state_def)
  show ?thesis
  proof (subst d2, rule db_ok_set_progress [OF base])
    show "distinct (map pr_oid (t_progress d2))" using same db_okD(1) [OF ok] by (simp add: keys_ok_def)
    show "pr_oid p \<in> sr_oid ` set (t_scan ?d) \<and> pr_status p \<in> {1, 2}" if p: "p \<in> set (t_progress d2)" for p
    proof
      have "pr_oid p \<in> pr_oid ` set (t_progress d)" using p same by (metis list.set_map image_eqI)
      then show "pr_oid p \<in> sr_oid ` set (t_scan ?d)"
        using db_okD(1) [OF ok] by (auto simp: keys_ok_def list_all_iff with_task_def)
      show "pr_status p \<in> {1, 2}" using loop p by (auto simp: alloc_state_def list_all_iff)
    qed
    fix oid assume rel: "relied_on ?d oid" and st: "has_status 1 (progress_of ?d oid)"
    have "oid \<notin> set oids"
    proof
      assume "oid \<in> set oids"
      then have "new_object (next_task d) oid \<in> set (t_objects ?d)" by (simp add: with_task_def fresh_task_def)
      then show False
        using residue_not_relied [OF base, of "new_object (next_task d) oid"] rel by (simp add: new_object_def)
    qed
    then have "progress_of d2 oid = progress_of ?d oid" using loop prog by (simp add: alloc_state_def)
    then show "has_status 1 (progress_of (?d\<lparr>t_progress := t_progress d2\<rparr>) oid)"
      using st by (simp add: progress_of_def)
  qed
qed

section \<open>CreateSubtask\<close>

text \<open>What a completed allocation has done to the tables: a non-empty prefix of the candidates,
  its task and its members.\<close>

definition allocated ::
  "(string \<Rightarrow> string) \<Rightarrow> u64 \<Rightarrow> int \<Rightarrow> bool \<Rightarrow> db \<Rightarrow> u64 \<Rightarrow> db \<Rightarrow> bool" where
  "allocated H target limit retry d0 tid d \<longleftrightarrow>
     (\<exists>sel tot d1. select_capacity (candidates retry limit d0) target limit = Inr (sel, tot) \<and> sel \<noteq> [] \<and>
        insert_task target (length sel) tot (digest_rows H sel) d0 = Inr (tid, d1) \<and>
        alloc_state tid d1 (map sr_oid sel) d)"

lemma allocated_next: "allocated H target limit retry d0 tid d \<Longrightarrow> next_task d0 \<le> next_task d"
  by (auto simp: allocated_def insert_task_cases alloc_state_def)

lemma allocated_ok:
  assumes ok: "db_ok d0" and sealed: "sealed d0" and idle: "filter deleting (t_tasks d0) = []"
    and alloc: "allocated H target limit retry d0 tid d"
  shows "db_ok d"
proof -
  obtain sel tot d1 where sel: "select_capacity (candidates retry limit d0) target limit = Inr (sel, tot)" "sel \<noteq> []"
    and ins: "insert_task target (length sel) tot (digest_rows H sel) d0 = Inr (tid, d1)"
    and loop: "alloc_state tid d1 (map sr_oid sel) d" using alloc by (auto simp: allocated_def)
  have pre: "prefix sel (candidates retry limit d0)" by (rule select_capacity_prefix [OF sel(1)])
  then have sub: "set sel \<subseteq> set (candidates retry limit d0)" by (rule set_mono_prefix)
  have dist: "distinct (map sr_oid sel)"
    using pre candidates_distinct [OF ok, of retry limit] by (auto simp: prefix_def)
  have room: "next_task d0 \<noteq> max_u64" using ins by (auto simp: insert_task_cases)
  show ?thesis
    by (rule db_ok_allocated [OF ok sealed idle room dist _ _ _ _ loop])
      (use sel sub ins candidates_free [OF ok, of _ retry limit] in auto)
qed

lemma allocate_spec:
  assumes ok: "db_ok d0"
  shows "dbh (\<lambda>d. d = d0) (allocate H c target limit retry)
     (allocated H target limit retry d0) (\<lambda>_ d. next_task d0 \<le> next_task d)"
proof -
  let ?E = "\<lambda>_ d. next_task d0 \<le> next_task d"
  let ?cands = "candidates retry limit d0"
  let ?sel = "\<lambda>sel. select_capacity ?cands target limit = Inr sel \<and> fst sel \<noteq> []"
  let ?ins = "\<lambda>sel tid d. insert_task target (length (fst sel)) (snd sel) (digest_rows H (fst sel)) d0 = Inr (tid, d)"
  let ?R = "allocated H target limit retry d0"
  have 1: "dbh (\<lambda>d. d = d0) (query c (\<lambda>d. case t_meta d of None \<Rightarrow> Inl ErrNoRows | Some _ \<Rightarrow> Inr ()))
      (\<lambda>_ d. d = d0) ?E" by (rule dbh_query) auto
  have 2: "dbh (\<lambda>d. d = d0) (query c (\<lambda>d. Inr (candidates retry limit d))) (\<lambda>cs d. d = d0 \<and> cs = ?cands) ?E"
    by (rule dbh_query) auto
  have 3: "dbh (\<lambda>d. d = d0 \<and> cs = ?cands) (liftE (select_capacity cs target limit))
      (\<lambda>sel d. d = d0 \<and> select_capacity ?cands target limit = Inr sel) ?E" for cs
    by (rule dbh_liftE) auto
  have 4: "dbh (\<lambda>d. d = d0 \<and> select_capacity ?cands target limit = Inr sel)
      (failIf (length (fst sel) = 0) ErrNoUnassigned) (\<lambda>_ d. d = d0 \<and> ?sel sel) ?E" for sel
    by (rule dbh_failIf) auto
  have 5: "dbh (\<lambda>d. d = d0 \<and> ?sel sel)
      (update c (\<lambda>now. insert_task target (length (fst sel)) (snd sel) (digest_rows H (fst sel))))
      (\<lambda>tid d. ?sel sel \<and> ?ins sel tid d) ?E" for sel
    by (rule dbh_update) (auto simp: insert_task_cases)
  have 6: "dbh (\<lambda>d. ?sel sel \<and> ?ins sel tid d) (forA (fst sel) (allocate_object c tid retry))
      (\<lambda>_. ?R tid) ?E" for sel tid
  proof (cases "\<exists>d1. ?sel sel \<and> ?ins sel tid d1")
    case True
    then obtain d1 where sel: "?sel sel" and ins: "?ins sel tid d1" by auto
    have start: "alloc_state tid d1 [] d1"
      by (rule alloc_state_start) (use ins db_okD(1) [OF ok] in \<open>auto simp: insert_task_cases keys_ok_def list_all_iff\<close>)
    show ?thesis
    proof (rule dbh_weaken [OF allocate_objects [of tid d1 "[]"]])
      show "alloc_state tid d1 [] d" if "?sel sel \<and> ?ins sel tid d" for d using that ins start by simp
      show "?R tid d" if "alloc_state tid d1 ([] @ map sr_oid (fst sel)) d" for d
        using that sel ins unfolding allocated_def by (cases sel) auto
      have "next_task d0 \<le> next_task d1"
        using ins by (auto simp: insert_task_cases)
      then show "next_task d0 \<le> next_task d" if "next_task d = next_task d1" for d using that by simp
    qed
  next
    case False
    then show ?thesis by (intro dbhI) auto
  qed
  have 7: "dbh (?R tid) (bindA (check_lock c) (\<lambda>_. ret tid)) ?R ?E" for tid
  proof (rule dbh_bind)
    show "dbh (?R tid) (check_lock c) (\<lambda>_. ?R tid) ?E"
      by (rule dbh_check_lock) (auto dest: allocated_next)
  qed (rule dbh_ret)
  show ?thesis
    unfolding allocate_def
    by (rule dbh_bind [OF 1], rule dbh_bind [OF 2], rule dbh_bind [OF 3], rule dbh_bind [OF 4],
        rule dbh_bind [OF 5], rule dbh_bind [OF 6], rule 7)
qed

text \<open>No current task: the error of the resolution is only raised on an idle database.\<close>

lemma no_current_env: "env_err e \<Longrightarrow> \<not> err_is e ErrNoCurrentTask"
  by (auto simp: env_err_def CtxCanceled_def ErrNoCurrentTask_def)

lemma read_all_cases:
  "read_all xs = Inl e \<Longrightarrow> \<exists>s. e = Txt s" "read_all xs = Inr ys \<Longrightarrow> ys = xs"
  by (induction xs arbitrary: ys)
    (auto simp: read_subtask_def split: sum.splits option.splits if_splits)

lemma select_current_cases:
  "select_current found expected = Inl e \<Longrightarrow> err_is e ErrNoCurrentTask \<Longrightarrow> found = []"
  "select_current found expected = Inr s \<Longrightarrow> found = [s]"
  by (auto simp: select_current_def ErrNoCurrentTask_def length_Suc_conv split: if_splits;
      cases found; auto)+

lemma tasks_where_set [simp]: "set (tasks_where P d) = {t \<in> set (t_tasks d). P t}"
  by (auto simp: tasks_where_def)

lemma tasks_where_empty [simp]: "tasks_where P d = [] \<longleftrightarrow> filter P (t_tasks d) = []"
proof -
  have "set (tasks_where P d) = set (filter P (t_tasks d))" by auto
  then show ?thesis by (metis set_empty)
qed

lemma resolve_current_spec:
  "dbh (\<lambda>d. d = d0) (resolve_subtask c 0) (\<lambda>s d. d = d0 \<and> s \<in> set (t_tasks d0) \<and> deleting s)
     (\<lambda>e d. d = d0 \<and> (err_is e ErrNoCurrentTask \<longrightarrow> filter deleting (t_tasks d0) = []))"
proof -
  let ?E = "\<lambda>e d. d = d0 \<and> (err_is e ErrNoCurrentTask \<longrightarrow> filter deleting (t_tasks d0) = [])"
  let ?found = "take 2 (tasks_where deleting d0)"
  have found: "dbh (\<lambda>d. d = d0) (query c (\<lambda>d. read_all (take 2 (tasks_where deleting d))))
      (\<lambda>xs d. d = d0 \<and> xs = ?found) ?E"
    by (rule dbh_query_err) (auto simp: no_current_env dest: read_all_cases)
  have pick: "dbh (\<lambda>d. d = d0 \<and> xs = ?found) (liftE (select_current xs 0))
      (\<lambda>s d. d = d0 \<and> s \<in> set (t_tasks d0) \<and> deleting s) ?E" for xs
  proof (rule dbh_liftE)
    fix d e assume "d = d0 \<and> xs = ?found" "select_current xs 0 = Inl e"
    then show "?E e d" by (auto dest: select_current_cases)
  next
    fix d s assume "d = d0 \<and> xs = ?found" "select_current xs 0 = Inr s"
    then have "d = d0" "s \<in> set ?found" by (auto dest: select_current_cases)
    then show "d = d0 \<and> s \<in> set (t_tasks d0) \<and> deleting s" by (auto dest!: in_set_takeD)
  qed
  show ?thesis
    unfolding resolve_subtask_def by (simp add: dbh_bind [OF found pick])
qed

lemma require_complete_sealed:
  "dbh P (require_complete_scan c) (\<lambda>_ d. P d \<and> sealed d) (\<lambda>_. P)"
proof -
  have "dbh P (read_task c) (\<lambda>t d. P d \<and> t_meta d = t) (\<lambda>_. P)" by (rule dbh_read_task) auto
  moreover have "dbh (\<lambda>d. P d \<and> t_meta d = t) (case t of None \<Rightarrow> throw errNoTask
     | Some m \<Rightarrow> failIf (m_status m \<noteq> ScanComplete) (e m)) (\<lambda>_ d. P d \<and> sealed d) (\<lambda>_. P)" for t e
    by (cases t) (auto simp: sealed_def scan_status_of_def intro!: dbh_rules)
  ultimately show ?thesis unfolding require_complete_scan_def by (rule dbh_bind)
qed

lemma require_no_hold_spec:
  "dbh (\<lambda>d. d = d0) (require_no_hold c) (\<lambda>_ d. d = d0 \<and> (\<forall>t\<in>set (t_tasks d0). st_hold t = []))
     (\<lambda>_ d. d = d0)"
proof -
  have "dbh (\<lambda>d. d = d0) (query c (\<lambda>d. case tasks_where (\<lambda>s. st_hold s \<noteq> []) d of
             [] \<Rightarrow> Inl ErrNoRows | s # _ \<Rightarrow> Inr (st_id s))) (\<lambda>_ d. d = d0)
     (\<lambda>e d. d = d0 \<and> (err_is e ErrNoRows \<longrightarrow> (\<forall>t\<in>set (t_tasks d0). st_hold t = [])))"
    by (rule dbh_query_err) (auto simp: filter_empty_conv split: list.splits)
  then show ?thesis
    unfolding require_no_hold_def by (rule dbh_try) (auto intro!: dbh_rules)
qed

lemma first_row_mem: "first_row rows = Inr s \<Longrightarrow> s \<in> set rows"
  by (cases rows) (auto simp: first_row_def read_subtask_def split: option.splits if_splits)

lemma subtask_row_spec:
  "dbh (\<lambda>d. d = d0) (subtask_row c tid) (\<lambda>s d. d = d0 \<and> s \<in> set (t_tasks d0) \<and> st_id s = tid) (\<lambda>_ d. d = d0)"
  unfolding subtask_row_def
proof (rule dbh_query)
  fix d s assume d: "d = d0" "first_row (filter (\<lambda>s. st_id s = tid) (t_tasks d)) = Inr s"
  then have "s \<in> set (filter (\<lambda>s. st_id s = tid) (t_tasks d0))" using first_row_mem by blast
  then show "d = d0 \<and> s \<in> set (t_tasks d0) \<and> st_id s = tid" using d by simp
qed simp

text \<open>The two ways \<open>create_subtask\<close> returns a task, and what it leaves behind on an error. A roll
  back leaves a gap in the task numbers, nothing else.\<close>

definition created_from ::
  "(string \<Rightarrow> string) \<Rightarrow> u64 \<Rightarrow> int \<Rightarrow> bool \<Rightarrow> db \<Rightarrow> u64 \<Rightarrow> db \<Rightarrow> bool" where
  "created_from H target limit retry d0 tid d \<longleftrightarrow>
     sealed d0 \<and> (\<forall>t\<in>set (t_tasks d0). st_hold t = []) \<and> filter deleting (t_tasks d0) = [] \<and>
     allocated H target limit retry d0 tid d"

definition gap_only :: "db \<Rightarrow> db \<Rightarrow> bool" where
  "gap_only d0 d \<longleftrightarrow> (\<exists>n. next_task d0 \<le> n \<and> d = d0\<lparr>next_task := n\<rparr>)"

lemma gap_only_refl [simp]: "gap_only d d"
  by (auto simp: gap_only_def intro!: exI [of _ "next_task d"])

lemma create_subtask_spec:
  assumes ok: "db_ok d0"
  shows "dbh (\<lambda>d. d = d0) (create_subtask H c target limit retry)
     (\<lambda>s d. (d = d0 \<and> s \<in> set (t_tasks d0) \<and> deleting s) \<or>
        (created_from H target limit retry d0 (st_id s) d \<and> s \<in> set (t_tasks d)))
     (\<lambda>_ d. gap_only d0 d \<or> (\<exists>tid. created_from H target limit retry d0 tid d))" (is "dbh _ _ ?Q ?E")
proof -
  let ?S = "\<lambda>d. d = d0" and ?free = "\<forall>t\<in>set (t_tasks d0). st_hold t = []"
  let ?idle = "filter deleting (t_tasks d0) = []" and ?C = "created_from H target limit retry d0"
  have E: "dbh P m Q (\<lambda>_. ?S) \<Longrightarrow> dbh P m Q ?E" for P and m :: "(world, 'a) act" and Q
    by (erule dbh_weaken) auto
  have alloc: "dbh ?S (transaction c (allocate H c target limit retry)) ?C ?E"
    if "sealed d0" ?free ?idle
  proof (rule dbh_transaction [where R = "allocated H target limit retry"
          and F = "\<lambda>d0 _ d. next_task d0 \<le> next_task d"])
    show "dbh (\<lambda>d. d = d1) (allocate H c target limit retry) (allocated H target limit retry d1)
      (\<lambda>_ d. next_task d1 \<le> next_task d)" if "d1 = d0" for d1 using that allocate_spec [OF ok] by simp
  qed (use that in \<open>auto simp: created_from_def gap_only_def dest: allocated_next\<close>)
  have row: "dbh (?C tid) (subtask_row c tid) ?Q ?E" for tid
  proof (rule dbhI)
    fix w s v assume "?C tid (w_db w)" "subtask_row c tid w = (Inr s, v)"
    then show "?Q s (w_db v)" using dbhD_ok [OF subtask_row_spec refl] by fastforce
  next
    fix w e v assume "?C tid (w_db w)" "subtask_row c tid w = (Inl e, v)"
    then show "?E e (w_db v)" using dbhD_err [OF subtask_row_spec refl] by fastforce
  qed
  have rest: "dbh ?S (bindA (query c (\<lambda>d. Inr (legacy_results d))) (\<lambda>legacy.
         bindA (failIf (legacy > 0) e) (\<lambda>_.
         bindA (transaction c (allocate H c target limit retry)) (\<lambda>tid. subtask_row c tid)))) ?Q ?E"
    if "sealed d0" ?free ?idle for e
    by (rule dbh_bind, rule dbh_query [where Q = "\<lambda>_. ?S"], simp, simp, rule dbh_bind,
        rule dbh_failIf [where Q = "\<lambda>_. ?S"], simp, simp, rule dbh_bind [OF alloc [OF that] row])
  have handler: "dbh (\<lambda>d. d = d0 \<and> (err_is e ErrNoCurrentTask \<longrightarrow> ?idle))
      (if \<not> err_is e ErrNoCurrentTask then throw e else
         bindA (query c (\<lambda>d. Inr (legacy_results d))) (\<lambda>legacy.
         bindA (failIf (legacy > 0) e') (\<lambda>_.
         bindA (transaction c (allocate H c target limit retry)) (\<lambda>tid. subtask_row c tid)))) ?Q ?E"
    if "sealed d0" ?free for e e'
    by (rule dbh_if, rule dbh_throw, simp, rule dbh_pure, rule rest) (use that in auto)
  have resolved: "dbh ?S (tryA (resolve_subtask c 0)
      (\<lambda>e. if \<not> err_is e ErrNoCurrentTask then throw e else
         bindA (query c (\<lambda>d. Inr (legacy_results d))) (\<lambda>legacy.
         bindA (failIf (legacy > 0) e') (\<lambda>_.
         bindA (transaction c (allocate H c target limit retry)) (\<lambda>tid. subtask_row c tid)))) ret) ?Q ?E"
    if "sealed d0" ?free for e'
    by (rule dbh_try [OF resolve_current_spec handler [OF that]], rule dbh_ret) auto
  show ?thesis
    unfolding create_subtask_def
    apply (rule dbh_bind [where R = "\<lambda>_. ?S"], rule dbh_check_lock, simp, simp)
    apply (rule dbh_bind [where R = "\<lambda>_. ?S"], rule dbh_failIf, simp, simp)
    apply (rule dbh_bind [OF E [OF require_complete_sealed]])
    apply (rule dbh_pre [where P' = "\<lambda>d. d = d0 \<and> sealed d0"], rule dbh_pure)
     apply (rule dbh_bind [OF E [OF require_no_hold_spec]], rule dbh_pure, rule resolved)
    apply auto
    done
qed

lemma db_ok_gap: "db_ok d0 \<Longrightarrow> gap_only d0 d \<Longrightarrow> db_ok d"
  by (auto simp: gap_only_def intro: db_ok_next)

lemma created_ok: "db_ok d0 \<Longrightarrow> created_from H target limit retry d0 tid d \<Longrightarrow> db_ok d"
  by (auto simp: created_from_def intro: allocated_ok)

lemma create_subtask_ok: "keeps db_ok (create_subtask H c target limit retry)"
proof (rule dbhI)
  fix w e v assume ok: "db_ok (w_db w)" and run: "create_subtask H c target limit retry w = (Inl e, v)"
  show "db_ok (w_db v)"
    using dbhD_err [OF create_subtask_spec [OF ok] refl run] db_ok_gap [OF ok] created_ok [OF ok] by blast
next
  fix w s v assume ok: "db_ok (w_db w)" and run: "create_subtask H c target limit retry w = (Inr s, v)"
  show "db_ok (w_db v)"
    using dbhD_ok [OF create_subtask_spec [OF ok] refl run] ok created_ok [OF ok] by auto
qed

end
