(* ===== verification/Sessions.thy ===== *)
theory Sessions
  imports Allocation
begin

text \<open>
  The life of a progress database under any sequence of commands. A state is what the running
  command is doing and its world; a step is one operation of \<^verbatim>\<open>internal/progress\<close> in the
  order in which \<^verbatim>\<open>cmd/limewire-purge\<close> calls it (with anything that only reads the tables between
  the choice of a task and the first write), with any result, or a change of the
  environment (the clock, a cancellation, the named lock, the script of faults), or the end of the
  command at any point. Only one command runs at a time: that is the execution lock, see \<open>Lock\<close>.
\<close>

section \<open>Steps\<close>

datatype mode = Idle | Purging u64 | Verifying subtask

inductive session :: "(string \<Rightarrow> string) \<Rightarrow> mode \<times> world \<Rightarrow> mode \<times> world \<Rightarrow> bool"
  for H :: "string \<Rightarrow> string" where
  environment: "w_db v = w_db w \<Longrightarrow> session H (m, w) (m, v)"
| command_ends: "w_db v = w_db w \<Longrightarrow> session H (m, w) (Idle, v)"
| opened: "ensure_schema sc c w = (r, v) \<Longrightarrow> session H (Idle, w) (Idle, v)"
| bound: "bind_task c b w = (r, v) \<Longrightarrow> session H (Idle, w) (Idle, v)"
| scan_begun: "begin_scan c n w = (r, v) \<Longrightarrow> session H (Idle, w) (Idle, v)"
| scan_inserted: "insert_scan c rows w = (r, v) \<Longrightarrow> session H (Idle, w) (Idle, v)"
| scan_finished: "finish_scan c k w = (r, v) \<Longrightarrow> session H (Idle, w) (Idle, v)"
| created: "create_subtask H c target limit retry w = (s, v) \<Longrightarrow> session H (Idle, w) (Idle, v)"
| deferred: "resolve_admin c tid w = (Inr s, u) \<Longrightarrow> w_db u1 = w_db u \<Longrightarrow> defer_object c s oid reason u1 = (r, v) \<Longrightarrow>
    session H (Idle, w) (Idle, v)"
| resumed: "resolve_admin c tid w = (Inr s, u) \<Longrightarrow> w_db u1 = w_db u \<Longrightarrow> resume_safety c s reason u1 = (r, v) \<Longrightarrow>
    session H (Idle, w) (Idle, v)"
| held: "hold c tid oid reason w = (r, v) \<Longrightarrow> session H (Idle, w) (Idle, v)"
| purge_begun: "resolve_purge c tid w = (Inr s, u) \<Longrightarrow> w_db u1 = w_db u \<Longrightarrow> begin_purge H c s u1 = (Inr (), v) \<Longrightarrow>
    session H (Idle, w) (Purging (st_id s), v)"
| purge_refused: "resolve_purge c tid w = (Inr s, u) \<Longrightarrow> w_db u1 = w_db u \<Longrightarrow> begin_purge H c s u1 = (Inl e, v) \<Longrightarrow>
    session H (Idle, w) (Idle, v)"
| object_done: "done_subtask c tid oid keys bytes role expected w = (r, v) \<Longrightarrow>
    session H (Purging tid, w) (Purging tid, v)"
| object_failed: "fail_subtask c tid oid keys bytes reason w = (r, v) \<Longrightarrow>
    session H (Purging tid, w) (Purging tid, v)"
| purge_held: "hold c tid oid reason w = (r, v) \<Longrightarrow> session H (Purging tid, w) (Purging tid, v)"
| purge_ended: "complete_purge c s w = (r, v) \<Longrightarrow> st_id s = tid \<Longrightarrow> session H (Purging tid, w) (Idle, v)"
| verify_begun: "resolve_verify c tid w = (Inr s, u) \<Longrightarrow> w_db u1 = w_db u \<Longrightarrow> begin_verify H c s restart u1 = (Inr t, v) \<Longrightarrow>
    st_done t = None \<Longrightarrow> session H (Idle, w) (Verifying t, v)"
| verify_refused: "resolve_verify c tid w = (Inr s, u) \<Longrightarrow> w_db u1 = w_db u \<Longrightarrow> begin_verify H c s restart u1 = (r, v) \<Longrightarrow>
    session H (Idle, w) (Idle, v)"
| verdict: "record_verify c s oid status detail w = (r, v) \<Longrightarrow> session H (Verifying s, w) (Verifying s, v)"
| verify_ended: "complete_verify c s w = (r, v) \<Longrightarrow> session H (Verifying s, w) (Idle, v)"

inductive reachable :: "(string \<Rightarrow> string) \<Rightarrow> mode \<times> world \<Rightarrow> bool" for H :: "string \<Rightarrow> string" where
  new_database: "w_db w = empty_db \<Longrightarrow> reachable H (Idle, w)"
| step: "reachable H x \<Longrightarrow> session H x y \<Longrightarrow> reachable H y"

inductive_cases session_elim: "session H x y"

section \<open>The invariant of a session\<close>

fun working_on :: "mode \<Rightarrow> u64 \<Rightarrow> bool" where
  "working_on Idle k \<longleftrightarrow> False"
| "working_on (Purging tid) k \<longleftrightarrow> tid = k"
| "working_on (Verifying s) k \<longleftrightarrow> st_id s = k"

definition session_ok :: "mode \<times> world \<Rightarrow> bool" where
  "session_ok x \<longleftrightarrow> db_ok (w_db (snd x)) \<and> (\<forall>k. working_on (fst x) k \<longrightarrow> open_task k (w_db (snd x)))"

lemma keepsE: "keeps I m \<Longrightarrow> I (w_db w) \<Longrightarrow> m w = (r, v) \<Longrightarrow> I (w_db v)"
  using keepsD [of I m w] by simp

lemma resolve_unchanged:
  "resolve_purge c tid w = (r, v) \<Longrightarrow> w_db v = w_db w"
  "resolve_verify c tid w = (r, v) \<Longrightarrow> w_db v = w_db w"
  "resolve_admin c tid w = (r, v) \<Longrightarrow> w_db v = w_db w"
  by (rule keepsE [OF keeps_resolve(1)], simp_all) (rule keepsE [OF keeps_resolve(2)], simp_all,
      rule keepsE [OF keeps_resolve(3)], simp_all)

text \<open>The row of a task that is not done makes the task open.\<close>

lemma row_open: "db_ok d \<Longrightarrow> s \<in> set (t_tasks d) \<Longrightarrow> st_done s = None \<Longrightarrow> open_task (st_id s) d"
  using task_id_inj [OF db_okD(1)] by (auto simp: open_task_def list_all_iff)

lemma resolve_current_row:
  "dbh (\<lambda>d. d = d0) (resolve_current c k) (\<lambda>s d. d = d0 \<and> s \<in> set (t_tasks d0) \<and> deleting s) (\<lambda>_ d. d = d0)"
  unfolding resolve_current_def
proof (rule dbh_bind [where R = "\<lambda>s d. d = d0 \<and> s \<in> set (t_tasks d0) \<and> deleting s"])
  show "dbh (\<lambda>d. d = d0) (resolve_subtask c 0) (\<lambda>s d. d = d0 \<and> s \<in> set (t_tasks d0) \<and> deleting s) (\<lambda>_ d. d = d0)"
    by (rule dbh_weaken [OF resolve_current_spec]) auto
  show "dbh (\<lambda>d. d = d0 \<and> s \<in> set (t_tasks d0) \<and> deleting s) (liftE (select_current [s] k))
     (\<lambda>s d. d = d0 \<and> s \<in> set (t_tasks d0) \<and> deleting s) (\<lambda>_ d. d = d0)" for s
    by (rule dbh_liftE) (auto dest: select_current_cases)
qed

lemma resolve_purge_spec:
  "dbh (\<lambda>d. d = d0) (resolve_purge c tid)
     (\<lambda>s d. d = d0 \<and> s \<in> set (t_tasks d0) \<and> st_done s = None \<and> (\<forall>t\<in>set (t_tasks d0). st_hold t = []))
     (\<lambda>_ d. d = d0)"
proof -
  let ?H = "\<forall>t\<in>set (t_tasks d0). st_hold t = []"
  let ?Q = "\<lambda>s d. d = d0 \<and> s \<in> set (t_tasks d0) \<and> st_done s = None \<and> ?H"
  have cur: "dbh (\<lambda>d. d = d0 \<and> ?H) (resolve_current c k) ?Q (\<lambda>_ d. d = d0)" for k
  proof (cases ?H)
    case True
    then show ?thesis by (intro dbh_weaken [OF resolve_current_row [of d0]]) (auto simp: deleting_def)
  next
    case False
    then show ?thesis by (intro dbhI) auto
  qed
  have row: "dbh (\<lambda>d. d = d0 \<and> ?H) (subtask_row c tid) (\<lambda>s d. d = d0 \<and> s \<in> set (t_tasks d0) \<and> ?H) (\<lambda>_ d. d = d0)"
  proof (cases ?H)
    case True
    then show ?thesis by (intro dbh_weaken [OF subtask_row_spec [of d0]]) auto
  next
    case False
    then show ?thesis by (intro dbhI) auto
  qed
  show ?thesis
    unfolding resolve_purge_def
    apply (rule dbh_bind [OF require_no_hold_spec])
    apply (rule dbh_if)
     apply (rule dbh_bind [OF row])
     apply (rule dbh_if, rule dbh_throw, simp)
     apply (rule dbh_if, rule dbh_ret, simp)
     apply (rule dbh_pre [OF cur], simp)
    apply (rule cur)
    done
qed

text \<open>A verification that was started works on an open task.\<close>

lemma begin_verify_open:
  "dbh (\<lambda>_. True) (begin_verify H c s restart) (\<lambda>t d. st_done t = None \<longrightarrow> open_task (st_id t) d) (\<lambda>_ _. True)"
proof -
  have top: "dbh (\<lambda>_. True) m (\<lambda>_ _. True) (\<lambda>_ _. True)" for m :: "(world, 'a) act"
    by (rule dbhI) auto
  have upd: "dbh (\<lambda>_. True) (exec c (\<lambda>now. update_tasks (\<lambda>t. st_id t = st_id s)
         (\<lambda>t. t\<lparr>st_phase := ph, st_gen := g, st_done := None,
              st_purged := coalesce (st_purged t) (Some now), st_conn := cid\<rparr>)))
      (\<lambda>_. open_task (st_id s)) (\<lambda>_ _. True)" for ph g cid
    by (rule dbh_update) (auto simp: open_task_def list_all_iff set_update_tasks)
  have row: "dbh (open_task (st_id s)) (subtask_row c (st_id s)) (\<lambda>t d. st_done t = None \<longrightarrow> open_task (st_id t) d)
      (\<lambda>_ _. True)"
  proof (rule dbhI)
    fix w t v assume w: "open_task (st_id s) (w_db w)" and run: "subtask_row c (st_id s) w = (Inr t, v)"
    show "st_done t = None \<longrightarrow> open_task (st_id t) (w_db v)"
      using dbhD_ok [OF subtask_row_spec refl run] w by simp
  qed simp
  show ?thesis
    unfolding begin_verify_def Let_def
    apply (rule dbh_bind [OF top], rule dbh_bind [OF top], rule dbh_if, rule dbh_ret, blast)
    apply (rule dbh_bind [OF top], rule dbh_bind [OF top], rule dbh_bind [OF top], rule dbh_bind [OF top])
    apply (rule dbh_bind [OF upd], rule row)
    done
qed

lemma session_preserves: "session H x y \<Longrightarrow> session_ok x \<Longrightarrow> session_ok y"
proof (induction x y rule: session.induct)
  case (deferred c tid w s u u1 oid reason r v)
  then have "db_ok (w_db u1)" using resolve_unchanged(3) [OF deferred(1)] by (simp add: session_ok_def)
  then have "db_ok (w_db v)" by (rule keepsE [OF defer_object_ok]) (rule deferred(3))
  then show ?case by (simp add: session_ok_def)
next
  case (resumed c tid w s u u1 reason r v)
  then have "db_ok (w_db u1)" using resolve_unchanged(3) [OF resumed(1)] by (simp add: session_ok_def)
  then have "db_ok (w_db v)" by (rule keepsE [OF resume_safety_ok]) (rule resumed(3))
  then show ?case by (simp add: session_ok_def)
next
  case (purge_begun c tid w s u u1 v)
  have ok: "db_ok (w_db w)" using purge_begun by (simp add: session_ok_def)
  have u: "w_db u1 = w_db w" "s \<in> set (t_tasks (w_db w))" "st_done s = None"
    using dbhD_ok [OF resolve_purge_spec refl purge_begun(1)] purge_begun(2) by auto
  then have "db_ok (w_db u1) \<and> open_task (st_id s) (w_db u1)" using row_open [OF ok u(2,3)] ok by simp
  then have "db_ok (w_db v) \<and> open_task (st_id s) (w_db v)"
    by (rule keepsE [OF begin_purge_ok]) (rule purge_begun(3))
  then show ?case by (simp add: session_ok_def)
next
  case (purge_refused c tid w s u u1 e v)
  have ok: "db_ok (w_db w)" using purge_refused by (simp add: session_ok_def)
  have u: "w_db u1 = w_db w" "s \<in> set (t_tasks (w_db w))" "st_done s = None"
    using dbhD_ok [OF resolve_purge_spec refl purge_refused(1)] purge_refused(2) by auto
  then have "db_ok (w_db u1) \<and> open_task (st_id s) (w_db u1)" using row_open [OF ok u(2,3)] ok by simp
  then have "db_ok (w_db v) \<and> open_task (st_id s) (w_db v)"
    by (rule keepsE [OF begin_purge_ok]) (rule purge_refused(3))
  then show ?case by (simp add: session_ok_def)
next
  case (object_done c tid oid keys bytes role expected w r v)
  have "db_ok (w_db v) \<and> open_task tid (w_db v)"
    by (rule keepsE [OF done_subtask_ok _ object_done(1)]) (use object_done in \<open>simp add: session_ok_def\<close>)
  then show ?case by (simp add: session_ok_def)
next
  case (object_failed c tid oid keys bytes reason w r v)
  have "db_ok (w_db v) \<and> open_task tid (w_db v)"
    by (rule keepsE [OF fail_subtask_ok _ object_failed(1)]) (use object_failed in \<open>simp add: session_ok_def\<close>)
  then show ?case by (simp add: session_ok_def)
next
  case (purge_held c tid oid reason w r v)
  have "db_ok (w_db v) \<and> open_task tid (w_db v)"
    by (rule keepsE [OF keeps_conj [OF hold_ok hold_open] _ purge_held(1)])
      (use purge_held in \<open>simp add: session_ok_def\<close>)
  then show ?case by (simp add: session_ok_def)
next
  case (verify_begun c tid w s u u1 restart t v)
  then have "db_ok (w_db u1)" using resolve_unchanged(2) [OF verify_begun(1)] by (simp add: session_ok_def)
  then have "db_ok (w_db v)" by (rule keepsE [OF begin_verify_ok]) (rule verify_begun(3))
  moreover have "open_task (st_id t) (w_db v)"
    using dbhD_ok [OF begin_verify_open TrueI verify_begun(3)] verify_begun(4) by simp
  ultimately show ?case by (simp add: session_ok_def)
next
  case (verify_refused c tid w s u u1 restart r v)
  then have "db_ok (w_db u1)" using resolve_unchanged(2) [OF verify_refused(1)] by (simp add: session_ok_def)
  then have "db_ok (w_db v)" by (rule keepsE [OF begin_verify_ok]) (rule verify_refused(3))
  then show ?case by (simp add: session_ok_def)
next
  case (verdict c s oid status detail w r v)
  have "db_ok (w_db v) \<and> open_task (st_id s) (w_db v)"
    by (rule keepsE [OF record_verify_ok _ verdict(1)]) (use verdict in \<open>simp add: session_ok_def\<close>)
  then show ?case by (simp add: session_ok_def)
qed (auto simp: session_ok_def dest: keepsE [OF ensure_schema_ok] keepsE [OF bind_task_ok]
    keepsE [OF begin_scan_ok] keepsE [OF insert_scan_ok] keepsE [OF finish_scan_ok]
    keepsE [OF create_subtask_ok] keepsE [OF hold_ok] keepsE [OF complete_purge_ok]
    keepsE [OF complete_verify_ok])

lemma reachable_ok: "reachable H x \<Longrightarrow> session_ok x"
proof (induction rule: reachable.induct)
  case (new_database w)
  then show ?case by (simp add: session_ok_def db_ok_empty)
qed (rule session_preserves)

end
