(* ===== verification/Scenario.thy ===== *)
theory Scenario
  imports Sessions
begin

text \<open>
  One concrete life of a progress database, evaluated step by step: a scan of a single object,
  its task, a deletion run and a verification that completes. It is a reachable state with every
  stage in it, at which the properties about reachable states are applied.
\<close>

definition ex_binding :: binding where
  "ex_binding = \<lparr>b_chain = ''c1'', b_operator = ''0x1'', b_storage = ''aws:eu/m'', b_spdb = ''db/sp'',
     b_bucket = ''limewire'', b_bucket_id = 42268\<rparr>"

definition ex_row :: scan_row where
  "ex_row = \<lparr>sr_oid = 5, sr_payload = 9, sr_status = ''SEALED'', sr_version = 0\<rparr>"

definition ex_hash :: "string \<Rightarrow> string" where
  "ex_hash s = []"

definition ex_world :: "db \<Rightarrow> world" where
  "ex_world d = \<lparr>w_db = d, w_now = 100, w_owner = Some 7, w_lock = Some \<lparr>lk_id = 7, lk_lost = None\<rparr>,
     w_cancelled = [], w_script = []\<rparr>"

definition ex_meta :: "string \<Rightarrow> nat option \<Rightarrow> nat option \<Rightarrow> nat option \<Rightarrow> meta_row" where
  "ex_meta st n rows fin = \<lparr>m_binding = ex_binding, m_status = st, m_bsdb_count = n, m_rows = rows,
     m_finished = fin\<rparr>"

definition ex_list :: db where
  "ex_list = empty_db\<lparr>t_meta := Some (ex_meta ScanComplete (Some 1) (Some 1) (Some 100)), t_scan := [ex_row]\<rparr>"

definition ex_task :: subtask where
  "ex_task = fresh_task 1 100 1 9 []"

definition ex_ready :: db where
  "ex_ready = with_task ex_list ex_task [5]"

definition ex_purging :: subtask where
  "ex_purging = ex_task\<lparr>st_phase := ''PURGE'', st_gen := 2, st_conn := Some 7\<rparr>"

definition ex_result :: progress_row where
  "ex_result = \<lparr>pr_oid = 5, pr_status = 1, pr_keys = 1, pr_bytes = 9, pr_reason = None,
     pr_role = Some ''primary'', pr_expected = Some 9, pr_updated = 100\<rparr>"

definition ex_purged :: subtask where
  "ex_purged = ex_purging\<lparr>st_purged := Some 100\<rparr>"

definition ex_verifying :: subtask where
  "ex_verifying = ex_purged\<lparr>st_phase := ''VERIFY''\<rparr>"

definition ex_pass :: task_object where
  "ex_pass = (new_object 1 5)\<lparr>ob_gen := 2, ob_status := ''PASS'', ob_verified_at := Some 100\<rparr>"

definition ex_finished :: subtask where
  "ex_finished = ex_verifying\<lparr>st_done := Some 100\<rparr>"

definition ex_done :: db where
  "ex_done = ex_ready\<lparr>t_tasks := [ex_finished], t_progress := [ex_result], t_objects := [ex_pass]\<rparr>"

lemmas ex_defs =
  ex_world_def ex_meta_def ex_list_def ex_task_def ex_ready_def ex_purging_def ex_result_def
  ex_purged_def ex_verifying_def ex_pass_def ex_finished_def ex_done_def ex_row_def ex_hash_def
  empty_db_def fresh_task_def with_task_def new_object_def

lemmas run_defs =
  act_defs update_def query_def statement_def ctx_err_def check_lock_def lock_check_def
  transaction_def rolled_back_def Let_def lock_id_def read_task_def subtask_row_def first_row_def
  read_subtask_def tasks_where_def count_if_def

lemma ex_bind: "bind_task LockCtx ex_binding (ex_world empty_db) =
    (Inr (), ex_world (empty_db\<lparr>t_meta := Some (ex_meta ScanNone None None None)\<rparr>))"
  by (simp add: bind_task_def check_binding_def insert_meta_def stored_binding_def ex_binding_def run_defs ex_defs)

lemma ex_begin: "begin_scan LockCtx 1 (ex_world (empty_db\<lparr>t_meta := Some (ex_meta ScanNone None None None)\<rparr>)) =
    (Inr (), ex_world (empty_db\<lparr>t_meta := Some (ex_meta ScanRunning (Some 1) None None)\<rparr>))"
  by (simp add: begin_scan_def scan_status_of_def run_defs ex_defs)

lemma ex_insert: "insert_scan LockCtx [ex_row] (ex_world (empty_db\<lparr>t_meta := Some (ex_meta ScanRunning (Some 1) None None)\<rparr>)) =
    (Inr (), ex_world (empty_db\<lparr>t_meta := Some (ex_meta ScanRunning (Some 1) None None), t_scan := [ex_row]\<rparr>))"
proof -
  have "stored_row ex_row = ex_row" by (simp add: stored_row_def column_int_def ex_row_def)
  then show ?thesis by (simp add: insert_scan_def run_defs ex_defs)
qed

lemma ex_finish: "finish_scan LockCtx 1 (ex_world (empty_db\<lparr>t_meta := Some (ex_meta ScanRunning (Some 1) None None),
    t_scan := [ex_row]\<rparr>)) = (Inr (), ex_world ex_list)"
  by (simp add: finish_scan_def run_defs ex_defs)

lemma ex_create: "create_subtask ex_hash LockCtx 100 10 False (ex_world ex_list) = (Inr ex_task, ex_world ex_ready)"
  by (simp add: create_subtask_def require_complete_scan_def require_no_hold_def resolve_subtask_def
      select_current_def ErrNoRows_def ErrNoCurrentTask_def legacy_results_def allocate_def
      candidates_def unassigned_def select_capacity_def digest_rows_def insert_task_def
      allocate_object_def insert_object_def run_defs ex_defs)

lemma ex_resolve: "resolve_purge LockCtx 0 (ex_world ex_ready) = (Inr ex_task, ex_world ex_ready)"
  by (simp add: resolve_purge_def require_no_hold_def resolve_current_def resolve_subtask_def
      select_current_def ErrNoRows_def deleting_def run_defs ex_defs)

lemma ex_begin_purge: "begin_purge ex_hash LockCtx ex_task (ex_world ex_ready) =
    (Inr (), ex_world (ex_ready\<lparr>t_tasks := [ex_purging]\<rparr>))"
  by (simp add: begin_purge_def require_no_hold_def check_manifest_def ErrNoRows_def manifest_def
      member_rows_def objects_of_def scan_of_def digest_rows_def update_progress_def update_tasks_def
      List.map_filter_def run_defs ex_defs)

lemma ex_credit: "credit 1 9 (fresh_progress 5 100) = Some (fresh_progress 5 100\<lparr>pr_keys := 1, pr_bytes := 9\<rparr>)"
  by (simp add: credit_def fresh_progress_def)

lemma ex_write: "done_stmt 5 1 9 ''primary'' (Some 9) 100 (ex_ready\<lparr>t_tasks := [ex_purging]\<rparr>) =
    Inr ((), ex_ready\<lparr>t_tasks := [ex_purging], t_progress := [ex_result]\<rparr>)"
proof -
  have "progress_of (ex_ready\<lparr>t_tasks := [ex_purging]\<rparr>) 5 = None" "t_progress ex_ready = []"
    by (simp_all add: progress_of_def ex_defs)
  then show ?thesis by (simp add: done_stmt_def upsert_def ex_credit) (simp add: fresh_progress_def ex_result_def)
qed

lemma ex_object: "done_subtask LockCtx 1 5 1 9 ''primary'' (Some 9) (ex_world (ex_ready\<lparr>t_tasks := [ex_purging]\<rparr>)) =
    (Inr (), ex_world (ex_ready\<lparr>t_tasks := [ex_purging], t_progress := [ex_result]\<rparr>))"
proof -
  have "member_query 1 5 (ex_ready\<lparr>t_tasks := [ex_purging]\<rparr>) = Inr ()"
    by (simp add: member_query_def active_member_def ex_defs)
  moreover have "update_objects (\<lambda>o'. ob_task o' = 1 \<and> ob_oid o' = 5)
      (\<lambda>o'. o'\<lparr>ob_gen := 0, ob_status := ''PENDING'', ob_detail := [], ob_verified_at := None\<rparr>)
      (ex_ready\<lparr>t_tasks := [ex_purging], t_progress := [ex_result]\<rparr>) =
      ex_ready\<lparr>t_tasks := [ex_purging], t_progress := [ex_result]\<rparr>"
    by (simp add: update_objects_def ex_defs)
  ultimately show ?thesis
    by (simp add: done_subtask_def run_defs ex_write ex_world_def)
qed

lemma ex_complete_purge: "complete_purge LockCtx ex_task (ex_world (ex_ready\<lparr>t_tasks := [ex_purging], t_progress := [ex_result]\<rparr>)) =
    (Inr (), ex_world (ex_ready\<lparr>t_tasks := [ex_purged], t_progress := [ex_result]\<rparr>))"
  by (simp add: complete_purge_def sub_counts_def read_counts_def objects_of_def progress_of_def
      has_status_def coalesce_def update_tasks_def run_defs ex_defs)

lemma ex_resolve_verify: "resolve_verify LockCtx 0 (ex_world (ex_ready\<lparr>t_tasks := [ex_purged], t_progress := [ex_result]\<rparr>)) =
    (Inr ex_purged, ex_world (ex_ready\<lparr>t_tasks := [ex_purged], t_progress := [ex_result]\<rparr>))"
  by (simp add: resolve_verify_def run_defs ex_defs)

lemma ex_begin_verify: "begin_verify ex_hash LockCtx ex_purged False
      (ex_world (ex_ready\<lparr>t_tasks := [ex_purged], t_progress := [ex_result]\<rparr>)) =
    (Inr ex_verifying, ex_world (ex_ready\<lparr>t_tasks := [ex_verifying], t_progress := [ex_result]\<rparr>))"
  by (simp add: begin_verify_def check_manifest_def manifest_def member_rows_def objects_of_def
      scan_of_def digest_rows_def sub_counts_def read_counts_def progress_of_def has_status_def
      coalesce_def update_tasks_def List.map_filter_def run_defs ex_defs)

lemma ex_record: "record_verify LockCtx ex_verifying 5 ''PASS'' []
      (ex_world (ex_ready\<lparr>t_tasks := [ex_verifying], t_progress := [ex_result]\<rparr>)) =
    (Inr (), ex_world (ex_ready\<lparr>t_tasks := [ex_verifying], t_progress := [ex_result], t_objects := [ex_pass]\<rparr>))"
  by (simp add: record_verify_def update_objects_def run_defs ex_defs)

lemma ex_complete_verify: "complete_verify LockCtx ex_verifying
      (ex_world (ex_ready\<lparr>t_tasks := [ex_verifying], t_progress := [ex_result], t_objects := [ex_pass]\<rparr>)) =
    (Inr (), ex_world ex_done)"
  by (simp add: complete_verify_def sub_counts_def read_counts_def objects_of_def progress_of_def
      has_status_def current_verdict_def update_tasks_def run_defs ex_defs)

text \<open>The stages are reachable.\<close>

lemma ex_list_reachable: "reachable ex_hash (Idle, ex_world ex_list)"
proof -
  have "reachable ex_hash (Idle, ex_world empty_db)"
    by (rule new_database) (simp add: ex_world_def)
  from step [OF step [OF step [OF step [OF this bound [OF ex_bind]] scan_begun [OF ex_begin]]
          scan_inserted [OF ex_insert]] scan_finished [OF ex_finish]]
  show ?thesis .
qed

lemma ex_ready_reachable: "reachable ex_hash (Idle, ex_world ex_ready)"
  by (rule step [OF ex_list_reachable created [OF ex_create]])

lemma ex_purging_reachable: "reachable ex_hash (Purging 1, ex_world (ex_ready\<lparr>t_tasks := [ex_purging]\<rparr>))"
proof -
  have "st_id ex_task = 1" by (simp add: ex_defs)
  then show ?thesis
    using step [OF ex_ready_reachable purge_begun [OF ex_resolve refl ex_begin_purge]] by simp
qed

lemma ex_verifying_reachable:
  "reachable ex_hash (Verifying ex_verifying, ex_world (ex_ready\<lparr>t_tasks := [ex_verifying], t_progress := [ex_result]\<rparr>))"
proof -
  have ids: "st_id ex_task = 1" "st_done ex_verifying = None" by (simp_all add: ex_defs)
  have "reachable ex_hash (Purging 1, ex_world (ex_ready\<lparr>t_tasks := [ex_purging], t_progress := [ex_result]\<rparr>))"
    by (rule step [OF ex_purging_reachable object_done [OF ex_object]])
  then have "reachable ex_hash (Idle, ex_world (ex_ready\<lparr>t_tasks := [ex_purged], t_progress := [ex_result]\<rparr>))"
    by (rule step) (rule purge_ended [OF ex_complete_purge ids(1)])
  then show ?thesis by (rule step) (rule verify_begun [OF ex_resolve_verify refl ex_begin_verify ids(2)])
qed

lemma ex_done_reachable: "reachable ex_hash (Idle, ex_world ex_done)"
proof -
  have "reachable ex_hash (Verifying ex_verifying,
      ex_world (ex_ready\<lparr>t_tasks := [ex_verifying], t_progress := [ex_result], t_objects := [ex_pass]\<rparr>))"
    by (rule step [OF ex_verifying_reachable verdict [OF ex_record]])
  then show ?thesis by (rule step) (rule verify_ended [OF ex_complete_verify])
qed

end
