(* ===== verification/Status.thy ===== *)
theory Status
  imports Sessions
begin

text \<open>
  \<^verbatim>\<open>runStatus\<close> of \<^verbatim>\<open>cmd/limewire-purge/main.go\<close>: the numbers it prints, read in its order, and
  the decision behind \<^verbatim>\<open>ALL_DONE\<close>. It takes no lock; the lemmas here are about an undisturbed
  read. What is printed is the record \<open>status\<close>, the formatting is left out.
\<close>

section \<open>Reading the owner of the lock\<close>

text \<open>\<^verbatim>\<open>LockOwner\<close> of \<^verbatim>\<open>internal/progress/lock.go\<close>: the database name, then the owner.\<close>

definition lock_owner :: "ctx \<Rightarrow> (world, i64 option) act" where
  "lock_owner c = bindA (query c (\<lambda>d. Inr ())) (\<lambda>_. statement c (getA w_owner))"

section \<open>The decision\<close>

text \<open>\<open>m_rows\<close> is a signed number in Go; the column holds what \<open>finish_scan\<close> wrote.\<close>

definition completed_nonempty_scan :: "meta_row \<Rightarrow> nat \<Rightarrow> bool" where
  "completed_nonempty_scan t completed \<longleftrightarrow>
     m_status t = ScanComplete \<and> m_rows t \<noteq> None \<and> the (m_rows t) > 0 \<and> completed > 0"

definition all_done :: "meta_row \<Rightarrow> u64 \<Rightarrow> nat \<Rightarrow> nat \<Rightarrow> nat \<Rightarrow> nat \<Rightarrow> bool \<Rightarrow> bool" where
  "all_done t total_rows verified un df unfinished locked \<longleftrightarrow>
     completed_nonempty_scan t verified \<and> total_rows > 0 \<and> un = 0 \<and> df = 0 \<and> unfinished = 0 \<and> \<not> locked"

section \<open>The stages of the tasks\<close>

record stage_counts =
  g_unfinished :: nat
  g_completed :: nat
  g_exceptions :: nat
  g_deleted :: nat
  g_deleting :: nat
  g_awaiting :: nat

definition no_stages :: stage_counts where
  "no_stages = \<lparr>g_unfinished = 0, g_completed = 0, g_exceptions = 0, g_deleted = 0, g_deleting = 0,
     g_awaiting = 0\<rparr>"

definition count_stage :: "subtask \<Rightarrow> stage_counts \<Rightarrow> stage_counts" where
  "count_stage s g =
     (if st_purged s \<noteq> None
      then (let g = g\<lparr>g_deleted := g_deleted g + 1\<rparr> in
            if st_done s = None then g\<lparr>g_awaiting := g_awaiting g + 1\<rparr> else g)
      else if st_done s = None then g\<lparr>g_deleting := g_deleting g + 1\<rparr> else g)"

fun count_stages :: "ctx \<Rightarrow> subtask list \<Rightarrow> stage_counts \<Rightarrow> (world, stage_counts) act" where
  "count_stages c [] g = ret g"
| "count_stages c (s # ss) g =
     (let g = count_stage s g in
      if st_done s \<noteq> None
      then bindA (sub_counts c (st_id s)) (\<lambda>n.
             count_stages c ss (g\<lparr>g_completed := g_completed g + 1,
               g_exceptions := g_exceptions g + (if c_deferred n > 0 then 1 else 0)\<rparr>))
      else count_stages c ss (g\<lparr>g_unfinished := g_unfinished g + 1\<rparr>))"

section \<open>The command\<close>

record shown_task =
  sh_task :: subtask
  sh_state :: string
  sh_counts :: sub_counts
  sh_report :: "report_row list"

text \<open>\<^verbatim>\<open>printSubtask\<close> (\<^verbatim>\<open>cmd/limewire-purge/tasks.go\<close>) with the first rows of the report.\<close>

definition show_task :: "ctx \<Rightarrow> nat \<Rightarrow> i64 option \<Rightarrow> subtask \<Rightarrow> (world, shown_task) act" where
  "show_task c limit owner s =
     bindA (sub_counts c (st_id s)) (\<lambda>n.
     bindA (verify_report c s) (\<lambda>rows.
     ret \<lparr>sh_task = s, sh_state = sub_state s n (locked_by s owner), sh_counts = n,
          sh_report = take limit rows\<rparr>))"

fun show_tasks :: "ctx \<Rightarrow> nat \<Rightarrow> u64 \<Rightarrow> i64 option \<Rightarrow> subtask list \<Rightarrow> (world, shown_task list) act" where
  "show_tasks c limit tid owner [] = ret []"
| "show_tasks c limit tid owner (s # ss) =
     (if tid = 0 \<and> st_done s \<noteq> None then show_tasks c limit tid owner ss
      else bindA (show_task c limit owner s) (\<lambda>x.
           bindA (show_tasks c limit tid owner ss) (\<lambda>xs. ret (x # xs))))"

record status =
  su_meta :: "meta_row option"
  su_counts :: counts
  su_mismatches :: "string list"
  su_failures :: "string list"
  su_owner :: "i64 option"
  su_stages :: stage_counts
  su_tasks :: "shown_task list"
  su_unassigned :: nat
  su_deferred :: nat
  su_all_done :: bool
  su_empty_warning :: bool

text \<open>\<open>b\<close> is the binding of the configuration file, where one is given.\<close>

definition run_status :: "ctx \<Rightarrow> binding option \<Rightarrow> nat \<Rightarrow> u64 \<Rightarrow> (world, status) act" where
  "run_status c b limit tid =
     bindA (case b of None \<Rightarrow> ret () | Some x \<Rightarrow> check_binding c x) (\<lambda>_.
     bindA (read_task c) (\<lambda>t.
     bindA (read_all_counts c) (\<lambda>cnt.
     bindA (if n_mismatch cnt > 0 then mismatches c limit else ret []) (\<lambda>mm.
     bindA (if n_failed cnt > 0 then failures c limit else ret []) (\<lambda>fails.
     bindA (lock_owner c) (\<lambda>owner.
     bindA (subtasks c) (\<lambda>tasks.
     bindA (count_stages c tasks no_stages) (\<lambda>g.
     bindA (if tid \<noteq> 0 then bindA (subtask_row c tid) (\<lambda>s. ret [s]) else ret tasks) (\<lambda>shown.
     bindA (show_tasks c limit tid owner shown) (\<lambda>lines.
     bindA (outstanding c) (\<lambda>(un, df).
     ret \<lparr>su_meta = t, su_counts = cnt, su_mismatches = mm, su_failures = fails, su_owner = owner,
          su_stages = g, su_tasks = lines, su_unassigned = un, su_deferred = df,
          su_all_done = (tid = 0 \<and> (case t of None \<Rightarrow> False | Some m \<Rightarrow>
            all_done m (n_total cnt) (g_completed g) un df (g_unfinished g) (owner \<noteq> None))),
          su_empty_warning = (case t of None \<Rightarrow> False | Some m \<Rightarrow> m_status m = ScanComplete \<and>
            (m_rows m = None \<or> m_rows m = Some 0 \<or> n_total cnt = 0))\<rparr>)))))))))))"

section \<open>Lemmas\<close>

lemma same_query: "dbh (\<lambda>d. d = d0) (query c q) (\<lambda>x d. d = d0 \<and> q d0 = Inr x) (\<lambda>_ d. d = d0)"
  by (rule dbh_query) auto

lemma same_keeps: "(\<And>I. keeps I m) \<Longrightarrow> dbh (\<lambda>d. d = d0) m (\<lambda>_ d. d = d0) (\<lambda>_ d. d = d0)"
  by (rule dbh_weaken [of "\<lambda>d. d = d0" m "\<lambda>_ d. d = d0" "\<lambda>_ d. d = d0"]) auto

lemma keeps_lock_owner [keeps_rules]: "keeps I (lock_owner c)"
proof -
  have "keeps I (statement c (getA w_owner))"
    by (rule dbhI) (auto simp: getA_def dest!: statement_cases)
  then show ?thesis unfolding lock_owner_def by (intro keeps_rules)
qed

lemma count_stages_unfinished:
  "dbh P (count_stages c ss g)
     (\<lambda>g' d. P d \<and> g_unfinished g' = g_unfinished g + count_if (\<lambda>s. st_done s = None) ss) (\<lambda>_. P)"
proof (induction ss arbitrary: g)
  case Nil
  then show ?case by (auto simp: count_if_def intro!: dbh_ret)
next
  case (Cons s ss)
  have g: "g_unfinished (count_stage s g) = g_unfinished g"
    by (simp add: count_stage_def Let_def)
  show ?case
  proof (cases "st_done s = None")
    case True
    then show ?thesis
      by (auto simp: Let_def g count_if_def intro!: dbh_weaken [OF Cons.IH])
  next
    case False
    then show ?thesis
      by (auto simp: Let_def g count_if_def sub_counts_def
          intro!: dbh_bind [OF dbh_query [where Q = "\<lambda>_. P" and P = P]] dbh_weaken [OF Cons.IH])
  qed
qed

lemma keeps_status_reads [keeps_rules]:
  "keeps I (mismatches c limit)" "keeps I (failures c limit)" "keeps I (verify_report c s)"
  "keeps I (subtasks c)"
  unfolding mismatches_def failures_def verify_report_def subtasks_def by (rule keeps_query)+

lemma keeps_check_binding [keeps_rules]: "keeps I (check_binding c b)"
  unfolding check_binding_def by (intro keeps_rules) (auto simp: Let_def intro!: keeps_rules)

lemma keeps_show_tasks [keeps_rules]: "keeps I (show_tasks c limit tid owner ss)"
proof (induction ss)
  case (Cons s ss)
  then show ?case by (auto simp: show_task_def intro!: keeps_rules)
qed (auto intro: keeps_rules)

text \<open>What a positive decision has seen of the tables.\<close>

definition all_accounted :: "db \<Rightarrow> bool" where
  "all_accounted d \<longleftrightarrow>
     t_scan d \<noteq> [] \<and> (\<forall>t\<in>set (t_tasks d). st_done t \<noteq> None) \<and>
     (\<forall>s\<in>set (t_scan d). \<not> unassigned d s) \<and>
     (\<forall>o'\<in>set (t_objects d). newest d o' \<longrightarrow> \<not> ob_deferred o')"

lemma run_status_accounted:
  "dbh (\<lambda>d. d = d0) (run_status c b limit tid)
     (\<lambda>st d. d = d0 \<and> (su_all_done st \<longrightarrow> all_accounted d0)) (\<lambda>_ d. d = d0)"
proof -
  let ?E = "\<lambda>_ d. d = d0" and ?S = "\<lambda>d. d = d0"
  have cnt: "dbh ?S (read_all_counts c) (\<lambda>cnt d. d = d0 \<and> n_total cnt = of_nat (length (t_scan d0))) ?E"
    unfolding read_all_counts_def
  proof (rule dbh_bind [OF same_query])
    fix x show "dbh (\<lambda>d. d = d0 \<and> scan_totals d0 = Inr x)
       (case x of (total_rows, scan_bytes) \<Rightarrow> query c (\<lambda>d. read_totals d total_rows scan_bytes))
       (\<lambda>cnt d. d = d0 \<and> n_total cnt = of_nat (length (t_scan d0))) ?E"
    proof (rule dbh_pure)
      assume "scan_totals d0 = Inr x"
      then show "dbh ?S (case x of (total_rows, scan_bytes) \<Rightarrow> query c (\<lambda>d. read_totals d total_rows scan_bytes))
       (\<lambda>cnt d. d = d0 \<and> n_total cnt = of_nat (length (t_scan d0))) ?E"
        by (auto simp: scan_totals_def read_totals_def Let_def
            split: if_splits sum.splits prod.splits intro!: dbh_weaken [OF same_query])
    qed
  qed
  have tasks: "dbh ?S (subtasks c) (\<lambda>ts d. d = d0 \<and> ts = tasks_where (\<lambda>_. True) d0) ?E"
    unfolding subtasks_def by (rule dbh_weaken [OF same_query]) (auto dest: read_all_cases)
  have out: "dbh ?S (outstanding c) (\<lambda>p d. d = d0 \<and> p = (count_if (unassigned d0) (t_scan d0),
      count_if (\<lambda>o'. ob_deferred o' \<and> newest d0 o') (t_objects d0))) ?E"
    unfolding outstanding_def
    by (rule dbh_bind [OF same_query], rule dbh_pure, rule dbh_bind [OF same_query], rule dbh_pure, rule dbh_ret)
      auto
  have fin: "all_accounted d0" if "all_done m (of_nat (length (t_scan d0))) k
      (count_if (unassigned d0) (t_scan d0)) (count_if (\<lambda>o'. ob_deferred o' \<and> newest d0 o') (t_objects d0))
      (count_if (\<lambda>s. st_done s = None) (tasks_where (\<lambda>_. True) d0)) l" for m k l
    using that unfolding all_done_def all_accounted_def count_if_def
    by (auto simp: filter_empty_conv)
  show ?thesis
    unfolding run_status_def
    apply (rule dbh_bind [OF same_keeps], intro keeps_rules)
    apply (rule dbh_bind [OF same_keeps], intro keeps_rules)
    apply (rule dbh_bind [OF cnt], rule dbh_pure)
    apply (rule dbh_bind [OF same_keeps], intro keeps_rules)
    apply (rule dbh_bind [OF same_keeps], intro keeps_rules)
    apply (rule dbh_bind [OF same_keeps], intro keeps_rules)
    apply (rule dbh_bind [OF tasks], rule dbh_pure)
    apply (rule dbh_bind [OF count_stages_unfinished], rule dbh_pure)
    apply (rule dbh_bind [OF same_keeps], intro keeps_rules)
    apply (rule dbh_bind [OF same_keeps], intro keeps_rules)
    apply (rule dbh_bind [OF out], rule dbh_pure)
    apply (auto simp: no_stages_def split: option.splits intro!: dbh_ret dest: fin)
    done
qed

text \<open>With the invariant: every listed object is deleted and verified by a task that is done.\<close>

definition verified_object :: "db \<Rightarrow> u64 \<Rightarrow> bool" where
  "verified_object d oid \<longleftrightarrow>
     (\<exists>t\<in>set (t_tasks d). st_done t \<noteq> None \<and>
        (\<exists>o'\<in>set (t_objects d). ob_task o' = st_id t \<and> ob_oid o' = oid \<and> \<not> ob_deferred o' \<and>
           passed d (st_gen t) o'))"

lemma newest_member:
  assumes "o1 \<in> set (t_objects d)"
  shows "\<exists>o2\<in>set (t_objects d). ob_oid o2 = ob_oid o1 \<and> newest d o2"
proof -
  let ?S = "{o2 \<in> set (t_objects d). ob_oid o2 = ob_oid o1}"
  have "finite (ob_task ` ?S)" "ob_task ` ?S \<noteq> {}" using assms by auto
  then obtain m where m: "m \<in> ob_task ` ?S" "\<forall>k\<in>ob_task ` ?S. k \<le> m"
    by (meson Max_ge Max_in)
  then obtain o2 where "o2 \<in> ?S" "ob_task o2 = m" by auto
  then show ?thesis using m by (fastforce simp: newest_def list_ex_iff)
qed

lemma accounted_verified:
  assumes "db_ok d" "all_accounted d" "s \<in> set (t_scan d)"
  shows "verified_object d (sr_oid s)"
proof -
  obtain o1 where "o1 \<in> set (t_objects d)" "ob_oid o1 = sr_oid s"
    using assms by (auto simp: all_accounted_def unassigned_def list_ex_iff)
  then obtain o2 where o2: "o2 \<in> set (t_objects d)" "ob_oid o2 = sr_oid s" "newest d o2"
    using newest_member by metis
  then have nd: "\<not> ob_deferred o2" using assms(2) by (auto simp: all_accounted_def)
  obtain t where t: "t \<in> set (t_tasks d)" "ob_task o2 = st_id t"
    using db_okD(1) [OF assms(1)] o2(1) by (auto simp: keys_ok_def list_all_iff)
  have "st_done t \<noteq> None" using assms(2) t by (auto simp: all_accounted_def)
  moreover from this have "passed d (st_gen t) o2"
    using db_okD(2) [OF assms(1) t(1)] certifiedD [OF _ o2(1) t(2) nd] by (auto simp: task_ok_def)
  ultimately show ?thesis using o2 nd t unfolding verified_object_def by blast
qed

end
