(* ===== verification/Guarantees.thy ===== *)
theory Guarantees
  imports Scenario Status
begin

text \<open>
  What the progress database promises, under any sequence of commands and faults: consistency,
  the meaning of a task that is done and of \<^verbatim>\<open>ALL_DONE\<close>, the all-or-nothing allocation of a
  task, and the rules of a safety hold.
\<close>

section \<open>Lemmas\<close>

lemma no_hold_blocks:
  assumes "\<exists>t\<in>set (t_tasks d0). st_hold t \<noteq> []"
  shows "dbh (\<lambda>d. d = d0) (require_no_hold c) (\<lambda>_ _. False) (\<lambda>_ d. d = d0)"
  by (rule dbh_weaken [OF require_no_hold_spec]) (use assms in auto)

lemma unchanged_step:
  assumes "\<And>I. keeps I m" "\<And>x. dbh (\<lambda>d. d = d0) (f x) Q (\<lambda>_ d. d = d0)"
  shows "dbh (\<lambda>d. d = d0) (bindA m f) Q (\<lambda>_ d. d = d0)"
  by (rule dbh_bind [OF same_keeps [OF assms(1)] assms(2)])

lemma blocked_step:
  "dbh P m (\<lambda>_ _. False) E \<Longrightarrow> dbh P (bindA m f) Q E"
  by (rule dbh_bind, assumption) (auto intro: dbhI)

text \<open>The members of a task that are neither deferred nor recorded as deleted.\<close>

lemma counts_deleted:
  assumes "keys_ok d" "t \<in> set (t_tasks d)" "read_counts d (st_id t) = Inr n"
    and "c_pending n + c_failed n = 0"
  shows "list_all (\<lambda>o'. \<not> undeleted d o') (objects_of d (st_id t))"
proof -
  let ?rows = "objects_of d (st_id t)"
  have n: "c_pending n = count_if (\<lambda>o'. \<not> ob_deferred o' \<and> \<not> has_status 1 (progress_of d (ob_oid o')) \<and>
       \<not> has_status 2 (progress_of d (ob_oid o'))) ?rows"
    "c_failed n = count_if (\<lambda>o'. \<not> ob_deferred o' \<and> has_status 2 (progress_of d (ob_oid o'))) ?rows"
    using assms(1-3) by (auto simp: read_counts_def find_task Let_def split: if_splits)
  then show ?thesis
    using assms(4) by (auto simp: undeleted_def list_all_iff count_if_def filter_empty_conv)
qed

definition all_deleted :: "u64 \<Rightarrow> db \<Rightarrow> bool" where
  "all_deleted tid d \<longleftrightarrow> list_all (\<lambda>o'. \<not> undeleted d o') (objects_of d tid)"

lemma all_deleted_update_tasks [simp]: "all_deleted tid (update_tasks R h d) = all_deleted tid d"
  by (simp add: all_deleted_def undeleted_def)

lemma read_counts_no_task:
  "keys_ok d \<Longrightarrow> \<not> (\<exists>t\<in>set (t_tasks d). st_id t = tid) \<Longrightarrow> read_counts d tid = Inr zero_counts"
  by (auto simp: read_counts_def find_None_iff split: option.splits dest!: find_in)

lemma complete_purge_counts:
  "dbh (\<lambda>d. d = d0 \<and> keys_ok d0) (complete_purge c s)
     (\<lambda>_ d. all_deleted (st_id s) d \<and> t_objects d = t_objects d0 \<and>
        list_ex (\<lambda>t. st_id t = st_id s \<and> st_purged t \<noteq> None \<and> st_done t = None \<and> st_hold t = []) (t_tasks d))
     (\<lambda>_ _. True)"
proof -
  let ?sure = "\<lambda>n d. d = d0 \<and> keys_ok d0 \<and> read_counts d (st_id s) = Inr n"
  let ?guard = "\<lambda>n. c_total n \<noteq> 0 \<and> c_pending n + c_failed n = 0"
  let ?I = "\<lambda>d. all_deleted (st_id s) d \<and> t_objects d = t_objects d0"
  have counts: "dbh (\<lambda>d. d = d0 \<and> keys_ok d0) (sub_counts c (st_id s)) ?sure (\<lambda>_ _. True)"
    unfolding sub_counts_def by (rule dbh_query) auto
  have guard: "dbh (?sure n) (failIf (c_total n = 0 \<or> c_total n \<noteq> st_objects s \<or> c_pending n + c_failed n > 0) e)
      (\<lambda>_ d. ?sure n d \<and> ?guard n) (\<lambda>_ _. True)" for n e
    by (rule dbh_failIf) auto
  have deleted: "all_deleted (st_id s) d0" if "?sure n d0" "?guard n" for n
  proof -
    have "\<exists>t\<in>set (t_tasks d0). st_id t = st_id s"
    proof (rule ccontr)
      assume "\<not> ?thesis"
      then have "n = zero_counts" using that read_counts_no_task [of d0 "st_id s"] by simp
      then show False using that by (simp add: zero_counts_def)
    qed
    then obtain t where t: "t \<in> set (t_tasks d0)" "st_id t = st_id s" by blast
    show ?thesis using counts_deleted [OF _ t(1), of n] that t(2) by (simp add: all_deleted_def)
  qed
  have mark: "dbh (\<lambda>d. ?sure n d \<and> ?guard n) (exec c (\<lambda>now. update_tasks R (h now))) (\<lambda>_. ?I) (\<lambda>_ _. True)"
    for n R and h :: "nat \<Rightarrow> subtask \<Rightarrow> subtask"
    by (rule dbh_update) (use deleted in auto)
  have row: "dbh ?I (subtask_row c (st_id s)) (\<lambda>t d. ?I d \<and> t \<in> set (t_tasks d) \<and> st_id t = st_id s) (\<lambda>_ _. True)"
  proof (rule dbhI)
    fix w t v assume w: "?I (w_db w)" and run: "subtask_row c (st_id s) w = (Inr t, v)"
    show "?I (w_db v) \<and> t \<in> set (t_tasks (w_db v)) \<and> st_id t = st_id s"
      using dbhD_ok [OF subtask_row_spec refl run] w by simp
  qed simp
  show ?thesis
    unfolding complete_purge_def
    apply (rule dbh_bind, rule dbh_check_lock [where Q = "\<lambda>_ d. d = d0 \<and> keys_ok d0"], simp, simp)
    apply (rule dbh_bind [OF counts], rule dbh_bind [OF guard], rule dbh_bind [OF mark], rule dbh_bind [OF row])
    apply (rule dbh_failIf)
     apply (auto simp: list_ex_iff)
    done
qed

section \<open>Properties\<close>

text \<open>C7. In every reachable state, after any sequence of commands, crashes, lost replies, rolled
  back transactions and lost locks: task numbers are unique, at most one task is in its first
  deletion pass, no object is held undeferred by two tasks, every member of a task is a listed
  object, the frozen object count of a task is its number of members, and tasks only exist over a
  sealed list.\<close>

theorem database_consistent:
  assumes "reachable H (m, w)"
  shows "distinct (map st_id (t_tasks (w_db w))) \<and>
     length (filter deleting (t_tasks (w_db w))) \<le> 1 \<and>
     list_all (\<lambda>a. list_all (\<lambda>b. ob_oid a = ob_oid b \<and> \<not> ob_deferred a \<and> \<not> ob_deferred b \<longrightarrow> a = b)
       (t_objects (w_db w))) (t_objects (w_db w)) \<and>
     list_all (\<lambda>o'. ob_oid o' \<in> sr_oid ` set (t_scan (w_db w))) (t_objects (w_db w)) \<and>
     list_all (\<lambda>t. st_objects t = length (objects_of (w_db w) (st_id t))) (t_tasks (w_db w)) \<and>
     (t_tasks (w_db w) \<noteq> [] \<longrightarrow> scan_status_of (t_meta (w_db w)) = ScanComplete)"
proof -
  have ok: "db_ok (w_db w)" using reachable_ok [OF assms] by (simp add: session_ok_def)
  show ?thesis
    using db_okD [OF ok] active_unique [OF ok]
    by (auto simp: list_all_iff keys_ok_def task_ok_def sealed_def)
qed

theorem database_consistent_witness:
  "distinct (map st_id (t_tasks ex_done)) \<and> length (filter deleting (t_tasks ex_done)) \<le> 1"
  using database_consistent [OF ex_done_reachable] by (simp add: ex_world_def)

text \<open>C2. A task that is marked done was deleted and verified: in every reachable state it is
  deletion-complete, carries no hold, and each of its undeferred members is recorded as deleted and
  has a PASS in the task's current verification generation.\<close>

theorem done_is_verified:
  assumes "reachable H (m, w)" "t \<in> set (t_tasks (w_db w))" "st_done t \<noteq> None"
  shows "st_purged t \<noteq> None \<and> st_hold t = [] \<and>
     list_all (\<lambda>o'. ob_deferred o' \<or> (ob_gen o' = st_gen t \<and> ob_status o' = ''PASS'' \<and>
        has_status 1 (progress_of (w_db w) (ob_oid o')))) (objects_of (w_db w) (st_id t))"
proof -
  have "db_ok (w_db w)" using reachable_ok [OF assms(1)] by (simp add: session_ok_def)
  then show ?thesis
    using db_okD(2) assms(2,3) by (auto simp: task_ok_def certified_def passed_def list_all_iff)
qed

theorem done_is_verified_witness:
  "st_purged ex_finished \<noteq> None \<and> st_hold ex_finished = [] \<and>
   list_all (\<lambda>o'. ob_deferred o' \<or> (ob_gen o' = st_gen ex_finished \<and> ob_status o' = ''PASS'' \<and>
        has_status 1 (progress_of (w_db (ex_world ex_done)) (ob_oid o'))))
     (objects_of (w_db (ex_world ex_done)) (st_id ex_finished))"
  by (rule done_is_verified [OF ex_done_reachable]) (simp_all add: ex_defs)

text \<open>C1. \<^verbatim>\<open>ALL_DONE\<close> is never wrong: when an undisturbed \<^verbatim>\<open>status\<close> prints it in a reachable
  state, the list is not empty and every listed object, without exception, is an undeferred member
  of a done task, recorded as deleted and passed in that task's current generation.\<close>

theorem all_done_sound:
  assumes "reachable H (m, w)" "run_status c b limit tid w = (Inr st, v)" "su_all_done st"
  shows "t_scan (w_db w) \<noteq> [] \<and> list_all (\<lambda>s. verified_object (w_db w) (sr_oid s)) (t_scan (w_db w))"
proof -
  have ok: "db_ok (w_db w)" using reachable_ok [OF assms(1)] by (simp add: session_ok_def)
  have "all_accounted (w_db w)"
    using dbhD_ok [OF run_status_accounted refl assms(2)] assms(3) by simp
  then show ?thesis
    using accounted_verified [OF ok] by (auto simp: list_all_iff all_accounted_def)
qed

definition ex_idle :: world where
  "ex_idle = (ex_world ex_done)\<lparr>w_owner := None, w_lock := None\<rparr>"

lemma ex_idle_reachable: "reachable ex_hash (Idle, ex_idle)"
  by (rule step [OF ex_done_reachable command_ends]) (simp add: ex_idle_def ex_world_def)

lemma ex_status:
  "\<exists>st v. run_status OperatorCtx None 20 0 ex_idle = (Inr st, v) \<and> su_all_done st"
  by (simp add: run_status_def read_all_counts_def scan_totals_def read_totals_def progress_totals_def
      size_mismatch_def lock_owner_def subtasks_def count_stage_def sub_counts_def read_counts_def
      objects_of_def progress_of_def has_status_def outstanding_def unassigned_def
      all_done_def completed_nonempty_scan_def no_stages_def ex_idle_def run_defs ex_defs)

theorem all_done_sound_witness:
  "t_scan (w_db ex_idle) \<noteq> [] \<and>
   list_all (\<lambda>s. verified_object (w_db ex_idle) (sr_oid s)) (t_scan (w_db ex_idle))"
  using ex_status all_done_sound [OF ex_idle_reachable] by blast

text \<open>C8. Allocation is all or nothing. Whatever the environment does during \<^verbatim>\<open>task create\<close>, the
  tables afterwards are unchanged up to a gap in the task numbers, or hold exactly one new task in
  phase READY over a non-empty prefix of the sorted candidates within the requested capacity, with
  one fresh membership per object; success returns the unfinished task that already existed, or the
  new one. A task is only allocated over a sealed list, with no safety hold and no task in its
  first deletion pass.\<close>

theorem create_all_or_nothing:
  "dbh (\<lambda>d. d = d0 \<and> db_ok d0) (create_subtask H c target limit retry)
     (\<lambda>s d. (d = d0 \<and> s \<in> set (t_tasks d0) \<and> deleting s) \<or>
        (created_from H target limit retry d0 (st_id s) d \<and> s \<in> set (t_tasks d)))
     (\<lambda>_ d. gap_only d0 d \<or> (\<exists>k. created_from H target limit retry d0 k d))"
  by (rule dbh_pure) (rule create_subtask_spec)

text \<open>C9. A safety hold on any task blocks the deletion path: with a hold anywhere, no task is
  created, no task is resolved for purging and no deletion run begins; each fails and changes
  nothing.\<close>

theorem hold_blocks_deletion:
  "dbh (\<lambda>d. d = d0 \<and> list_ex (\<lambda>t. st_hold t \<noteq> []) (t_tasks d0)) (create_subtask H c target limit retry)
     (\<lambda>_ _. False) (\<lambda>_ d. d = d0) \<and>
   dbh (\<lambda>d. d = d0 \<and> list_ex (\<lambda>t. st_hold t \<noteq> []) (t_tasks d0)) (resolve_purge c tid)
     (\<lambda>_ _. False) (\<lambda>_ d. d = d0) \<and>
   dbh (\<lambda>d. d = d0 \<and> list_ex (\<lambda>t. st_hold t \<noteq> []) (t_tasks d0)) (begin_purge H c s)
     (\<lambda>_ _. False) (\<lambda>_ d. d = d0)"
proof (intro conjI)
  let ?held = "list_ex (\<lambda>t. st_hold t \<noteq> []) (t_tasks d0)"
  have stop: "dbh (\<lambda>d. d = d0) (bindA (require_no_hold c) f) (\<lambda>_ _. False) (\<lambda>_ d. d = d0)"
    if ?held for f :: "unit \<Rightarrow> (world, 'a) act"
    by (rule blocked_step, rule no_hold_blocks) (use that in \<open>auto simp: list_ex_iff\<close>)
  show "dbh (\<lambda>d. d = d0 \<and> ?held) (create_subtask H c target limit retry) (\<lambda>_ _. False) (\<lambda>_ d. d = d0)"
    unfolding create_subtask_def
    by (rule dbh_pure, rule unchanged_step, intro keeps_rules, rule unchanged_step, intro keeps_rules,
        rule unchanged_step, intro keeps_rules, erule stop)
  show "dbh (\<lambda>d. d = d0 \<and> ?held) (resolve_purge c tid) (\<lambda>_ _. False) (\<lambda>_ d. d = d0)"
    unfolding resolve_purge_def by (rule dbh_pure, erule stop)
  show "dbh (\<lambda>d. d = d0 \<and> ?held) (begin_purge H c s) (\<lambda>_ _. False) (\<lambda>_ d. d = d0)"
    unfolding begin_purge_def
    by (rule dbh_pure, rule unchanged_step, intro keeps_rules, rule unchanged_step, intro keeps_rules, erule stop)
qed

text \<open>Deletion-complete means deleted: when \<^verbatim>\<open>CompletePurge\<close> succeeds, the task is
  deletion-complete, not done and not held, and every member of it is deferred or recorded as
  deleted; the memberships are unchanged.\<close>

lemma complete_purge_sound:
  "dbh (\<lambda>d. d = d0 \<and> keys_ok d0) (complete_purge c s)
     (\<lambda>_ d. list_all (\<lambda>o'. ob_deferred o' \<or> has_status 1 (progress_of d (ob_oid o'))) (objects_of d (st_id s)) \<and>
        t_objects d = t_objects d0 \<and>
        list_ex (\<lambda>t. st_id t = st_id s \<and> st_purged t \<noteq> None \<and> st_done t = None \<and> st_hold t = []) (t_tasks d))
     (\<lambda>_ _. True)"
  by (rule dbh_weaken [OF complete_purge_counts])
    (auto simp: all_deleted_def undeleted_def list_all_iff)

end
