(* ===== verification/PieceKey.thy ===== *)
theory PieceKey
  imports GoStrings
begin

text \<open>
  The piece-key layout, \<^verbatim>\<open>internal/pieceop/key.go\<close>: \<open>prefixes\<close>, the record \<open>piece\<close>, its
  rendering \<open>piece_key\<close>, the strict parser \<open>parse_piece\<close> and the split \<open>keep_only\<close>. The lemmas
  say that the parser accepts exactly the rendered keys, that the prefix of an object covers its
  pieces and no other object's, and what \<open>keep_only\<close> keeps.
\<close>

section \<open>Definitions\<close>

text \<open>The two list prefixes of one object, index 0 the primary one.\<close>

definition prefixes :: "u64 \<Rightarrow> string list" where
  "prefixes oid =
     (let s = dec (unat oid) in [''s'' @ s @ ''_'', ''e'' @ s @ ''_''])"

record piece =
  p_oid :: u64
  p_segment :: u32
  p_secondary :: bool
  p_redundancy :: u32
  p_version :: i64

definition no_piece :: piece where
  "no_piece = \<lparr>p_oid = 0, p_segment = 0, p_secondary = False, p_redundancy = 0, p_version = 0\<rparr>"

definition piece_key :: "piece \<Rightarrow> string" where
  "piece_key p =
     (let k = (if p_secondary p
               then ''e'' @ dec (unat (p_oid p)) @ ''_s'' @ dec (unat (p_segment p)) @
                    ''_p'' @ dec (unat (p_redundancy p))
               else ''s'' @ dec (unat (p_oid p)) @ ''_s'' @ dec (unat (p_segment p)))
      in if p_version p \<noteq> 0 then k @ ''_v'' @ dec_int (sint (p_version p)) else k)"

text \<open>The local closure \<^verbatim>\<open>num\<close>: a tag byte, then a number of the given width.\<close>

definition key_num :: "string \<Rightarrow> char \<Rightarrow> nat \<Rightarrow> nat option" where
  "key_num s tag bits =
     (if length s < 2 \<or> s ! 0 \<noteq> tag then None else parse_uint bits (drop 1 s))"

text \<open>\<^verbatim>\<open>Parse\<close>: \<open>None\<close> is \<^verbatim>\<open>(Piece{}, false)\<close>.\<close>

definition parse_piece :: "string \<Rightarrow> piece option" where
  "parse_piece key =
     (let parts = split_on (CHR ''_'') key in
      if length parts < 2 \<or> length parts > 4 \<or> length (parts ! 0) < 2 then None
      else if parts ! 0 ! 0 \<noteq> CHR ''s'' \<and> parts ! 0 ! 0 \<noteq> CHR ''e'' then None
      else let p = no_piece\<lparr>p_secondary := (parts ! 0 ! 0 = CHR ''e'')\<rparr> in
      case key_num (parts ! 0) (parts ! 0 ! 0) 64 of None \<Rightarrow> None | Some oid \<Rightarrow>
      let p = p\<lparr>p_oid := of_nat oid\<rparr> in
      case key_num (parts ! 1) (CHR ''s'') 32 of None \<Rightarrow> None | Some seg \<Rightarrow>
      let p = p\<lparr>p_segment := of_nat seg\<rparr>; rest = drop 2 parts in
      case (if p_secondary p
            then (case rest of [] \<Rightarrow> None
                  | r0 # rs \<Rightarrow> (case key_num r0 (CHR ''p'') 32 of None \<Rightarrow> None
                       | Some r \<Rightarrow> Some (p\<lparr>p_redundancy := of_nat r\<rparr>, rs)))
            else Some (p, rest)) of None \<Rightarrow> None | Some (p, rest) \<Rightarrow>
      case (case rest of
              [] \<Rightarrow> Some p
            | [v0] \<Rightarrow> (case key_num v0 (CHR ''v'') 63 of None \<Rightarrow> None
                 | Some v \<Rightarrow> Some (p\<lparr>p_version := of_nat v\<rparr>))
            | _ \<Rightarrow> None) of None \<Rightarrow> None | Some p \<Rightarrow>
      if piece_key p \<noteq> key then None else Some p)"

text \<open>\<^verbatim>\<open>KeepOnly\<close>: (kept, rejected), both in the order of the input.\<close>

fun keep_only :: "string list \<Rightarrow> u64 \<Rightarrow> string list \<times> string list" where
  "keep_only [] want = ([], [])"
| "keep_only (k # ks) want =
     (let (kept, rejected) = keep_only ks want in
      case parse_piece k of
        Some p \<Rightarrow> if p_oid p = want then (k # kept, rejected) else (kept, k # rejected)
      | None \<Rightarrow> (kept, k # rejected))"

text \<open>A well-formed piece key of object \<open>oid\<close>, as the delete path decides it.\<close>

definition piece_of :: "u64 \<Rightarrow> string \<Rightarrow> bool" where
  "piece_of oid k \<longleftrightarrow> (case parse_piece k of Some p \<Rightarrow> p_oid p = oid | None \<Rightarrow> False)"

text \<open>
  The pieces the SP writes: a version is not negative, and only a secondary piece has a
  redundancy index.
\<close>

definition wf_piece :: "piece \<Rightarrow> bool" where
  "wf_piece p \<longleftrightarrow> 0 \<le> sint (p_version p) \<and> (p_secondary p \<or> p_redundancy p = 0)"

section \<open>Lemmas\<close>

lemma keep_only_filter:
  "keep_only ks want = (filter (piece_of want) ks, filter (\<lambda>k. \<not> piece_of want k) ks)"
  by (induction ks) (auto simp: piece_of_def split: option.splits)

lemma parse_piece_key: "parse_piece key = Some p \<Longrightarrow> piece_key p = key"
  by (auto simp: parse_piece_def Let_def split: if_splits option.splits list.splits)

lemma key_num_dec [simp]:
  "n < 2 ^ bits \<Longrightarrow> key_num (c # dec n) c bits = Some n"
  by (simp add: key_num_def)

lemma version_nonneg:
  assumes "0 \<le> sint (v :: 64 word)"
  shows "dec_int (sint v) = dec (unat v)" "unat v < 9223372036854775808"
proof -
  have lt: "sint v < 2 ^ 63" using sint_lt [of v] by simp
  then have u: "uint v = sint v"
    using assms by (simp add: uint_sint take_bit_int_eq_self)
  then show "dec_int (sint v) = dec (unat v)"
    using assms by (simp add: dec_int_nonneg unat_eq_nat_uint)
  show "unat v < 9223372036854775808"
    using lt u by (simp add: unat_eq_nat_uint nat_less_iff)
qed

text \<open>What the key splits into, and what the parser then reads.\<close>

lemma split_key:
  "split_on (CHR ''_'') (piece_key p) =
     (if p_secondary p
      then [CHR ''e'' # dec (unat (p_oid p)), CHR ''s'' # dec (unat (p_segment p)),
            CHR ''p'' # dec (unat (p_redundancy p))]
      else [CHR ''s'' # dec (unat (p_oid p)), CHR ''s'' # dec (unat (p_segment p))]) @
     (if p_version p = 0 then [] else [CHR ''v'' # dec_int (sint (p_version p))])"
  if "0 \<le> sint (p_version p)"
proof -
  have cut: "split_on (CHR ''_'') (c # dec n @ CHR ''_'' # t) = (c # dec n) # split_on (CHR ''_'') t"
    if "c \<noteq> CHR ''_''" for c n t
    using that split_on_sep [of "CHR ''_''" "c # dec n" t] by simp
  have last: "split_on (CHR ''_'') (c # dec n) = [c # dec n]" if "c \<noteq> CHR ''_''" for c n
    using that by simp
  show ?thesis
    by (simp add: piece_key_def version_nonneg [OF that] cut last)
qed

lemma parse_piece_render:
  assumes "wf_piece p"
  shows "parse_piece (piece_key p) = Some p"
proof -
  have v: "0 \<le> sint (p_version p)" using assms by (simp add: wf_piece_def)
  obtain oid seg sec red ver where p: "p = \<lparr>p_oid = oid, p_segment = seg, p_secondary = sec,
      p_redundancy = red, p_version = ver\<rparr>" by (cases p)
  show ?thesis
    using assms v split_key [OF v] unfolding p
    by (cases sec; cases "ver = 0")
      (simp_all add: parse_piece_def Let_def version_nonneg no_piece_def wf_piece_def)
qed

lemma sint_of_nat_nonneg: "v < 9223372036854775808 \<Longrightarrow> 0 \<le> sint (of_nat v :: 64 word)"
  by (simp add: sint_uint uint_nat unat_of_nat take_bit_eq_mod signed_take_bit_int_eq_self)

lemma key_num_bound: "key_num s c bits = Some n \<Longrightarrow> n < 2 ^ bits"
  by (auto simp: key_num_def parse_uint_bound split: if_splits)

lemma key_num_version:
  assumes "key_num s c 63 = Some v"
  shows "0 \<le> sint (of_nat v :: i64)"
  using key_num_bound [OF assms] by (intro sint_of_nat_nonneg) simp

lemma parse_piece_wf:
  assumes "parse_piece key = Some p"
  shows "wf_piece p"
  using assms
  by (auto simp: parse_piece_def Let_def wf_piece_def no_piece_def
      dest!: key_num_version split: if_splits option.splits list.splits)

lemma parse_piece_eq: "parse_piece key = Some p \<longleftrightarrow> wf_piece p \<and> piece_key p = key"
  using parse_piece_render parse_piece_key parse_piece_wf by blast

lemma piece_of_iff: "piece_of oid k \<longleftrightarrow> (\<exists>p. wf_piece p \<and> p_oid p = oid \<and> piece_key p = k)"
proof -
  have "piece_of oid k \<longleftrightarrow> (\<exists>p. parse_piece k = Some p \<and> p_oid p = oid)"
    by (simp add: piece_of_def split: option.splits)
  then show ?thesis unfolding parse_piece_eq by blast
qed

text \<open>A list prefix covers a rendered number exactly when it ends with that number.\<close>

lemma prefix_number [simp]:
  "prefix (dec m @ ''_'') (dec n @ CHR ''_'' # t) \<longleftrightarrow> m = n"
proof
  assume "prefix (dec m @ ''_'') (dec n @ CHR ''_'' # t)"
  then obtain z where z: "dec n @ CHR ''_'' # t = dec m @ CHR ''_'' # z"
    by (auto simp: prefix_def)
  with append_sep_eq [OF z] show "m = n" by simp
qed simp

lemma piece_key_shape:
  "\<exists>t. piece_key p = (if p_secondary p then CHR ''e'' else CHR ''s'') #
        dec (unat (p_oid p)) @ CHR ''_'' # t"
  by (auto simp: piece_key_def Let_def)

lemma prefixes_nth:
  "i < 2 \<Longrightarrow> prefixes oid ! i =
     (if i = 0 then CHR ''s'' else CHR ''e'') # dec (unat oid) @ ''_''"
  by (auto simp: prefixes_def Let_def less_2_cases_iff)

lemma length_prefixes [simp]: "length (prefixes oid) = 2"
  by (simp add: prefixes_def Let_def)

text \<open>A piece under a prefix of \<open>oid\<close> is a piece of \<open>oid\<close>.\<close>

lemma piece_under_prefix:
  assumes "pre \<in> set (prefixes oid)" "prefix pre k" "parse_piece k = Some p"
  shows "p_oid p = oid"
proof -
  obtain i where i: "i < 2" "pre = prefixes oid ! i"
    using assms(1) by (auto simp: in_set_conv_nth)
  obtain t where "k = (if p_secondary p then CHR ''e'' else CHR ''s'') #
        dec (unat (p_oid p)) @ CHR ''_'' # t"
    using piece_key_shape [of p] parse_piece_key [OF assms(3)] by auto
  then show ?thesis
    using assms(2) i by (simp add: prefixes_nth)
qed

text \<open>A piece of an object lies under one of its prefixes.\<close>

lemma own_piece_prefix:
  assumes "piece_of oid k"
  shows "\<exists>p\<in>set (prefixes oid). prefix p k"
proof -
  obtain p where p: "p_oid p = oid" "piece_key p = k" using assms by (auto simp: piece_of_iff)
  obtain t where t: "piece_key p = (if p_secondary p then CHR ''e'' else CHR ''s'') #
        dec (unat (p_oid p)) @ CHR ''_'' # t"
    using piece_key_shape by blast
  let ?i = "if p_secondary p then 1 else 0"
  have "prefix (prefixes oid ! ?i) k" using t p by (simp add: prefixes_nth)
  moreover have "prefixes oid ! ?i \<in> set (prefixes oid)" by (rule nth_mem) simp
  ultimately show ?thesis by blast
qed

section \<open>Properties\<close>

text \<open>C31. The parser accepts exactly the keys the storage provider writes: a key parses to a piece
  if and only if that piece is well-formed and renders back to the very same key.\<close>

theorem parse_piece_iff: "parse_piece key = Some p \<longleftrightarrow> wf_piece p \<and> piece_key p = key"
  by (rule parse_piece_eq)

text \<open>C32. The underscore in the list prefixes separates the objects: a piece lies under the
  prefix number \<open>i\<close> of an object only if it is a piece of that object and of that kind (primary
  under \<^verbatim>\<open>s<oid>_\<close>, secondary under \<^verbatim>\<open>e<oid>_\<close>), and it always lies under that one.\<close>

theorem prefix_covers_own_pieces:
  assumes "i < length (prefixes oid)"
  shows "prefix (prefixes oid ! i) (piece_key p) \<longleftrightarrow>
           oid = p_oid p \<and> i = (if p_secondary p then 1 else 0)"
proof -
  obtain t where "piece_key p = (if p_secondary p then CHR ''e'' else CHR ''s'') #
        dec (unat (p_oid p)) @ CHR ''_'' # t"
    using piece_key_shape by blast
  with assms show ?thesis
    by (auto simp: prefixes_nth less_2_cases_iff)
qed

theorem prefix_covers_own_pieces_witness:
  "prefix (prefixes 123 ! 0) (piece_key (no_piece\<lparr>p_oid := 123\<rparr>)) \<and>
   \<not> prefix (prefixes 123 ! 0) (piece_key (no_piece\<lparr>p_oid := 1234\<rparr>))"
  using prefix_covers_own_pieces [of 0 123 "no_piece\<lparr>p_oid := 123\<rparr>"]
    prefix_covers_own_pieces [of 0 123 "no_piece\<lparr>p_oid := 1234\<rparr>"]
  by (simp add: no_piece_def)

text \<open>C33. \<^verbatim>\<open>KeepOnly\<close> keeps, in order, exactly the renderings of well-formed pieces of the wanted
  object and rejects every other key: another object's pieces and unknown layouts alike.\<close>

theorem keep_only_exact:
  "keep_only ks want =
     (filter (\<lambda>k. \<exists>p. wf_piece p \<and> p_oid p = want \<and> piece_key p = k) ks,
      filter (\<lambda>k. \<nexists>p. wf_piece p \<and> p_oid p = want \<and> piece_key p = k) ks)"
  by (simp add: keep_only_filter piece_of_iff cong: filter_cong)

end
