(* ===== verification/S3Store.thy ===== *)
theory S3Store
  imports PieceKey TaskMeta
begin

text \<open>
  \<^verbatim>\<open>internal/s3store/s3store.go\<close>: the only place that talks to the object storage. The S3 client
  is not code of this repository: it is the parameter \<open>api\<close>, its calls with their optional
  fields. Building a client (\<^verbatim>\<open>New\<close>) is in \<open>Opening\<close>. The lemmas say which
  requests are sent: a delete request holds at most 1000 keys, all well-formed pieces of the object
  that is being deleted.
\<close>

section \<open>The client\<close>

record list_entry =
  le_key :: "string option"
  le_size :: "i64 option"

record list_out =
  lo_contents :: "list_entry list"
  lo_truncated :: "bool option"
  lo_next :: "string option"

record error_entry =
  ee_key :: "string option"
  ee_code :: "string option"
  ee_message :: "string option"

record delete_out =
  do_deleted :: "string option list"
  do_errors :: "error_entry list"

text \<open>Bucket, prefix, \<^verbatim>\<open>MaxKeys\<close> and continuation token; bucket and keys; bucket.\<close>

record 'w s3_api =
  api_list :: "string \<Rightarrow> string \<Rightarrow> nat \<Rightarrow> string option \<Rightarrow> ('w, list_out) act"
  api_delete :: "string \<Rightarrow> string list \<Rightarrow> ('w, delete_out) act"
  api_versioning :: "string \<Rightarrow> ('w, string) act"

section \<open>Values\<close>

record s3_object =
  o_key :: string
  o_size :: i64

record key_error =
  ke_key :: string
  ke_code :: string
  ke_message :: string

definition key_error_text :: "key_error \<Rightarrow> string" where
  "key_error_text e = ke_key e @ '': '' @ ke_code e @ '' '' @ ke_message e"

text \<open>\<^verbatim>\<open>aws.ToString\<close> and \<^verbatim>\<open>aws.ToInt64\<close>: the zero value of a missing field.\<close>

definition to_string :: "string option \<Rightarrow> string" where
  "to_string x = (case x of None \<Rightarrow> [] | Some s \<Rightarrow> s)"

definition to_int64 :: "i64 option \<Rightarrow> i64" where
  "to_int64 x = (case x of None \<Rightarrow> 0 | Some n \<Rightarrow> n)"

definition to_objects :: "list_entry list \<Rightarrow> s3_object list" where
  "to_objects cs = map (\<lambda>c. \<lparr>o_key = to_string (le_key c), o_size = to_int64 (le_size c)\<rparr>) cs"

section \<open>Listing\<close>

definition store_list :: "'w s3_api \<Rightarrow> string \<Rightarrow> string \<Rightarrow> nat \<Rightarrow> ('w, s3_object list) act" where
  "store_list api b p limit =
     bindA (api_list api b p limit None) (\<lambda>out. ret (to_objects (lo_contents out)))"

text \<open>
  \<^verbatim>\<open>ListAll\<close> with a callback that updates the variables \<open>'s\<close> of its closure. The loop ends when
  the service says so; \<open>None\<close> is a listing that never ends.
\<close>

type_synonym ('w, 's) callback = "'s \<Rightarrow> s3_object list \<Rightarrow> 'w \<Rightarrow> ('s \<times> err option) \<times> 'w"

partial_function (option) list_all_from ::
  "'w s3_api \<Rightarrow> string \<Rightarrow> string \<Rightarrow> ('w, 's) callback \<Rightarrow> string option \<Rightarrow> 's \<Rightarrow> 'w \<Rightarrow>
   (('s \<times> err option) \<times> 'w) option" where
  "list_all_from api b p fn token s w =
     (case api_list api b p 1000 token w of
        (Inl e, w) \<Rightarrow> Some ((s, Some e), w)
      | (Inr out, w) \<Rightarrow>
          (case fn s (to_objects (lo_contents out)) w of
             ((s, Some e), w) \<Rightarrow> Some ((s, Some e), w)
           | ((s, None), w) \<Rightarrow>
               if lo_truncated out \<noteq> Some True \<or> lo_next out = None then Some ((s, None), w)
               else list_all_from api b p fn (lo_next out) s w))"

declare list_all_from.simps [code]

definition store_list_all ::
  "'w s3_api \<Rightarrow> string \<Rightarrow> string \<Rightarrow> ('w, 's) callback \<Rightarrow> 's \<Rightarrow> 'w \<Rightarrow> (('s \<times> err option) \<times> 'w) option" where
  "store_list_all api b p fn = list_all_from api b p fn None"

definition store_empty :: "'w s3_api \<Rightarrow> string \<Rightarrow> string \<Rightarrow> ('w, bool) act" where
  "store_empty api b p = bindA (store_list api b p 1) (\<lambda>objs. ret (length objs = 0))"

section \<open>Versioning\<close>

definition ensure_versioning_disabled :: "'w s3_api \<Rightarrow> string \<Rightarrow> bool \<Rightarrow> ('w, unit) act" where
  "ensure_versioning_disabled api b allow =
     tryA (api_versioning api b)
       (\<lambda>e. throw (Cat (Txt (''cannot confirm versioning status of bucket '' @ b @ '': '')) e))
       (\<lambda>status.
          if status = [] then ret ()
          else if \<not> allow
          then throw (Txt (''bucket '' @ b @ '' has versioning '' @ quote status @
            ''; this tool deletes by key only and would leave versioned data behind. Pass --allow-versioned-bucket to proceed anyway (only for buckets where that is acceptable)''))
          else ret ())"

section \<open>Deleting\<close>

definition ErrUnsafeKeys :: err where
  "ErrUnsafeKeys = Sentinel ''refusing to delete keys that are not well-formed pieces of the object''"

definition check_keys :: "u64 \<Rightarrow> string list \<Rightarrow> err option" where
  "check_keys oid keys =
     (case keep_only keys oid of (kept, rejected) \<Rightarrow>
        if length rejected > 0
        then Some (Cat ErrUnsafeKeys (Txt ('' '' @ dec (unat oid) @ '': '' @ dec (length rejected) @
               '' keys, e.g. '' @ quote (rejected ! 0))))
        else None)"

text \<open>The keys S3 confirmed, those it refused, and the error of the request.\<close>

type_synonym delete_result = "string list \<times> key_error list \<times> err option"

definition to_key_error :: "error_entry \<Rightarrow> key_error" where
  "to_key_error e = \<lparr>ke_key = to_string (ee_key e), ke_code = to_string (ee_code e),
     ke_message = to_string (ee_message e)\<rparr>"

definition store_delete :: "'w s3_api \<Rightarrow> string \<Rightarrow> u64 \<Rightarrow> string list \<Rightarrow> 'w \<Rightarrow> delete_result \<times> 'w" where
  "store_delete api b oid keys w =
     (if length keys = 0 then (([], [], None), w)
      else if length keys > 1000 then (([], [], Some (Txt ''batch larger than 1000 keys'')), w)
      else case check_keys oid keys of
        Some e \<Rightarrow> (([], [], Some e), w)
      | None \<Rightarrow>
          (case api_delete api b keys w of
             (Inl e, w) \<Rightarrow> (([], [], Some e), w)
           | (Inr out, w) \<Rightarrow> ((map to_string (do_deleted out), map to_key_error (do_errors out), None), w)))"

section \<open>Lemmas\<close>

lemma check_keys_None: "check_keys oid keys = None \<longleftrightarrow> list_all (piece_of oid) keys"
  by (auto simp: check_keys_def keep_only_filter list_all_iff filter_empty_conv)

lemma check_keys_unsafe: "check_keys oid keys = Some e \<Longrightarrow> err_is e ErrUnsafeKeys"
  by (auto simp: check_keys_def ErrUnsafeKeys_def split: prod.splits if_splits)

text \<open>A relation between the worlds before and after that every request keeps is kept by the
  operations, and only requests for well-formed pieces of the object count as requests to delete.\<close>

definition transits :: "('w \<Rightarrow> 'w \<Rightarrow> bool) \<Rightarrow> ('w \<Rightarrow> 'x \<times> 'w) \<Rightarrow> bool" where
  "transits R m \<longleftrightarrow> (\<forall>w x v. m w = (x, v) \<longrightarrow> R w v)"

lemma transitsI: "(\<And>w x v. m w = (x, v) \<Longrightarrow> R w v) \<Longrightarrow> transits R m"
  by (simp add: transits_def)

lemma transitsD: "transits R m \<Longrightarrow> m w = (x, v) \<Longrightarrow> R w v"
  by (auto simp: transits_def)

lemma transits_ret: "reflp R \<Longrightarrow> transits R (ret x)" and transits_throw: "reflp R \<Longrightarrow> transits R (throw e)"
  by (auto simp: transits_def ret_def throw_def dest: reflpD)

lemma transits_bind:
  "transp R \<Longrightarrow> transits R m \<Longrightarrow> (\<And>x. transits R (f x)) \<Longrightarrow> transits R (bindA m f)"
proof (rule transitsI)
  fix w x v assume R: "transp R" "transits R m" "\<And>x. transits R (f x)" and run: "bindA m f w = (x, v)"
  obtain r u where m: "m w = (r, u)" by (cases "m w")
  have 1: "R w u" by (rule transitsD [OF R(2) m])
  show "R w v"
  proof (cases r)
    case (Inr y)
    then have "f y u = (x, v)" using run m by (simp add: bindA_def)
    then show ?thesis using 1 transpD [OF R(1)] transitsD [OF R(3)] by blast
  qed (use run m 1 in \<open>simp add: bindA_def\<close>)
qed

definition sound_list :: "('w \<Rightarrow> 'w \<Rightarrow> bool) \<Rightarrow> 'w s3_api \<Rightarrow> string \<Rightarrow> bool" where
  "sound_list R api b \<longleftrightarrow> (\<forall>p limit token. transits R (api_list api b p limit token))"

text \<open>What a request to delete pieces of \<open>oid\<close> may hold.\<close>

definition proper_batch :: "u64 \<Rightarrow> string list \<Rightarrow> bool" where
  "proper_batch oid keys \<longleftrightarrow> keys \<noteq> [] \<and> length keys \<le> 1000 \<and> list_all (piece_of oid) keys"

lemma store_list_transits:
  "reflp R \<Longrightarrow> transp R \<Longrightarrow> sound_list R api b \<Longrightarrow> transits R (store_list api b p limit)"
  unfolding store_list_def sound_list_def by (auto intro!: transits_bind transits_ret)

lemma store_empty_transits:
  "reflp R \<Longrightarrow> transp R \<Longrightarrow> sound_list R api b \<Longrightarrow> transits R (store_empty api b p)"
  unfolding store_empty_def by (auto intro!: transits_bind transits_ret store_list_transits)

lemma store_delete_transits:
  assumes "reflp R" "\<And>keys. proper_batch oid keys \<Longrightarrow> transits R (api_delete api b keys)"
  shows "transits R (store_delete api b oid keys)"
proof (rule transitsI)
  fix w x v assume run: "store_delete api b oid keys w = (x, v)"
  show "R w v"
  proof (cases "proper_batch oid keys")
    case True
    then have "snd (api_delete api b keys w) = v"
      using run by (auto simp: store_delete_def proper_batch_def check_keys_None [symmetric]
          split: if_splits prod.splits sum.splits)
    then show ?thesis using assms(2) [OF True] by (metis prod.collapse transitsD)
  next
    case False
    then have "v = w"
      using run check_keys_None [of oid keys]
      by (auto simp: store_delete_def proper_batch_def split: if_splits option.splits)
    then show ?thesis using assms(1) by (auto dest: reflpD)
  qed
qed

section \<open>Properties\<close>

text \<open>C10. \<^verbatim>\<open>Delete\<close> is safe by itself: it sends a request only for a non-empty batch of at most 1000
  keys that are all well-formed pieces of the named object; every other batch is refused with the
  world untouched, and a batch with a foreign or unknown key is refused with \<^verbatim>\<open>ErrUnsafeKeys\<close>.\<close>

theorem delete_refuses_foreign_keys:
  "if keys = [] then store_delete api b oid keys w = (([], [], None), w)
   else if length keys > 1000 then \<exists>e. store_delete api b oid keys w = (([], [], Some e), w)
   else if list_all (piece_of oid) keys
   then snd (store_delete api b oid keys w) = snd (api_delete api b keys w)
   else \<exists>e. store_delete api b oid keys w = (([], [], Some e), w) \<and> err_is e ErrUnsafeKeys"
  using check_keys_None [of oid keys] check_keys_unsafe [of oid keys]
  by (auto simp: store_delete_def split: option.splits prod.splits sum.splits)

text \<open>A versioning status that is set, when that is not allowed, or not known: the bucket is refused.\<close>

definition refuses_status :: "bool \<Rightarrow> err + string \<Rightarrow> bool" where
  "refuses_status allow status \<longleftrightarrow> (case status of Inl _ \<Rightarrow> True | Inr st \<Rightarrow> st \<noteq> [] \<and> \<not> allow)"

lemma versioning_refused:
  "api_versioning api b w = (status, u) \<Longrightarrow> refuses_status allow status \<Longrightarrow>
     \<exists>x. ensure_versioning_disabled api b allow w = (Inl x, u)"
  by (auto simp: ensure_versioning_disabled_def refuses_status_def act_defs split: sum.splits)

end
