(* ===== verification/SizeCheck.thy ===== *)
theory SizeCheck
  imports GoStrings
begin

text \<open>
  The per-object size reconciliation, \<^verbatim>\<open>internal/purge/sizecheck.go\<close>, and the types of
  \<^verbatim>\<open>internal/purge/purge.go\<close> it reads: the run options and the result of one object. The lemmas
  relate the shard loop to its closed form (a sum of ceilings), with the wrap-around bound under
  which they agree.
\<close>

section \<open>Options and results\<close>

text \<open>\<^verbatim>\<open>Options.QPS\<close> only sets the rate limiter, which is a parameter of the runner.\<close>

record options =
  opt_bucket :: string
  opt_concurrency :: int
  opt_max_retry :: int
  opt_dry_run :: bool
  opt_retry_failed :: bool
  opt_data_chunks :: u32
  opt_segment_size :: u64

record result =
  res_keys :: u64
  res_bytes :: u64
  res_skeys :: u64
  res_ekeys :: u64
  res_err :: "err option"

definition empty_result :: result where
  "empty_result = \<lparr>res_keys = 0, res_bytes = 0, res_skeys = 0, res_ekeys = 0, res_err = None\<rparr>"

record size_check =
  sc_role :: string
  sc_expected :: u64
  sc_known :: bool

definition size_check_text :: "size_check \<Rightarrow> string" where
  "size_check_text c =
     (if \<not> sc_known c then ''role='' @ sc_role c
      else ''role='' @ sc_role c @ '' expected='' @ dec (unat (sc_expected c)))"

section \<open>Expected bytes of a secondary\<close>

text \<open>
  The loop of \<^verbatim>\<open>ExpectedSecondaryBytes\<close>; the segment size is not zero there (the guard of the
  caller), which is what makes it stop.
\<close>

function shard_loop :: "u64 \<Rightarrow> u64 \<Rightarrow> u64 \<Rightarrow> u64 \<Rightarrow> u64" where
  "shard_loop segment_size k payload acc =
     (if payload > 0 \<and> segment_size \<noteq> 0
      then let seg = (if payload < segment_size then payload else segment_size)
           in shard_loop segment_size k (payload - seg) (acc + (seg + k - 1) div k)
      else acc)"
  by pat_completeness auto
termination
  by (relation "measure (\<lambda>(s, k, payload, acc). unat payload)")
    (auto simp: unat_sub_if' word_less_nat_alt word_le_nat_alt unat_gt_0 not_less split: if_splits)

declare shard_loop.simps [simp del]

definition expected_secondary_bytes :: "u64 \<Rightarrow> u64 \<Rightarrow> u32 \<Rightarrow> u64" where
  "expected_secondary_bytes payload segment_size data_chunks =
     (if segment_size = 0 \<or> data_chunks = 0 then 0
      else shard_loop segment_size (ucast data_chunks) payload 0)"

definition check_size :: "options \<Rightarrow> result \<Rightarrow> u64 \<Rightarrow> size_check" where
  "check_size opt res payload =
     (if res_skeys res > 0 \<and> res_ekeys res > 0
      then \<lparr>sc_role = ''mixed'', sc_expected = 0, sc_known = False\<rparr>
      else if res_skeys res > 0
      then \<lparr>sc_role = ''primary'', sc_expected = payload, sc_known = True\<rparr>
      else if res_ekeys res > 0
      then (if opt_data_chunks opt = 0 \<or> opt_segment_size opt = 0
            then \<lparr>sc_role = ''secondary'', sc_expected = 0, sc_known = False\<rparr>
            else \<lparr>sc_role = ''secondary'',
                  sc_expected = expected_secondary_bytes payload (opt_segment_size opt)
                    (opt_data_chunks opt),
                  sc_known = True\<rparr>)
      else \<lparr>sc_role = ''none'', sc_expected = 0, sc_known = False\<rparr>)"

text \<open>
  The reference: the payload is cut into full segments and a remainder, and every piece of it
  into \<open>k\<close> data chunks of equal size, rounded up.
\<close>

definition ceil_div :: "nat \<Rightarrow> nat \<Rightarrow> nat" where
  "ceil_div a k = (a + k - 1) div k"

definition shard_bytes :: "nat \<Rightarrow> nat \<Rightarrow> nat \<Rightarrow> nat" where
  "shard_bytes payload seg k =
     (payload div seg) * ceil_div seg k + ceil_div (payload mod seg) k"

section \<open>Lemmas\<close>

lemma ceil_div_0 [simp]: "0 < k \<Longrightarrow> ceil_div 0 k = 0"
  by (simp add: ceil_div_def)

lemma ceil_div_le: "0 < k \<Longrightarrow> ceil_div a k \<le> a"
proof -
  assume k: "0 < k"
  have "a + k - 1 < Suc a * k" using k by (cases k) auto
  then show ?thesis using k
    by (simp add: ceil_div_def div_less_iff_less_mult less_Suc_eq_le [symmetric])
qed

lemma ceil_div_covers: "0 < k \<Longrightarrow> a \<le> k * ceil_div a k"
proof -
  assume k: "0 < k"
  have "a + k - 1 = k * ceil_div a k + (a + k - 1) mod k" by (simp add: ceil_div_def)
  moreover have "(a + k - 1) mod k < k" using k by simp
  ultimately show ?thesis using k by linarith
qed

lemma shard_bytes_0 [simp]: "0 < k \<Longrightarrow> shard_bytes 0 seg k = 0"
  by (simp add: shard_bytes_def)

lemma shard_bytes_step:
  assumes "0 < k" "0 < seg" "0 < payload"
  shows "shard_bytes payload seg k =
           ceil_div (min payload seg) k + shard_bytes (payload - min payload seg) seg k"
proof (cases "payload < seg")
  case True
  then show ?thesis using assms by (simp add: shard_bytes_def)
next
  case False
  then have "payload div seg = Suc ((payload - seg) div seg)"
    and "payload mod seg = (payload - seg) mod seg"
    using assms by (simp_all add: le_div_geq le_mod_geq)
  then show ?thesis using False by (simp add: shard_bytes_def)
qed

lemma unat_ceil_div:
  fixes a k :: u64
  assumes "k \<noteq> 0" "unat a + unat k \<le> 2 ^ 64"
  shows "unat ((a + k - 1) div k) = ceil_div (unat a) (unat k)"
proof -
  have k: "0 < unat k" using assms(1) by (simp add: unat_gt_0)
  have e: "a + k - 1 = a + (k - 1)" by simp
  have m: "unat (k - 1) = unat k - 1" using assms(1) by (simp add: unat_minus_one)
  have "unat (a + (k - 1)) = unat a + unat (k - 1)"
    using assms(2) k m by (intro unat_add_lem [THEN iffD1]) simp
  then show ?thesis using k m unfolding e by (simp add: ceil_div_def unat_div)
qed

lemma shard_loop_bytes:
  assumes "seg \<noteq> 0" "k \<noteq> 0" "unat seg + unat k \<le> 2 ^ 64"
    and "unat acc + unat payload < 2 ^ 64"
  shows "unat (shard_loop seg k payload acc) = unat acc + shard_bytes (unat payload) (unat seg) (unat k)"
  using assms
proof (induction seg k payload acc rule: shard_loop.induct)
  case (1 seg k payload acc)
  have pos: "0 < unat seg" "0 < unat k" using "1.prems" by (simp_all add: unat_gt_0)
  show ?case
  proof (cases "payload > 0")
    case False
    then have "payload = 0" by (simp add: word_gt_0)
    then show ?thesis using pos by (subst shard_loop.simps) simp
  next
    case True
    define s where "s = (if payload < seg then payload else seg)"
    have s: "unat s = min (unat payload) (unat seg)" "s \<le> payload"
      by (auto simp: s_def word_less_nat_alt word_le_nat_alt)
    have p: "unat (payload - s) = unat payload - unat s"
      using s(2) by (simp add: unat_sub)
    have c: "unat ((s + k - 1) div k) = ceil_div (unat s) (unat k)"
      using "1.prems" s(1) by (intro unat_ceil_div) auto
    have le: "ceil_div (unat s) (unat k) \<le> unat s" using pos by (intro ceil_div_le)
    have acc: "unat (acc + (s + k - 1) div k) = unat acc + ceil_div (unat s) (unat k)"
      using "1.prems"(4) c le s(1) by (subst unat_add_lem [THEN iffD1]) auto
    have "unat (shard_loop seg k (payload - s) (acc + (s + k - 1) div k)) =
        unat (acc + (s + k - 1) div k) + shard_bytes (unat (payload - s)) (unat seg) (unat k)"
      using True "1.prems" p s le acc by (intro "1.IH") (auto simp: s_def)
    moreover have "shard_loop seg k payload acc = shard_loop seg k (payload - s) (acc + (s + k - 1) div k)"
      using True "1.prems" by (subst shard_loop.simps) (simp add: s_def Let_def)
    ultimately show ?thesis
      using pos True acc p s(1)
      by (simp add: shard_bytes_step [of "unat k" "unat seg" "unat payload"] word_less_nat_alt)
  qed
qed

lemma shard_bytes_le: "0 < k \<Longrightarrow> 0 < seg \<Longrightarrow> shard_bytes payload seg k \<le> payload"
proof -
  assume k: "0 < k" "0 < seg"
  have "shard_bytes payload seg k \<le> (payload div seg) * seg + payload mod seg"
    unfolding shard_bytes_def using k by (intro add_mono mult_le_mono2 ceil_div_le)
  then show ?thesis by simp
qed

lemma shard_bytes_covers: "0 < k \<Longrightarrow> payload \<le> k * shard_bytes payload seg k"
proof -
  assume k: "0 < k"
  have "payload = (payload div seg) * seg + payload mod seg" by simp
  also have "\<dots> \<le> (payload div seg) * (k * ceil_div seg k) + k * ceil_div (payload mod seg) k"
    using k by (intro add_mono mult_le_mono2 ceil_div_covers)
  finally show ?thesis by (simp add: shard_bytes_def algebra_simps)
qed

section \<open>Properties\<close>

text \<open>C34. The expected size of a secondary is the closed form: one shard of \<open>\<lceil>segment / k\<rceil>\<close> bytes
  per full segment and one of the rounded-up share of the remainder; nothing wraps around as long
  as segment size plus chunk count stays within 64 bits. The sum never exceeds the payload, and
  \<open>k\<close> times it covers the payload.\<close>

theorem expected_secondary_bytes_exact:
  assumes "segment_size \<noteq> 0" "data_chunks \<noteq> 0"
    and "unat segment_size + unat data_chunks \<le> 2 ^ 64"
  shows "unat (expected_secondary_bytes payload segment_size data_chunks) =
           shard_bytes (unat payload) (unat segment_size) (unat data_chunks) \<and>
         unat (expected_secondary_bytes payload segment_size data_chunks) \<le> unat payload \<and>
         unat payload \<le> unat data_chunks *
           unat (expected_secondary_bytes payload segment_size data_chunks)"
proof -
  have k: "unat (ucast data_chunks :: u64) = unat data_chunks"
    by (simp add: unsigned_ucast_eq take_bit_nat_eq_self less_trans [OF unat_bounds(2)])
  have pos: "0 < unat data_chunks" "0 < unat segment_size" using assms by (simp_all add: unat_gt_0)
  have "(ucast data_chunks :: u64) \<noteq> 0" using k pos by (metis less_irrefl unat_0)
  then have "unat (expected_secondary_bytes payload segment_size data_chunks) =
      shard_bytes (unat payload) (unat segment_size) (unat data_chunks)"
    using assms k by (simp add: expected_secondary_bytes_def shard_loop_bytes)
  then show ?thesis using pos by (simp add: shard_bytes_le shard_bytes_covers)
qed

theorem expected_secondary_bytes_exact_witness:
  "unat (expected_secondary_bytes 5242880 16777216 3) = shard_bytes 5242880 16777216 3 \<and>
   shard_bytes 5242880 16777216 3 = 1747627"
  using expected_secondary_bytes_exact [of 16777216 3 5242880]
  by (simp add: shard_bytes_def ceil_div_def)

end
