(* ===== verification/PurgeObject.thy ===== *)
theory PurgeObject
  imports S3Store SizeCheck
begin

text \<open>
  One object of a deletion run, \<^verbatim>\<open>internal/purge/purge.go\<close> from \<^verbatim>\<open>ProcessOne\<close> on: the identity
  check against the chain, the loop that clears a prefix, the read-only re-check, and the verdict
  on the size. What the run calls (store, chain, lock check, rate limiter, sleep, context) is the
  record \<open>runner\<close>, as in the Go interfaces. The loops may never end; then the result is \<open>None\<close>.
  Log lines are left out.
\<close>

section \<open>Interfaces\<close>

record object_head =
  oh_id :: u64
  oh_bucket :: string
  oh_status :: string
  oh_version :: i64
  oh_payload :: u64

record claimed =
  cl_oid :: u64
  cl_payload :: u64
  cl_status :: string
  cl_version :: i64

text \<open>The variables of the dry-run callback: keys, bytes, rejected keys.\<close>

type_synonym tally = "u64 \<times> u64 \<times> string list"

text \<open>
  \<open>rn_list\<close>, \<open>rn_list_all\<close>, \<open>rn_empty\<close>, \<open>rn_delete\<close>: the \<^verbatim>\<open>ObjectStore\<close>; \<open>rn_head\<close>: the \<^verbatim>\<open>Chain\<close>;
  \<open>rn_limiter\<close> is \<open>None\<close> when the limiter is nil (rate limiting disabled); \<open>rn_sleep\<close> sleeps some
  milliseconds unless the context ends first.
\<close>

record 'w runner =
  rn_list :: "string \<Rightarrow> nat \<Rightarrow> ('w, s3_object list) act"
  rn_list_all :: "string \<Rightarrow> ('w, tally) callback \<Rightarrow> tally \<Rightarrow> 'w \<Rightarrow> ((tally \<times> err option) \<times> 'w) option"
  rn_empty :: "string \<Rightarrow> ('w, bool) act"
  rn_delete :: "u64 \<Rightarrow> string list \<Rightarrow> 'w \<Rightarrow> delete_result \<times> 'w"
  rn_head :: "u64 \<Rightarrow> ('w, object_head) act"
  rn_check :: "('w, unit) act option"
  rn_ctx_err :: "'w \<Rightarrow> err option"
  rn_limiter :: "('w, unit) act option"
  rn_sleep :: "nat \<Rightarrow> ('w, unit) act"
  rn_opt :: options

definition ErrSafety :: err where
  "ErrSafety = Sentinel ''safety violation''"

section \<open>Waiting\<close>

definition ctx_live :: "'w runner \<Rightarrow> ('w, unit) act" where
  "ctx_live r w = (case rn_ctx_err r w of Some e \<Rightarrow> (Inl e, w) | None \<Rightarrow> (Inr (), w))"

definition wait :: "'w runner \<Rightarrow> ('w, unit) act" where
  "wait r =
     bindA (ctx_live r) (\<lambda>_.
     bindA (case rn_check r of None \<Rightarrow> ret () | Some check \<Rightarrow> check) (\<lambda>_.
     case rn_limiter r of None \<Rightarrow> ret () | Some lim \<Rightarrow> lim))"

text \<open>The delay of a retry in milliseconds.\<close>

definition backoff_ms :: "nat \<Rightarrow> nat" where
  "backoff_ms n = min 30000 (2 ^ min n 6 * 500)"

definition backoff :: "'w runner \<Rightarrow> nat \<Rightarrow> ('w, unit) act" where
  "backoff r n = (if rn_limiter r = None then ctx_live r else rn_sleep r (backoff_ms n))"

section \<open>Identity\<close>

definition identity_diff :: "claimed \<Rightarrow> object_head \<Rightarrow> string \<Rightarrow> string list" where
  "identity_diff c h bucket =
     (if oh_id h \<noteq> cl_oid c
      then [''chain returned object id '' @ dec (unat (oh_id h)) @ '' for '' @ dec (unat (cl_oid c))] else []) @
     (if oh_bucket h \<noteq> bucket
      then [''not in bucket '' @ bucket @ '' (chain says '' @ quote (oh_bucket h) @ '')''] else []) @
     (if oh_status h \<noteq> cl_status c
      then [''status '' @ cl_status c @ '' at scan, '' @ oh_status h @ '' now''] else []) @
     (if oh_version h \<noteq> cl_version c
      then [''version '' @ dec_int (sint (cl_version c)) @ '' at scan, '' @ dec_int (sint (oh_version h)) @ '' now''] else []) @
     (if oh_payload h \<noteq> cl_payload c
      then [''payload '' @ dec (unat (cl_payload c)) @ '' at scan, '' @ dec (unat (oh_payload h)) @ '' now''] else [])"

definition unknown_keys_err :: "u64 \<Rightarrow> string \<Rightarrow> string list \<Rightarrow> err" where
  "unknown_keys_err oid pfx rejected =
     Cat ErrSafety (Txt ('': '' @ dec (length rejected) @ '' keys under '' @ pfx @
       '' are not well-formed pieces of object '' @ dec (unat oid) @ '' ('' @
       join_on '','' (take 3 rejected) @ ''); left in place for manual inspection''))"

section \<open>Clearing a prefix\<close>

text \<open>The dry run: the callback over one page.\<close>

fun tally_objects :: "u64 \<Rightarrow> s3_object list \<Rightarrow> tally \<Rightarrow> tally" where
  "tally_objects oid [] t = t"
| "tally_objects oid (x # xs) (keys, bytes, rejected) =
     tally_objects oid xs
       (if piece_of oid (o_key x) then (keys + 1, bytes + o_size x, rejected)
        else (keys, bytes, rejected @ [o_key x]))"

definition tally_page :: "'w runner \<Rightarrow> u64 \<Rightarrow> ('w, tally) callback" where
  "tally_page r oid t objs w =
     (case wait r w of
        (Inl e, w) \<Rightarrow> ((tally_objects oid objs t, Some e), w)
      | (Inr _, w) \<Rightarrow> ((tally_objects oid objs t, None), w))"

type_synonym cleared = "(u64 \<times> u64) \<times> err option"

definition preview_prefix :: "'w runner \<Rightarrow> u64 \<Rightarrow> string \<Rightarrow> 'w \<Rightarrow> (cleared \<times> 'w) option" where
  "preview_prefix r oid pfx w =
     (case rn_list_all r pfx (tally_page r oid) (0, 0, []) w of
        None \<Rightarrow> None
      | Some (((keys, bytes, rejected), e), w) \<Rightarrow>
          Some (((keys, bytes),
            if e = None \<and> length rejected > 0 then Some (unknown_keys_err oid pfx rejected) else e), w))"

text \<open>The map from key to size of one listing: a later entry wins.\<close>

definition size_of :: "s3_object list \<Rightarrow> string \<Rightarrow> i64" where
  "size_of objs k = (case find (\<lambda>x. o_key x = k) (rev objs) of None \<Rightarrow> 0 | Some x \<Rightarrow> o_size x)"

text \<open>The failures per key over the rounds of one prefix.\<close>

type_synonym fails = "string \<Rightarrow> nat option"

definition fail_count :: "fails \<Rightarrow> string \<Rightarrow> nat" where
  "fail_count fails k = (case fails k of None \<Rightarrow> 0 | Some n \<Rightarrow> n)"

text \<open>The keys S3 confirmed: counted, and their failures forgotten.\<close>

fun count_deleted ::
  "(string \<Rightarrow> i64) \<Rightarrow> string list \<Rightarrow> u64 \<Rightarrow> u64 \<Rightarrow> fails \<Rightarrow> u64 \<times> u64 \<times> fails" where
  "count_deleted sz [] keys bytes fails = (keys, bytes, fails)"
| "count_deleted sz (k # ks) keys bytes fails =
     count_deleted sz ks (keys + 1) (bytes + sz k) (fails(k := None))"

text \<open>Why keys failed in this round; the last entry of a key counts.\<close>

definition reasons :: "string list \<Rightarrow> delete_result \<Rightarrow> (string \<times> string) list" where
  "reasons batch res =
     (case res of (deleted, failed, derr) \<Rightarrow>
        (case derr of
           Some e \<Rightarrow> map (\<lambda>k. (k, err_text e)) (filter (\<lambda>k. k \<notin> set deleted) batch)
         | None \<Rightarrow> map (\<lambda>e. (ke_key e, ke_code e @ '' '' @ ke_message e)) failed))"

definition reason_of :: "(string \<times> string) list \<Rightarrow> string \<Rightarrow> string option" where
  "reason_of why k = map_of (rev why) k"

text \<open>Counting the failures: the new counts, the worst of them, the keys to give up on.\<close>

fun count_failures ::
  "int \<Rightarrow> (string \<times> string) list \<Rightarrow> string list \<Rightarrow> fails \<Rightarrow> nat \<Rightarrow> string list \<Rightarrow>
   fails \<times> nat \<times> string list" where
  "count_failures limit why [] fails worst stuck = (fails, worst, stuck)"
| "count_failures limit why (k # ks) fails worst stuck =
     (if reason_of why k = None then count_failures limit why ks fails worst stuck
      else let n = fail_count fails k + 1 in
        count_failures limit why ks (fails(k := Some n)) (max worst n)
          (if int n > limit then stuck @ [k] else stuck))"

definition stuck_err :: "int \<Rightarrow> string \<Rightarrow> (string \<times> string) list \<Rightarrow> string list \<Rightarrow> err" where
  "stuck_err limit pfx why stuck =
     Txt (dec (length stuck) @ '' pieces under '' @ pfx @ '' still failing after '' @
       dec_int limit @ '' retries, first '' @ stuck ! 0 @ '': '' @
       (case reason_of why (stuck ! 0) of None \<Rightarrow> [] | Some s \<Rightarrow> s))"

text \<open>
  One round after the wait, \<open>clear_round\<close>: either the result of the loop, or the counters with
  which it goes on.
\<close>

type_synonym loop_state = "u64 \<times> u64 \<times> fails \<times> nat"

definition settle :: "'w runner \<Rightarrow> u64 \<Rightarrow> u64 \<Rightarrow> fails \<Rightarrow> nat \<Rightarrow> nat \<Rightarrow> 'w \<Rightarrow> (cleared + loop_state) \<times> 'w" where
  "settle r keys bytes fails list_fails n w =
     (case backoff r n w of
        (Inl e, w) \<Rightarrow> (Inl ((keys, bytes), Some e), w)
      | (Inr _, w) \<Rightarrow> (Inr (keys, bytes, fails, list_fails), w))"

definition delete_round ::
  "'w runner \<Rightarrow> u64 \<Rightarrow> string \<Rightarrow> s3_object list \<Rightarrow> string list \<Rightarrow> u64 \<Rightarrow> u64 \<Rightarrow> fails \<Rightarrow> 'w \<Rightarrow>
   (cleared + loop_state) \<times> 'w" where
  "delete_round r oid pfx objs batch keys bytes fails w =
     (case rn_delete r oid batch w of ((deleted, failed, derr), w) \<Rightarrow>
        if (case derr of None \<Rightarrow> False | Some e \<Rightarrow> err_is e ErrUnsafeKeys)
        then (Inl ((keys, bytes), Some (Cat ErrSafety (Cat (Txt '': '') (the derr)))), w)
        else
          case count_deleted (size_of objs) deleted keys bytes fails of (keys, bytes, fails) \<Rightarrow>
          let why = reasons batch (deleted, failed, derr) in
          if length why = 0 then (Inr (keys, bytes, fails, 0), w)
          else
            case count_failures (opt_max_retry (rn_opt r)) why batch fails 0 [] of (fails, worst, stuck) \<Rightarrow>
            if length stuck > 0
            then (Inl ((keys, bytes), Some (stuck_err (opt_max_retry (rn_opt r)) pfx why stuck)), w)
            else settle r keys bytes fails 0 worst w)"

definition clear_round ::
  "'w runner \<Rightarrow> u64 \<Rightarrow> string \<Rightarrow> loop_state \<Rightarrow> 'w \<Rightarrow> (cleared + loop_state) \<times> 'w" where
  "clear_round r oid pfx st w =
     (case st of (keys, bytes, fails, list_fails) \<Rightarrow>
        case wait r w of
          (Inl e, w) \<Rightarrow> (Inl ((keys, bytes), Some e), w)
        | (Inr _, w) \<Rightarrow>
            (case rn_list r pfx 1000 w of
               (Inl e, w) \<Rightarrow>
                 if int (list_fails + 1) > opt_max_retry (rn_opt r)
                 then (Inl ((keys, bytes), Some (Cat (Txt (''list '' @ pfx @ '' failed after '' @
                        dec_int (opt_max_retry (rn_opt r)) @ '' retries: '')) e)), w)
                 else settle r keys bytes fails (list_fails + 1) (list_fails + 1) w
             | (Inr objs, w) \<Rightarrow>
                 if length objs = 0 then (Inl ((keys, bytes), None), w)
                 else
                   case keep_only (map o_key objs) oid of (batch, rejected) \<Rightarrow>
                   if length rejected > 0
                   then (Inl ((keys, bytes), Some (unknown_keys_err oid pfx rejected)), w)
                   else
                     case wait r w of
                       (Inl e, w) \<Rightarrow> (Inl ((keys, bytes), Some e), w)
                     | (Inr _, w) \<Rightarrow> delete_round r oid pfx objs batch keys bytes fails w))"

partial_function (option) clear_loop ::
  "'w runner \<Rightarrow> u64 \<Rightarrow> string \<Rightarrow> loop_state \<Rightarrow> 'w \<Rightarrow> (cleared \<times> 'w) option" where
  "clear_loop r oid pfx st w =
     (case clear_round r oid pfx st w of
        (Inl res, w) \<Rightarrow> Some (res, w)
      | (Inr st, w) \<Rightarrow> clear_loop r oid pfx st w)"

declare clear_loop.simps [code]

definition clear_prefix :: "'w runner \<Rightarrow> u64 \<Rightarrow> string \<Rightarrow> 'w \<Rightarrow> (cleared \<times> 'w) option" where
  "clear_prefix r oid pfx w =
     (if opt_dry_run (rn_opt r) then preview_prefix r oid pfx w
      else clear_loop r oid pfx (0, 0, \<lambda>_. None, 0) w)"

section \<open>One object\<close>

text \<open>Both prefixes in order: \<open>primary\<close> is index 0. The first error ends the object.\<close>

fun clear_prefixes ::
  "'w runner \<Rightarrow> u64 \<Rightarrow> string list \<Rightarrow> bool \<Rightarrow> result \<Rightarrow> 'w \<Rightarrow> (result \<times> 'w) option" where
  "clear_prefixes r oid [] primary res w = Some (res, w)"
| "clear_prefixes r oid (p # ps) primary res w =
     (case clear_prefix r oid p w of
        None \<Rightarrow> None
      | Some (((k, b), e), w) \<Rightarrow>
          let res = res\<lparr>res_keys := res_keys res + k, res_bytes := res_bytes res + b\<rparr>;
              res = (if primary then res\<lparr>res_skeys := res_skeys res + k\<rparr>
                     else res\<lparr>res_ekeys := res_ekeys res + k\<rparr>)
          in case e of
               Some e \<Rightarrow> Some (res\<lparr>res_err := Some (Cat (Txt (''prefix '' @ p @ '': '')) e)\<rparr>, w)
             | None \<Rightarrow> clear_prefixes r oid ps False res w)"

fun recheck :: "'w runner \<Rightarrow> string list \<Rightarrow> ('w, unit) act" where
  "recheck r [] = ret ()"
| "recheck r (p # ps) =
     bindA (wait r) (\<lambda>_.
     tryA (rn_empty r p)
       (\<lambda>e. throw (Cat (Txt (''re-check '' @ p @ '': '')) e))
       (\<lambda>empty. if \<not> empty then throw (Txt (''re-check '' @ p @ '': residue'')) else recheck r ps))"

definition with_err :: "result \<Rightarrow> err + unit \<Rightarrow> result" where
  "with_err res x = (case x of Inl e \<Rightarrow> res\<lparr>res_err := Some e\<rparr> | Inr _ \<Rightarrow> res)"

text \<open>The part before anything is listed or deleted.\<close>

definition confirm_identity :: "'w runner \<Rightarrow> claimed \<Rightarrow> ('w, unit) act" where
  "confirm_identity r c =
     bindA (case rn_check r of None \<Rightarrow> ret () | Some check \<Rightarrow> check) (\<lambda>_.
     tryA (rn_head r (cl_oid c))
       (\<lambda>e. throw (Cat (Txt ''chain check: '') (Cat e (Txt ''; nothing deleted''))))
       (\<lambda>h. let diff = identity_diff c h (opt_bucket (rn_opt r)) in
          failIf (length diff > 0)
            (Cat ErrSafety (Txt ('': chain identity check failed ('' @ join_on ''; '' diff @ ''); nothing deleted'')))))"

definition process_one :: "'w runner \<Rightarrow> claimed \<Rightarrow> 'w \<Rightarrow> (result \<times> 'w) option" where
  "process_one r c w =
     (case confirm_identity r c w of
        (Inl e, w) \<Rightarrow> Some (empty_result\<lparr>res_err := Some e\<rparr>, w)
      | (Inr _, w) \<Rightarrow>
          (case clear_prefixes r (cl_oid c) (prefixes (cl_oid c)) True empty_result w of
             None \<Rightarrow> None
           | Some (res, w) \<Rightarrow>
               if res_err res \<noteq> None \<or> opt_dry_run (rn_opt r) then Some (res, w)
               else case recheck r (prefixes (cl_oid c)) w of (x, w) \<Rightarrow> Some (with_err res x, w)))"

text \<open>The verdict and whether it counts as a mismatch.\<close>

definition verdict :: "options \<Rightarrow> result \<Rightarrow> size_check \<Rightarrow> string \<times> bool" where
  "verdict opt res check =
     (if res_err res \<noteq> None then (''n/a'', False)
      else if sc_role check = ''mixed'' then (''ANOMALY'', True)
      else if \<not> sc_known check then (''skip'', False)
      else if opt_retry_failed opt then (''see-status'', False)
      else if res_bytes res = sc_expected check then (''ok'', False)
      else (''MISMATCH'', True))"

end
