(* ===== verification/PurgeRun.thy ===== *)
theory PurgeRun
  imports PurgeObject "HOL-Library.AList" "HOL-Library.Multiset"
begin

text \<open>
  The concurrent run of \<^verbatim>\<open>internal/purge/purge.go\<close>: \<^verbatim>\<open>Run\<close>, \<^verbatim>\<open>work\<close>, \<^verbatim>\<open>handle\<close>, \<^verbatim>\<open>stop\<close>, \<^verbatim>\<open>halt\<close>,
  \<^verbatim>\<open>finish\<close>. A state is the feed, the channel, the workers and the fields of \<^verbatim>\<open>Runner\<close>; a step is what
  one goroutine does between two synchronisations, so that a sequence of events is an interleaving.
  What \<^verbatim>\<open>ProcessOne\<close> returns is a parameter of the event: here any result, \<open>PurgeResults\<close> says which.
  The heartbeat and the log lines are left out, and so is \<^verbatim>\<open>QPS\<close>, which only sets the rate limiter.
\<close>

section \<open>Interfaces\<close>

text \<open>
  The interface \<^verbatim>\<open>Progress\<close> with \<^verbatim>\<open>OnSafety\<close>, and the contexts. \<^verbatim>\<open>Claim\<close> runs under the run's context,
  the others under detached ones; \<open>rv_err\<close> and \<open>rv_parent_err\<close> are \<^verbatim>\<open>Err()\<close> of the run's context and
  of the operator's that it derives from, \<open>rv_cancel\<close> is \<^verbatim>\<open>haltCancel\<close>.
\<close>

record 'w run_env =
  rv_claim :: "u64 \<Rightarrow> int \<Rightarrow> bool \<Rightarrow> ('w, claimed list) act"
  rv_done :: "u64 \<Rightarrow> u64 \<Rightarrow> u64 \<Rightarrow> size_check \<Rightarrow> ('w, unit) act"
  rv_fail :: "u64 \<Rightarrow> u64 \<Rightarrow> u64 \<Rightarrow> string \<Rightarrow> ('w, unit) act"
  rv_on_safety :: "(u64 \<Rightarrow> err \<Rightarrow> ('w, unit) act) option"
  rv_err :: "'w \<Rightarrow> err option"
  rv_parent_err :: "'w \<Rightarrow> err option"
  rv_cancel :: "'w \<Rightarrow> 'w"
  rv_opt :: options

definition normalize :: "options \<Rightarrow> options" where
  "normalize opt =
     (let opt = (if opt_concurrency opt \<le> 0 then opt\<lparr>opt_concurrency := 1\<rparr> else opt)
      in if opt_max_retry opt < 0 then opt\<lparr>opt_max_retry := 10\<rparr> else opt)"

section \<open>States\<close>

text \<open>The feed: at the head of its loop, about to claim, sending a batch, about to stop, returned.\<close>

datatype feed =
    Checking u64
  | Claiming u64
  | Sending u64 "claimed list"
  | ClaimFailed err
  | Returned "err option"

text \<open>
  A worker: at \<^verbatim>\<open>range ids\<close>; with an object before the start mutex; admitted; in \<^verbatim>\<open>ProcessOne\<close>; with a
  result; inside \<^verbatim>\<open>haltOnce\<close>; about to record; about to stop for a completion that was not recorded;
  returned.
\<close>

datatype worker =
    Receiving
  | Taken claimed
  | Admitted claimed
  | Processing claimed
  | Judging claimed result
  | Holding claimed result
  | Recording claimed result
  | Stopping claimed err
  | Exited

datatype once = NotRun | Running | Ran

text \<open>How an object that was claimed ended; a history, not a field of the code.\<close>

datatype outcome =
    NotSent | NotStarted | Previewed | Interrupted
  | DoneRecorded | DoneLost | FailRecorded "err" | FailLost "err"

record 'w run =
  rs_world :: 'w
  rs_feed :: feed
  rs_queue :: "claimed list"
  rs_workers :: "worker list"
  rs_stop :: "err option"
  rs_halt :: "err option"
  rs_once :: once
  rs_processed :: u64
  rs_failed :: u64
  rs_interrupted :: u64
  rs_keys :: u64
  rs_bytes :: u64
  rs_mismatch :: u64
  rs_failed_list :: "claimed list"
  rs_unrecorded :: "(u64 \<times> string) list"
  rs_claimed :: "claimed list"
  rs_started :: "claimed list"
  rs_exhausted :: bool
  rs_log :: "(claimed \<times> outcome) list"

definition run_start :: "'w run_env \<Rightarrow> 'w \<Rightarrow> 'w run" where
  "run_start rv w =
     \<lparr>rs_world = w, rs_feed = Checking 0, rs_queue = [],
      rs_workers = replicate (nat (opt_concurrency (normalize (rv_opt rv)))) Receiving,
      rs_stop = None, rs_halt = None, rs_once = NotRun, rs_processed = 0, rs_failed = 0,
      rs_interrupted = 0, rs_keys = 0, rs_bytes = 0, rs_mismatch = 0, rs_failed_list = [],
      rs_unrecorded = [], rs_claimed = [], rs_started = [], rs_exhausted = False, rs_log = []\<rparr>"

section \<open>Stop and halt\<close>

definition numbered :: "string \<Rightarrow> u64 \<Rightarrow> err \<Rightarrow> err" where
  "numbered sep oid e = Cat (Txt (''oid'' @ sep @ dec (unat oid) @ '': '')) e"

definition stop :: "u64 \<Rightarrow> err \<Rightarrow> 'w run \<Rightarrow> 'w run" where
  "stop oid e s = (if rs_stop s = None then s\<lparr>rs_stop := Some (numbered ''='' oid e)\<rparr> else s)"

text \<open>The part of \<^verbatim>\<open>halt\<close> before \<^verbatim>\<open>OnSafety\<close>, and \<^verbatim>\<open>OnSafety\<close>.\<close>

definition halt_enter :: "'w run_env \<Rightarrow> u64 \<Rightarrow> err \<Rightarrow> 'w run \<Rightarrow> 'w run" where
  "halt_enter rv oid e s =
     s\<lparr>rs_once := Running, rs_halt := Some (numbered '' '' oid e), rs_world := rv_cancel rv (rs_world s)\<rparr>"

definition halt_hold :: "'w run_env \<Rightarrow> u64 \<Rightarrow> err \<Rightarrow> 'w run \<Rightarrow> 'w run" where
  "halt_hold rv oid e s =
     (case rv_on_safety rv of
        None \<Rightarrow> s\<lparr>rs_once := Ran\<rparr>
      | Some f \<Rightarrow>
          (case f oid e (rs_world s) of
             (Inl x, w) \<Rightarrow> s\<lparr>rs_once := Ran, rs_world := w,
                rs_halt := join_err (rs_halt s) (Some (Cat (Txt ''cannot persist SAFETY_HOLD: '') x))\<rparr>
           | (Inr _, w) \<Rightarrow> s\<lparr>rs_once := Ran, rs_world := w\<rparr>))"

section \<open>The feed\<close>

datatype event =
    FeedStopped | FeedCancelled | FeedGo | FeedClaim | FeedSend | FeedFail
  | Take nat | Admit nat | Start nat | Result nat result | Judge nat | Hold nat | Record nat | Stop nat

text \<open>What the feed still has in hand.\<close>

fun feed_rest :: "feed \<Rightarrow> claimed list" where
  "feed_rest (Sending a cs) = cs"
| "feed_rest _ = []"

definition selecting :: "feed \<Rightarrow> bool" where
  "selecting f = (case f of Checking _ \<Rightarrow> True | Sending _ _ \<Rightarrow> True | _ \<Rightarrow> False)"

definition return_feed :: "err option \<Rightarrow> 'w run \<Rightarrow> 'w run" where
  "return_feed e s =
     s\<lparr>rs_feed := Returned e, rs_log := rs_log s @ map (\<lambda>c. (c, NotSent)) (feed_rest (rs_feed s))\<rparr>"

definition feed_claim :: "'w run_env \<Rightarrow> u64 \<Rightarrow> 'w run \<Rightarrow> 'w run" where
  "feed_claim rv after s =
     (case rv_claim rv after (opt_concurrency (normalize (rv_opt rv)) * 4) (opt_retry_failed (rv_opt rv)) (rs_world s) of
        (Inl e, w) \<Rightarrow> s\<lparr>rs_world := w, rs_feed := ClaimFailed (Cat (Txt ''claim from progress table: '') e)\<rparr>
      | (Inr batch, w) \<Rightarrow>
          if length batch = 0 then s\<lparr>rs_world := w, rs_feed := Returned None, rs_exhausted := True\<rparr>
          else s\<lparr>rs_world := w, rs_feed := Sending after batch, rs_claimed := rs_claimed s @ batch\<rparr>)"

definition channel_cap :: "'w run_env \<Rightarrow> nat" where
  "channel_cap rv = nat (opt_concurrency (normalize (rv_opt rv)) * 2)"

fun feed_step :: "'w run_env \<Rightarrow> event \<Rightarrow> 'w run \<Rightarrow> 'w run option" where
  "feed_step rv FeedStopped s =
     (if selecting (rs_feed s) \<and> rs_stop s \<noteq> None then Some (return_feed None s) else None)"
| "feed_step rv FeedCancelled s =
     (case rv_err rv (rs_world s) of
        Some e \<Rightarrow> if selecting (rs_feed s) then Some (return_feed (Some e) s) else None
      | None \<Rightarrow> None)"
| "feed_step rv FeedGo s =
     (case rs_feed s of
        Checking a \<Rightarrow>
          if rs_stop s = None \<and> rv_err rv (rs_world s) = None then Some (s\<lparr>rs_feed := Claiming a\<rparr>) else None
      | _ \<Rightarrow> None)"
| "feed_step rv FeedClaim s = (case rs_feed s of Claiming a \<Rightarrow> Some (feed_claim rv a s) | _ \<Rightarrow> None)"
| "feed_step rv FeedSend s =
     (case rs_feed s of
        Sending a (c # cs) \<Rightarrow>
          if length (rs_queue s) < channel_cap rv
          then Some (s\<lparr>rs_queue := rs_queue s @ [c],
                 rs_feed := (if cs = [] then Checking (cl_oid c) else Sending (cl_oid c) cs)\<rparr>)
          else None
      | _ \<Rightarrow> None)"
| "feed_step rv FeedFail s =
     (case rs_feed s of ClaimFailed e \<Rightarrow> Some ((stop 0 e s)\<lparr>rs_feed := Returned (Some e)\<rparr>) | _ \<Rightarrow> None)"
| "feed_step rv _ s = None"

section \<open>The workers\<close>

definition set_worker :: "nat \<Rightarrow> worker \<Rightarrow> 'w run \<Rightarrow> 'w run" where
  "set_worker i x s = s\<lparr>rs_workers := (rs_workers s)[i := x]\<rparr>"

definition log_end :: "claimed \<Rightarrow> outcome \<Rightarrow> 'w run \<Rightarrow> 'w run" where
  "log_end c out s = s\<lparr>rs_log := rs_log s @ [(c, out)]\<rparr>"

text \<open>Stopped as the admission sees it.\<close>

definition run_stopped :: "'w run_env \<Rightarrow> 'w run \<Rightarrow> bool" where
  "run_stopped rv s \<longleftrightarrow> rv_err rv (rs_world s) \<noteq> None \<or> rs_stop s \<noteq> None"

text \<open>The counters, right after \<^verbatim>\<open>ProcessOne\<close>; in a dry run also the end of the object.\<close>

definition count_result :: "'w run_env \<Rightarrow> claimed \<Rightarrow> result \<Rightarrow> 'w run \<Rightarrow> 'w run" where
  "count_result rv c res s =
     (let mis = snd (verdict (rv_opt rv) res (check_size (rv_opt rv) res (cl_payload c))) in
      s\<lparr>rs_processed := rs_processed s + 1, rs_keys := rs_keys s + res_keys res,
        rs_bytes := rs_bytes s + res_bytes res, rs_mismatch := rs_mismatch s + (if mis then 1 else 0)\<rparr>)"

definition is_safety :: "result \<Rightarrow> bool" where
  "is_safety res \<longleftrightarrow> (case res_err res of None \<Rightarrow> False | Some e \<Rightarrow> err_is e ErrSafety)"

definition judge :: "'w run_env \<Rightarrow> nat \<Rightarrow> claimed \<Rightarrow> result \<Rightarrow> 'w run \<Rightarrow> 'w run option" where
  "judge rv i c res s =
     (case res_err res of
        None \<Rightarrow> Some (set_worker i (Recording c res) s)
      | Some e \<Rightarrow>
          if \<not> is_safety res \<and> rv_err rv (rs_world s) \<noteq> None
          then Some (log_end c Interrupted (set_worker i Receiving (s\<lparr>rs_interrupted := rs_interrupted s + 1\<rparr>)))
          else if is_safety res
          then (case rs_once s of
                  NotRun \<Rightarrow> Some (set_worker i (Holding c res) (halt_enter rv (cl_oid c) e s))
                | Running \<Rightarrow> None
                | Ran \<Rightarrow> Some (set_worker i (Recording c res) s))
          else Some (set_worker i (Recording c res) (stop (cl_oid c) e s)))"

definition not_recorded :: "u64 \<Rightarrow> err \<Rightarrow> 'w run \<Rightarrow> 'w run" where
  "not_recorded oid e s = s\<lparr>rs_unrecorded := AList.update oid (err_text e) (rs_unrecorded s)\<rparr>"

definition recorded :: "u64 \<Rightarrow> 'w run \<Rightarrow> 'w run" where
  "recorded oid s = s\<lparr>rs_unrecorded := AList.delete oid (rs_unrecorded s)\<rparr>"

definition remember_failure :: "claimed \<Rightarrow> 'w run \<Rightarrow> 'w run" where
  "remember_failure c s = s\<lparr>rs_failed_list := rs_failed_list s @ [c]\<rparr>"

definition record_fail :: "'w run_env \<Rightarrow> nat \<Rightarrow> claimed \<Rightarrow> result \<Rightarrow> err \<Rightarrow> 'w run \<Rightarrow> 'w run" where
  "record_fail rv i c res e s =
     (let s = s\<lparr>rs_failed := rs_failed s + 1\<rparr>;
          s = (if is_safety res then s else remember_failure c s) in
      case rv_fail rv (cl_oid c) (res_keys res) (res_bytes res) (err_text e) (rs_world s) of
        (Inl x, w) \<Rightarrow> log_end c (FailLost e) (set_worker i Receiving (not_recorded (cl_oid c) x (s\<lparr>rs_world := w\<rparr>)))
      | (Inr _, w) \<Rightarrow> log_end c (FailRecorded e) (set_worker i Receiving (recorded (cl_oid c) (s\<lparr>rs_world := w\<rparr>))))"

definition record_done :: "'w run_env \<Rightarrow> nat \<Rightarrow> claimed \<Rightarrow> result \<Rightarrow> 'w run \<Rightarrow> 'w run" where
  "record_done rv i c res s =
     (case rv_done rv (cl_oid c) (res_keys res) (res_bytes res)
             (check_size (rv_opt rv) res (cl_payload c)) (rs_world s) of
        (Inl x, w) \<Rightarrow> set_worker i (Stopping c x) (remember_failure c (not_recorded (cl_oid c) x (s\<lparr>rs_world := w\<rparr>)))
      | (Inr _, w) \<Rightarrow> log_end c DoneRecorded (set_worker i Receiving (recorded (cl_oid c) (s\<lparr>rs_world := w\<rparr>))))"

definition take_step :: "nat \<Rightarrow> worker \<Rightarrow> 'w run \<Rightarrow> 'w run option" where
  "take_step i x s =
     (case x of
        Receiving \<Rightarrow>
          (case rs_queue s of
             c # cs \<Rightarrow> Some (set_worker i (Taken c) (s\<lparr>rs_queue := cs\<rparr>))
           | [] \<Rightarrow> (case rs_feed s of Returned _ \<Rightarrow> Some (set_worker i Exited s) | _ \<Rightarrow> None))
      | _ \<Rightarrow> None)"

definition admit_step :: "'w run_env \<Rightarrow> nat \<Rightarrow> worker \<Rightarrow> 'w run \<Rightarrow> 'w run option" where
  "admit_step rv i x s =
     (case x of
        Taken c \<Rightarrow>
          Some (if run_stopped rv s then log_end c NotStarted (set_worker i Receiving s)
                else set_worker i (Admitted c) (s\<lparr>rs_started := rs_started s @ [c]\<rparr>))
      | _ \<Rightarrow> None)"

definition start_step :: "'w run_env \<Rightarrow> nat \<Rightarrow> worker \<Rightarrow> 'w run \<Rightarrow> 'w run option" where
  "start_step rv i x s =
     (case x of
        Admitted c \<Rightarrow>
          Some (if rv_err rv (rs_world s) \<noteq> None then log_end c NotStarted (set_worker i Receiving s)
                else set_worker i (Processing c) s)
      | _ \<Rightarrow> None)"

definition result_step :: "'w run_env \<Rightarrow> nat \<Rightarrow> result \<Rightarrow> worker \<Rightarrow> 'w run \<Rightarrow> 'w run option" where
  "result_step rv i res x s =
     (case x of
        Processing c \<Rightarrow>
          (let s = count_result rv c res s in
           Some (if opt_dry_run (rv_opt rv)
                 then log_end c Previewed (set_worker i Receiving
                        (if res_err res \<noteq> None then s\<lparr>rs_failed := rs_failed s + 1\<rparr> else s))
                 else set_worker i (Judging c res) s))
      | _ \<Rightarrow> None)"

definition judge_step :: "'w run_env \<Rightarrow> nat \<Rightarrow> worker \<Rightarrow> 'w run \<Rightarrow> 'w run option" where
  "judge_step rv i x s = (case x of Judging c res \<Rightarrow> judge rv i c res s | _ \<Rightarrow> None)"

definition hold_step :: "'w run_env \<Rightarrow> nat \<Rightarrow> worker \<Rightarrow> 'w run \<Rightarrow> 'w run option" where
  "hold_step rv i x s =
     (case x of
        Holding c res \<Rightarrow> Some (set_worker i (Recording c res) (halt_hold rv (cl_oid c) (the (res_err res)) s))
      | _ \<Rightarrow> None)"

definition record_step :: "'w run_env \<Rightarrow> nat \<Rightarrow> worker \<Rightarrow> 'w run \<Rightarrow> 'w run option" where
  "record_step rv i x s =
     (case x of
        Recording c res \<Rightarrow>
          Some (case res_err res of None \<Rightarrow> record_done rv i c res s | Some e \<Rightarrow> record_fail rv i c res e s)
      | _ \<Rightarrow> None)"

definition stop_step :: "nat \<Rightarrow> worker \<Rightarrow> 'w run \<Rightarrow> 'w run option" where
  "stop_step i x s =
     (case x of
        Stopping c e \<Rightarrow>
          Some (log_end c DoneLost (set_worker i Receiving
            (stop (cl_oid c) (Cat (Txt ''completion NOT recorded in progress table: '') e) s)))
      | _ \<Rightarrow> None)"

definition worker_step :: "'w run_env \<Rightarrow> nat \<Rightarrow> event \<Rightarrow> worker \<Rightarrow> 'w run \<Rightarrow> 'w run option" where
  "worker_step rv i ev =
     (case ev of
        Take _ \<Rightarrow> take_step i
      | Admit _ \<Rightarrow> admit_step rv i
      | Start _ \<Rightarrow> start_step rv i
      | Result _ res \<Rightarrow> result_step rv i res
      | Judge _ \<Rightarrow> judge_step rv i
      | Hold _ \<Rightarrow> hold_step rv i
      | Record _ \<Rightarrow> record_step rv i
      | Stop _ \<Rightarrow> stop_step i
      | _ \<Rightarrow> (\<lambda>_ _. None))"

fun event_worker :: "event \<Rightarrow> nat option" where
  "event_worker (Take i) = Some i" | "event_worker (Admit i) = Some i" | "event_worker (Start i) = Some i"
| "event_worker (Result i _) = Some i" | "event_worker (Judge i) = Some i" | "event_worker (Hold i) = Some i"
| "event_worker (Record i) = Some i" | "event_worker (Stop i) = Some i" | "event_worker _ = None"

definition run_step :: "'w run_env \<Rightarrow> event \<Rightarrow> 'w run \<Rightarrow> 'w run option" where
  "run_step rv ev s =
     (case event_worker ev of
        None \<Rightarrow> feed_step rv ev s
      | Some i \<Rightarrow> if i < length (rs_workers s) then worker_step rv i ev (rs_workers s ! i) s else None)"

text \<open>
  An interleaving of the goroutines; between any two steps the environment and the objects in
  \<^verbatim>\<open>ProcessOne\<close> may change the world along \<open>env\<close>.
\<close>

inductive run_reach :: "'w run_env \<Rightarrow> ('w \<Rightarrow> 'w \<Rightarrow> bool) \<Rightarrow> 'w run \<Rightarrow> 'w run \<Rightarrow> bool"
  for rv :: "'w run_env" and env :: "'w \<Rightarrow> 'w \<Rightarrow> bool" and s :: "'w run" where
  here: "run_reach rv env s s"
| move: "run_reach rv env s t \<Longrightarrow> run_step rv ev t = Some u \<Longrightarrow> run_reach rv env s u"
| world: "run_reach rv env s t \<Longrightarrow> env (rs_world t) w \<Longrightarrow> run_reach rv env s (t\<lparr>rs_world := w\<rparr>)"

section \<open>The end of the run\<close>

definition run_over :: "'w run \<Rightarrow> bool" where
  "run_over s \<longleftrightarrow> (case rs_feed s of Returned _ \<Rightarrow> True | _ \<Rightarrow> False) \<and> list_all (\<lambda>x. x = Exited) (rs_workers s)"

definition claim_err :: "'w run \<Rightarrow> err option" where
  "claim_err s = (if rs_halt s \<noteq> None \<or> rs_stop s \<noteq> None then None
     else case rs_feed s of Returned e \<Rightarrow> e | _ \<Rightarrow> None)"

definition problems :: "'w run_env \<Rightarrow> 'w run \<Rightarrow> string list" where
  "problems rv s =
     (case rs_halt s of None \<Rightarrow> []
      | Some e \<Rightarrow> [''HALTED on '' @ err_text e @ ''; '' @ dec (unat (rs_interrupted s)) @
          '' in-flight objects cancelled and left unrecorded; inspect before running again'']) @
     (case claim_err s of None \<Rightarrow> [] | Some e \<Rightarrow> [''main pass stopped early: '' @ err_text e]) @
     (case rs_stop s of None \<Rightarrow> []
      | Some e \<Rightarrow> [''STOPPED on '' @ err_text e @ ''; fix the cause and rerun purge'']) @
     (if rs_failed s > 0 then [dec (unat (rs_failed s)) @ '' objects still FAILED''] else []) @
     (if length (rs_unrecorded s) > 0
      then [dec (length (rs_unrecorded s)) @ '' results not recorded in the progress table''] else []) @
     (case rv_parent_err rv (rs_world s) of None \<Rightarrow> []
      | Some e \<Rightarrow> [''interrupted ('' @ err_text e @ ''); '' @ dec (unat (rs_interrupted s)) @
          '' in-flight objects left unrecorded for the next run''])"

definition run_error :: "'w run_env \<Rightarrow> 'w run \<Rightarrow> err option" where
  "run_error rv s =
     (if length (problems rv s) > 0
      then join_err (join_err (rs_halt s) (rs_stop s)) (Some (Txt (join_on ''; '' (problems rv s))))
      else None)"

end
