(* ===== verification/PurgeRunInvariant.thy ===== *)
theory PurgeRunInvariant
  imports PurgeRun
begin

text \<open>
  What every interleaving of a deletion run keeps. \<open>run_world\<close> is the contract of the world under
  the run: its operations may only see a context become cancelled, and the run's context only with
  the operator's, unless the run halts. \<open>later\<close> relates the states before and after a step,
  \<open>balance\<close> counts every claimed object once, and \<open>run_sound\<close> says that every object that was not
  deleted and recorded has left its reason in the state.
\<close>

section \<open>Time\<close>

lemmas step_defs = worker_step_def take_step_def admit_step_def start_step_def result_step_def
  judge_step_def hold_step_def record_step_def stop_step_def judge_def record_fail_def record_done_def Let_def

lemmas field_defs = set_worker_def log_end_def stop_def halt_enter_def halt_hold_def count_result_def
  not_recorded_def recorded_def remember_failure_def

lemmas step_splits = worker.splits list.splits feed.splits if_splits option.splits once.splits prod.splits sum.splits

text \<open>What time does to the contexts: they stay cancelled, and the run's only follows the operator's.\<close>

definition ctx_grows :: "'w run_env \<Rightarrow> 'w \<Rightarrow> 'w \<Rightarrow> bool" where
  "ctx_grows rv w v \<longleftrightarrow>
     (rv_err rv w \<noteq> None \<longrightarrow> rv_err rv v \<noteq> None) \<and>
     (rv_parent_err rv w \<noteq> None \<longrightarrow> rv_parent_err rv v \<noteq> None) \<and>
     (rv_err rv v \<noteq> None \<longrightarrow> rv_err rv w \<noteq> None \<or> rv_parent_err rv v \<noteq> None)"

definition later :: "'w run_env \<Rightarrow> 'w run \<Rightarrow> 'w run \<Rightarrow> bool" where
  "later rv s t \<longleftrightarrow>
     length (rs_workers t) = length (rs_workers s) \<and>
     (rs_stop s \<noteq> None \<longrightarrow> rs_stop t = rs_stop s) \<and>
     (rs_halt s \<noteq> None \<longrightarrow> rs_halt t \<noteq> None) \<and>
     (rv_err rv (rs_world s) \<noteq> None \<longrightarrow> rv_err rv (rs_world t) \<noteq> None) \<and>
     (rv_parent_err rv (rs_world s) \<noteq> None \<longrightarrow> rv_parent_err rv (rs_world t) \<noteq> None) \<and>
     (rv_err rv (rs_world t) \<noteq> None \<longrightarrow> rv_err rv (rs_world s) \<noteq> None \<or> rv_parent_err rv (rs_world t) \<noteq> None \<or> rs_halt t \<noteq> None)"

lemma ctx_grows_refl [simp]: "ctx_grows rv w w"
  by (simp add: ctx_grows_def)

locale run_world =
  fixes rv :: "'w run_env" and env :: "'w \<Rightarrow> 'w \<Rightarrow> bool"
  assumes claim_ctx: "rv_claim rv a n b w = (x, v) \<Longrightarrow> ctx_grows rv w v"
    and done_ctx: "rv_done rv k m by sc w = (y, v) \<Longrightarrow> ctx_grows rv w v"
    and fail_ctx: "rv_fail rv k m by reason w = (y, v) \<Longrightarrow> ctx_grows rv w v"
    and safety_ctx: "rv_on_safety rv = Some f \<Longrightarrow> f k e w = (y, v) \<Longrightarrow> ctx_grows rv w v"
    and env_ctx: "env w v \<Longrightarrow> ctx_grows rv w v"
    and cancel_ctx: "rv_err rv (rv_cancel rv w) \<noteq> None" "rv_parent_err rv (rv_cancel rv w) = rv_parent_err rv w"
begin


lemma later_fields [simp]:
  "later rv s (set_worker i x t) = later rv s t" "later rv s (log_end c out t) = later rv s t"
  "later rv s (t\<lparr>rs_feed := f\<rparr>) = later rv s t" "later rv s (t\<lparr>rs_queue := q\<rparr>) = later rv s t"
  "later rv s (t\<lparr>rs_started := l\<rparr>) = later rv s t" "later rv s (t\<lparr>rs_failed := n\<rparr>) = later rv s t"
  "later rv s (t\<lparr>rs_claimed := l\<rparr>) = later rv s t" "later rv s (t\<lparr>rs_exhausted := b\<rparr>) = later rv s t"
  "later rv s (t\<lparr>rs_interrupted := n\<rparr>) = later rv s t" "later rv s (count_result rv c res t) = later rv s t"
  "later rv s (not_recorded k e t) = later rv s t" "later rv s (recorded k t) = later rv s t"
  "later rv s (remember_failure c t) = later rv s t" "later rv s (return_feed fe t) = later rv s t"
  by (simp_all add: later_def set_worker_def log_end_def count_result_def Let_def not_recorded_def
      recorded_def remember_failure_def return_feed_def)

lemma later_refl [simp]: "later rv s s"
  by (simp add: later_def)

lemma later_stop [simp]: "later rv s (stop k e s)"
  by (simp add: later_def stop_def)

lemma later_world: "ctx_grows rv (rs_world s) w \<Longrightarrow> later rv s (s\<lparr>rs_world := w\<rparr>)"
  by (auto simp: later_def ctx_grows_def)

lemma later_enter [simp]: "later rv s (halt_enter rv k e s)"
  by (simp add: later_def halt_enter_def cancel_ctx)

lemma later_hold: "later rv s (halt_hold rv k e s)"
proof (cases "rv_on_safety rv")
  case None
  then show ?thesis by (simp add: halt_hold_def later_def)
next
  case (Some f)
  obtain x w where f: "f k e (rs_world s) = (x, w)" by (cases "f k e (rs_world s)")
  show ?thesis
    using safety_ctx [OF Some f] Some f
    by (cases x) (auto simp: halt_hold_def later_def ctx_grows_def)
qed

lemma later_claim: "later rv s (feed_claim rv a s)"
  by (auto simp: feed_claim_def Let_def split: prod.splits sum.splits dest!: claim_ctx dest: later_world)

lemma later_record_fail: "later rv s (record_fail rv i c res e s)"
  by (auto simp: record_fail_def Let_def split: prod.splits sum.splits dest!: fail_ctx)
    (auto simp: remember_failure_def later_def ctx_grows_def)

lemma later_record_done: "later rv s (record_done rv i c res s)"
  by (auto simp: record_done_def Let_def split: prod.splits sum.splits dest!: done_ctx dest: later_world)

lemma later_judge: "judge rv i c res s = Some t \<Longrightarrow> later rv s t"
  by (auto simp: judge_def split: option.splits if_splits once.splits)

lemma later_feed: "feed_step rv ev s = Some t \<Longrightarrow> later rv s t"
  by (cases ev) (auto simp: later_claim split: option.splits if_splits feed.splits list.splits)

lemma later_worker: "worker_step rv i ev x s = Some t \<Longrightarrow> later rv s t"
  by (cases ev) (auto simp: worker_step_def take_step_def admit_step_def start_step_def result_step_def judge_step_def
      hold_step_def record_step_def stop_step_def Let_def later_record_fail later_record_done later_judge later_hold
    split: worker.splits list.splits feed.splits if_splits option.splits)

lemma later_step: "run_step rv ev s = Some t \<Longrightarrow> later rv s t"
  by (auto simp: run_step_def later_feed later_worker split: option.splits if_splits)


lemma run_stopped_later: "later rv s t \<Longrightarrow> run_stopped rv s \<Longrightarrow> run_stopped rv t"
  by (auto simp: later_def run_stopped_def)

end

section \<open>Every claimed object is accounted for\<close>

fun in_hand :: "worker \<Rightarrow> claimed list" where
  "in_hand (Taken c) = [c]" | "in_hand (Admitted c) = [c]" | "in_hand (Processing c) = [c]"
| "in_hand (Judging c res) = [c]" | "in_hand (Holding c res) = [c]" | "in_hand (Recording c res) = [c]"
| "in_hand (Stopping c e) = [c]" | "in_hand _ = []"

definition hands :: "worker list \<Rightarrow> claimed multiset" where
  "hands ws = mset (concat (map in_hand ws))"

definition balance :: "'w run \<Rightarrow> claimed multiset" where
  "balance s = mset (feed_rest (rs_feed s)) + mset (rs_queue s) + hands (rs_workers s) + mset (map fst (rs_log s))"

lemma in_hand_Receiving [simp]: "concat (map in_hand (replicate n Receiving)) = []"
  by (induction n) auto

lemma hands_set:
  "i < length ws \<Longrightarrow> hands (ws[i := x]) + mset (in_hand (ws ! i)) = hands ws + mset (in_hand x)"
proof (induction ws arbitrary: i)
  case (Cons a ws)
  then show ?case by (cases i) (auto simp: hands_def ac_simps)
qed simp

lemma balance_set [simp]:
  assumes "i < length (rs_workers s)"
  shows "in_hand x = in_hand (rs_workers s ! i) \<Longrightarrow> balance (set_worker i x s) = balance s"
    and "in_hand (rs_workers s ! i) = [c] \<Longrightarrow> in_hand x = [] \<Longrightarrow> add_mset c (balance (set_worker i x s)) = balance s"
    and "in_hand (rs_workers s ! i) = [] \<Longrightarrow> in_hand x = [c] \<Longrightarrow> balance (set_worker i x s) = add_mset c (balance s)"
  using hands_set [OF assms, of x] by (simp_all add: balance_def set_worker_def)

lemma balance_queue: "rs_queue s = c # cs \<Longrightarrow> add_mset c (balance (s\<lparr>rs_queue := cs\<rparr>)) = balance s"
  by (simp add: balance_def)

lemma balance_fields [simp]:
  "balance (s\<lparr>rs_world := w\<rparr>) = balance s" "balance (s\<lparr>rs_started := l\<rparr>) = balance s"
  "balance (s\<lparr>rs_failed := n\<rparr>) = balance s" "balance (s\<lparr>rs_interrupted := n\<rparr>) = balance s"
  "balance (s\<lparr>rs_claimed := l\<rparr>) = balance s"
  "balance (count_result rv c res s) = balance s" "balance (not_recorded k e s) = balance s"
  "balance (recorded k s) = balance s" "balance (remember_failure c s) = balance s"
  "balance (stop k e s) = balance s" "balance (halt_enter rv k e s) = balance s"
  "balance (halt_hold rv k e s) = balance s" "balance (log_end c out s) = add_mset c (balance s)"
  by (simp_all add: balance_def count_result_def Let_def not_recorded_def recorded_def remember_failure_def
      stop_def halt_enter_def halt_hold_def log_end_def split: option.split prod.split sum.split)

lemma state_fields [simp]:
  "rs_workers (count_result rv c res s) = rs_workers s" "rs_workers (not_recorded k e s) = rs_workers s"
  "rs_workers (recorded k s) = rs_workers s" "rs_workers (remember_failure c s) = rs_workers s"
  "rs_workers (stop k e s) = rs_workers s" "rs_workers (halt_enter rv k e s) = rs_workers s"
  "rs_workers (halt_hold rv k e s) = rs_workers s" "rs_workers (log_end c out s) = rs_workers s"
  "rs_workers (set_worker i x s) = (rs_workers s)[i := x]"
  "rs_claimed (count_result rv c res s) = rs_claimed s" "rs_claimed (not_recorded k e s) = rs_claimed s"
  "rs_claimed (recorded k s) = rs_claimed s" "rs_claimed (remember_failure c s) = rs_claimed s"
  "rs_claimed (stop k e s) = rs_claimed s" "rs_claimed (halt_enter rv k e s) = rs_claimed s"
  "rs_claimed (halt_hold rv k e s) = rs_claimed s" "rs_claimed (log_end c out s) = rs_claimed s"
  "rs_claimed (set_worker i x s) = rs_claimed s"
  by (simp_all add: count_result_def Let_def not_recorded_def recorded_def remember_failure_def
      stop_def halt_enter_def halt_hold_def log_end_def set_worker_def split: option.split prod.split sum.split)

lemma feed_balance:
  "feed_step rv ev s = Some t \<Longrightarrow> mset (rs_claimed s) = balance s \<Longrightarrow> mset (rs_claimed t) = balance t"
  by (cases ev)
    (auto simp: return_feed_def selecting_def feed_claim_def Let_def balance_def stop_def multiset.map_comp comp_def
      split: option.splits if_splits feed.splits list.splits prod.splits sum.splits)

lemma worker_balance:
  assumes "worker_step rv i ev y s = Some t" "i < length (rs_workers s)" "rs_workers s ! i = y"
    and "mset (rs_claimed s) = balance s"
  shows "mset (rs_claimed t) = balance t"
  using assms
  by (cases ev) (auto simp: step_defs balance_queue split: step_splits)

section \<open>Every outcome has its reason\<close>

definition failure_known :: "'w run \<Rightarrow> err \<Rightarrow> bool" where
  "failure_known s e \<longleftrightarrow> (if err_is e ErrSafety then rs_halt s \<noteq> None else rs_stop s \<noteq> None)"

fun excused :: "'w run_env \<Rightarrow> 'w run \<Rightarrow> outcome \<Rightarrow> bool" where
  "excused rv s NotSent \<longleftrightarrow> run_stopped rv s"
| "excused rv s NotStarted \<longleftrightarrow> run_stopped rv s"
| "excused rv s Previewed \<longleftrightarrow> opt_dry_run (rv_opt rv)"
| "excused rv s Interrupted \<longleftrightarrow> run_stopped rv s"
| "excused rv s DoneRecorded \<longleftrightarrow> True"
| "excused rv s DoneLost \<longleftrightarrow> rs_stop s \<noteq> None"
| "excused rv s (FailRecorded e) \<longleftrightarrow> failure_known s e"
| "excused rv s (FailLost e) \<longleftrightarrow> failure_known s e"

fun sound_worker :: "'w run \<Rightarrow> worker \<Rightarrow> bool" where
  "sound_worker s (Holding c res) \<longleftrightarrow> is_safety res \<and> rs_halt s \<noteq> None"
| "sound_worker s (Recording c res) \<longleftrightarrow> (\<forall>e. res_err res = Some e \<longrightarrow> failure_known s e)"
| "sound_worker s _ \<longleftrightarrow> True"

fun sound_feed :: "'w run_env \<Rightarrow> 'w run \<Rightarrow> feed \<Rightarrow> bool" where
  "sound_feed rv s (Returned None) \<longleftrightarrow> rs_exhausted s \<or> rs_stop s \<noteq> None"
| "sound_feed rv s (Returned (Some e)) \<longleftrightarrow> run_stopped rv s"
| "sound_feed rv s (Sending a cs) \<longleftrightarrow> cs \<noteq> []"
| "sound_feed rv s _ \<longleftrightarrow> True"

definition run_sound :: "'w run_env \<Rightarrow> 'w run \<Rightarrow> bool" where
  "run_sound rv s \<longleftrightarrow>
     list_all (\<lambda>x. excused rv s (snd x)) (rs_log s) \<and> list_all (sound_worker s) (rs_workers s) \<and>
     sound_feed rv s (rs_feed s) \<and> (rs_halt s = None \<longleftrightarrow> rs_once s = NotRun)"

context run_world
begin

lemma failure_known_later: "later rv s t \<Longrightarrow> failure_known s e \<Longrightarrow> failure_known t e"
  by (auto simp: failure_known_def later_def split: if_splits)

lemma excused_later: "later rv s t \<Longrightarrow> excused rv s out \<Longrightarrow> excused rv t out"
  using run_stopped_later [of s t] failure_known_later [of s t] by (cases out) (auto simp: later_def)

lemma sound_worker_later: "later rv s t \<Longrightarrow> sound_worker s x \<Longrightarrow> sound_worker t x"
  using failure_known_later [of s t] by (cases x) (auto simp: later_def)

lemma run_soundI:
  assumes "later rv s t" "run_sound rv s" and log: "rs_log t = rs_log s @ new" "list_all (\<lambda>x. excused rv t (snd x)) new"
    and ws: "set (rs_workers t) \<subseteq> insert y (set (rs_workers s))" "sound_worker t y"
    and "sound_feed rv t (rs_feed t)" "rs_halt t = None \<longleftrightarrow> rs_once t = NotRun"
  shows "run_sound rv t"
proof -
  have "list_all (\<lambda>x. excused rv t (snd x)) (rs_log s)" "list_all (sound_worker t) (rs_workers s)"
    using assms(2) excused_later [OF assms(1)] sound_worker_later [OF assms(1)]
    by (auto simp: run_sound_def elim!: list.pred_mono_strong)
  then show ?thesis using assms(7,8) log ws by (auto simp: run_sound_def list_all_iff)
qed

lemma feed_sound:
  assumes "feed_step rv ev s = Some t" "run_sound rv s"
  shows "run_sound rv t"
proof -
  have "rs_workers t = rs_workers s \<and> (rs_halt t = None \<longleftrightarrow> rs_once t = NotRun)"
    using assms by (cases ev) (auto simp: run_sound_def return_feed_def feed_claim_def stop_def Let_def
        split: option.splits if_splits feed.splits list.splits prod.splits sum.splits)
  moreover have "sound_feed rv t (rs_feed t)"
    using assms by (cases ev) (auto simp: run_sound_def return_feed_def feed_claim_def stop_def Let_def run_stopped_def selecting_def
        split: option.splits if_splits feed.splits list.splits prod.splits sum.splits)
  moreover have "\<exists>new. rs_log t = rs_log s @ new \<and> list_all (\<lambda>x. excused rv t (snd x)) new"
    using assms by (cases ev) (auto simp: return_feed_def feed_claim_def stop_def Let_def run_stopped_def list_all_iff
        split: option.splits if_splits feed.splits list.splits prod.splits sum.splits)
  ultimately show ?thesis
    using run_soundI [OF later_feed [OF assms(1)] assms(2), of _ Receiving] by auto
qed

lemma log_fields [simp]:
  "rs_log (set_worker i x s) = rs_log s" "rs_log (count_result rv c res s) = rs_log s"
  "rs_log (not_recorded k e s) = rs_log s" "rs_log (recorded k s) = rs_log s"
  "rs_log (remember_failure c s) = rs_log s" "rs_log (stop k e s) = rs_log s"
  "rs_log (halt_enter rv k e s) = rs_log s" "rs_log (halt_hold rv k e s) = rs_log s"
  "rs_log (log_end c out s) = rs_log s @ [(c, out)]"
  by (simp_all add: count_result_def Let_def not_recorded_def recorded_def remember_failure_def
      stop_def halt_enter_def halt_hold_def log_end_def set_worker_def split: option.split prod.split sum.split)

lemma worker_sound:
  assumes step: "worker_step rv i ev x s = Some t" and i: "i < length (rs_workers s)" "rs_workers s ! i = x"
    and ok: "run_sound rv s"
  shows "run_sound rv t"
proof -
  have lt: "later rv s t" by (rule later_worker [OF step])
  have x: "sound_worker s x" using ok i by (auto simp: run_sound_def list_all_iff)
  have halt: "rs_halt t = None \<longleftrightarrow> rs_once t = NotRun"
    using step ok x
    by (cases ev) (auto simp: run_sound_def step_defs
        field_defs split: step_splits)
  have "rs_feed t = rs_feed s \<and> rs_exhausted t = rs_exhausted s"
    using step
    by (cases ev) (auto simp: step_defs
        field_defs split: step_splits)
  then have feed: "sound_feed rv t (rs_feed t)"
    using ok lt run_stopped_later [OF lt]
    by (cases "rs_feed s") (auto simp: run_sound_def later_def split: option.splits elim!: sound_feed.elims)
  let ?y = "rs_workers t ! i" and ?new = "drop (length (rs_log s)) (rs_log t)"
  have y: "rs_workers t = (rs_workers s)[i := ?y]" and new: "rs_log t = rs_log s @ ?new"
    using step i by (cases ev; auto simp: step_defs split: step_splits)+
  have "sound_worker t ?y"
    using step i x ok by (cases ev) (auto simp: step_defs failure_known_def is_safety_def run_sound_def
        field_defs split: step_splits)
  moreover have "list_all (\<lambda>x. excused rv t (snd x)) ?new"
    using step i x ok by (cases ev) (auto simp: step_defs failure_known_def run_stopped_def
        field_defs split: step_splits)
  ultimately show ?thesis
    using run_soundI [OF lt ok new _ _ _ feed halt, of ?y] set_update_subset_insert [of "rs_workers s" i ?y] y by simp
qed

lemma start_sound: "run_sound rv (run_start rv w)"
  by (simp add: run_sound_def run_start_def list_all_iff)

text \<open>Every reachable state; the context that is cancelled explains itself.\<close>

lemma reach_sound:
  assumes "run_reach rv env (run_start rv w) s" "rv_err rv w \<noteq> None \<longrightarrow> rv_parent_err rv w \<noteq> None"
  shows "run_sound rv s \<and> mset (rs_claimed s) = balance s \<and>
    (rv_err rv (rs_world s) \<noteq> None \<longrightarrow> rv_parent_err rv (rs_world s) \<noteq> None \<or> rs_halt s \<noteq> None)"
  using assms(1)
proof (induction rule: run_reach.induct)
  case here
  then show ?case
    using assms(2) start_sound by (simp add: run_start_def balance_def hands_def)
next
  case (move t ev u)
  then have lt: "later rv t u" by (intro later_step)
  have "run_sound rv u \<and> mset (rs_claimed u) = balance u"
    using move feed_sound [of ev t u] feed_balance [of rv ev t u]
      worker_sound [of _ ev _ t u] worker_balance [of rv _ ev _ t u]
    by (auto simp: run_step_def split: option.splits if_splits)
  then show ?case using lt move.IH by (auto simp: later_def)
next
  case (world t v)
  let ?u = "t\<lparr>rs_world := v\<rparr>"
  have lt: "later rv t ?u" by (rule later_world [OF env_ctx [OF world(2)]])
  have "run_sound rv ?u"
  proof (rule run_soundI [OF lt, of "[]" Receiving])
    show "sound_feed rv ?u (rs_feed ?u)"
      using world.IH run_stopped_later [OF lt] lt
      by (cases "rs_feed t") (auto simp: run_sound_def later_def split: option.splits elim!: sound_feed.elims)
  qed (use world.IH in \<open>auto simp: run_sound_def\<close>)
  then show ?case using lt world.IH by (auto simp: later_def)
qed
end
end
