(* ===== verification/PurgeRunProgress.thy ===== *)
theory PurgeRunProgress
  imports PurgeRunInvariant
begin

text \<open>
  A deletion run is never stuck, and once it is stopped it ends: as long as a worker or the feed has
  not returned some goroutine can go on, and \<open>run_work\<close> bounds the steps that are left after a stop.
\<close>

section \<open>Shape\<close>

text \<open>A worker that has returned found the channel closed and empty; a pending \<^verbatim>\<open>haltOnce\<close> has its worker.\<close>

definition run_shape :: "'w run_env \<Rightarrow> 'w run \<Rightarrow> bool" where
  "run_shape rv s \<longleftrightarrow>
     rs_workers s \<noteq> [] \<and> length (rs_queue s) \<le> channel_cap rv \<and>
     (Exited \<in> set (rs_workers s) \<longrightarrow> rs_queue s = [] \<and> (\<exists>e. rs_feed s = Returned e)) \<and>
     (rs_once s = Running \<longrightarrow> (\<exists>c res. Holding c res \<in> set (rs_workers s)))"

lemma start_shape: "run_shape rv (run_start rv w)"
  by (auto simp: run_shape_def run_start_def normalize_def Let_def)

lemma feed_shape:
  assumes "feed_step rv ev s = Some t" "run_shape rv s"
  shows "run_shape rv t"
proof -
  have "rs_workers t = rs_workers s" "rs_once t = rs_once s"
    using assms(1) by (cases ev; auto simp: return_feed_def feed_claim_def Let_def stop_def split: step_splits)+
  moreover have "length (rs_queue t) \<le> channel_cap rv \<and>
      (rs_feed s = Returned e \<longrightarrow> rs_queue t = rs_queue s \<and> rs_feed t = Returned e)" for e
    using assms by (cases ev; auto simp: run_shape_def return_feed_def selecting_def feed_claim_def Let_def stop_def
        split: step_splits)
  ultimately show ?thesis using assms(2) unfolding run_shape_def by metis
qed

lemma worker_shape:
  assumes step: "worker_step rv i ev x s = Some t" and i: "i < length (rs_workers s)" "rs_workers s ! i = x"
    and ok: "run_shape rv s"
  shows "run_shape rv t"
proof -
  let ?y = "rs_workers t ! i"
  have y: "rs_workers t = (rs_workers s)[i := ?y]" and q: "length (rs_queue t) \<le> length (rs_queue s)"
    and f: "rs_feed t = rs_feed s"
    using step i by (cases ev; auto simp: step_defs field_defs split: step_splits)+
  have ex: "?y = Exited \<Longrightarrow> rs_queue s = [] \<and> (\<exists>e. rs_feed s = Returned e)"
    using step i by (cases ev; auto simp: step_defs field_defs split: step_splits)
  have on: "rs_once t = Running \<Longrightarrow> (\<exists>c res. ?y = Holding c res) \<or> rs_once s = Running \<and> (\<nexists>c res. x = Holding c res)"
    using step i by (cases ev; auto simp: step_defs field_defs split: step_splits)
  have keep: "Holding c res \<in> set (rs_workers t)" if hold: "Holding c res \<in> set (rs_workers s)" "Holding c res \<noteq> x" for c res
  proof -
    obtain j where "j < length (rs_workers s)" "rs_workers s ! j = Holding c res" using hold(1) unfolding in_set_conv_nth by blast
    moreover have "j \<noteq> i" using calculation i hold(2) by auto
    ultimately show ?thesis using y by (metis in_set_conv_nth length_list_update nth_list_update_neq)
  qed
  have new: "?y \<in> set (rs_workers t)" using i y by (metis length_list_update nth_mem)
  have "Exited \<in> set (rs_workers t) \<Longrightarrow> Exited \<in> set (rs_workers s) \<or> ?y = Exited"
    using y set_update_subset_insert [of "rs_workers s" i ?y] by auto
  moreover have "rs_workers t \<noteq> []" using y ok by (metis list_update_nonempty run_shape_def)
  ultimately show ?thesis
    using ok q f ex on keep new unfolding run_shape_def by fastforce
qed

lemma step_shape: "run_step rv ev s = Some t \<Longrightarrow> run_shape rv s \<Longrightarrow> run_shape rv t"
  using feed_shape worker_shape by (fastforce simp: run_step_def split: option.splits if_splits)

lemma reach_shape: "run_reach rv env (run_start rv w) s \<Longrightarrow> run_shape rv s"
  by (induction rule: run_reach.induct) (auto simp: start_shape step_shape, simp add: run_shape_def)

section \<open>No deadlock\<close>

lemma not_stuck:
  assumes ok: "run_shape rv s" "sound_feed rv s (rs_feed s)" and busy: "\<not> run_over s"
  shows "\<exists>ev. run_step rv ev s \<noteq> None"
proof (cases "list_all (\<lambda>x. x = Receiving \<or> x = Exited) (rs_workers s)")
  case True
  show ?thesis
  proof (cases "Receiving \<in> set (rs_workers s)")
    case True
    then obtain i where i: "i < length (rs_workers s)" "rs_workers s ! i = Receiving" by (auto simp: in_set_conv_nth)
    have take: "run_step rv (Take i) s \<noteq> None" if "rs_queue s \<noteq> [] \<or> (\<exists>e. rs_feed s = Returned e)"
      using i that by (auto simp: run_step_def worker_step_def take_step_def split: list.split)
    show ?thesis
    proof (cases "rs_queue s = []")
      case empty: True
      have cap: "0 < channel_cap rv" by (simp add: channel_cap_def normalize_def Let_def)
      show ?thesis
      proof (cases "rs_feed s")
        case (Checking a)
        then have "run_step rv FeedGo s \<noteq> None \<or> run_step rv FeedStopped s \<noteq> None \<or> run_step rv FeedCancelled s \<noteq> None"
          by (auto simp: run_step_def selecting_def)
        then show ?thesis by blast
      next
        case (Claiming a)
        then show ?thesis by (intro exI [of _ FeedClaim]) (simp add: run_step_def)
      next
        case (Sending a cs)
        then show ?thesis using ok(2) empty cap by (intro exI [of _ FeedSend]) (cases cs; simp add: run_step_def)
      next
        case (ClaimFailed e)
        then show ?thesis by (intro exI [of _ FeedFail]) (simp add: run_step_def)
      qed (use take in blast)
    qed (use take in blast)
  next
    case False
    then have all: "list_all (\<lambda>x. x = Exited) (rs_workers s)" using True by (auto simp: list_all_iff)
    then have "Exited \<in> set (rs_workers s)" using ok(1) by (cases "rs_workers s") (auto simp: run_shape_def)
    then have "run_over s" using all ok(1) by (auto simp: run_over_def run_shape_def)
    then show ?thesis using busy by simp
  qed
next
  case False
  then obtain i where i: "i < length (rs_workers s)" "rs_workers s ! i \<noteq> Receiving" "rs_workers s ! i \<noteq> Exited"
    by (auto simp: list_all_iff in_set_conv_nth)
  have w: "\<exists>ev. run_step rv ev s \<noteq> None" if "event_worker ev = Some i" "worker_step rv i ev (rs_workers s ! i) s \<noteq> None" for ev
    using that i by (intro exI [of _ ev]) (simp add: run_step_def)
  have hold: "\<exists>ev. run_step rv ev s \<noteq> None" if run: "rs_once s = Running"
  proof -
    obtain c res where "Holding c res \<in> set (rs_workers s)" using ok(1) run by (auto simp: run_shape_def)
    then obtain j where "j < length (rs_workers s)" "rs_workers s ! j = Holding c res" by (auto simp: in_set_conv_nth)
    then show ?thesis by (intro exI [of _ "Hold j"]) (simp add: run_step_def worker_step_def hold_step_def)
  qed
  show ?thesis
  proof (cases "rs_workers s ! i")
    case (Judging c res)
    show ?thesis
    proof (cases "judge rv i c res s")
      case None
      then have "rs_once s = Running" by (auto simp: judge_def split: option.splits if_splits once.splits)
      then show ?thesis by (rule hold)
    next
      case (Some t)
      then show ?thesis using w [of "Judge i"] Judging by (simp add: worker_step_def judge_step_def)
    qed
  next
    case (Taken c)
    then show ?thesis using w [of "Admit i"] by (simp add: worker_step_def admit_step_def)
  next
    case (Admitted c)
    then show ?thesis using w [of "Start i"] by (simp add: worker_step_def start_step_def)
  next
    case (Processing c)
    then show ?thesis using w [of "Result i empty_result"] by (simp add: worker_step_def result_step_def Let_def)
  next
    case (Holding c res)
    then show ?thesis using w [of "Hold i"] by (simp add: worker_step_def hold_step_def)
  next
    case (Recording c res)
    then show ?thesis using w [of "Record i"] by (simp add: worker_step_def record_step_def)
  next
    case (Stopping c e)
    then show ?thesis using w [of "Stop i"] by (simp add: worker_step_def stop_step_def)
  qed (use i in simp_all)
qed

section \<open>The work left\<close>

fun feed_work :: "nat \<Rightarrow> feed \<Rightarrow> nat" where
  "feed_work n (Checking a) = 1" | "feed_work n (Claiming a) = 10 * n + 3"
| "feed_work n (Sending a cs) = 10 * length cs + 2" | "feed_work n (ClaimFailed e) = 1" | "feed_work n (Returned e) = 0"

fun worker_work :: "worker \<Rightarrow> nat" where
  "worker_work Receiving = 1" | "worker_work (Taken c) = 9" | "worker_work (Admitted c) = 8"
| "worker_work (Processing c) = 7" | "worker_work (Judging c res) = 6" | "worker_work (Holding c res) = 5"
| "worker_work (Recording c res) = 4" | "worker_work (Stopping c e) = 3" | "worker_work Exited = 0"

definition run_work :: "'w run_env \<Rightarrow> 'w run \<Rightarrow> nat" where
  "run_work rv s = feed_work (nat (opt_concurrency (normalize (rv_opt rv)) * 4)) (rs_feed s) +
     9 * length (rs_queue s) + sum_list (map worker_work (rs_workers s))"

lemma work_set: "i < length ws \<Longrightarrow> sum_list (map worker_work (ws[i := x])) + worker_work (ws ! i) =
    sum_list (map worker_work ws) + worker_work x"
proof (induction ws arbitrary: i)
  case (Cons a ws)
  then show ?case by (cases i) auto
qed simp

lemma feed_work_decreases:
  assumes "feed_step rv ev s = Some t" "run_stopped rv s"
    and "\<And>a n b w batch v. rv_claim rv a n b w = (Inr batch, v) \<Longrightarrow> length batch \<le> nat n"
  shows "run_work rv t < run_work rv s"
  using assms(1,2)
  by (cases ev) (auto simp: run_work_def run_stopped_def return_feed_def feed_claim_def selecting_def stop_def Let_def
      split: step_splits dest: assms(3))

lemma worker_work_decreases:
  assumes "worker_step rv i ev x s = Some t" "i < length (rs_workers s)" "rs_workers s ! i = x"
  shows "run_work rv t < run_work rv s"
proof -
  let ?y = "rs_workers t ! i"
  have y: "rs_workers t = (rs_workers s)[i := ?y]" and f: "rs_feed t = rs_feed s"
    using assms by (cases ev; auto simp: step_defs field_defs split: step_splits)+
  have "9 * length (rs_queue t) + worker_work ?y < 9 * length (rs_queue s) + worker_work x"
    using assms by (cases ev; auto simp: step_defs field_defs split: step_splits)
  then show ?thesis
    using work_set [OF assms(2), of ?y] y f assms(3) by (simp add: run_work_def)
qed

lemma step_work_decreases:
  assumes "run_step rv ev s = Some t" "run_stopped rv s"
    and "\<And>a n b w batch v. rv_claim rv a n b w = (Inr batch, v) \<Longrightarrow> length batch \<le> nat n"
  shows "run_work rv t < run_work rv s"
  using assms feed_work_decreases [OF _ assms(2,3)] worker_work_decreases
  by (fastforce simp: run_step_def split: option.splits if_splits)

section \<open>Sequences of events\<close>

fun run_steps :: "'w run_env \<Rightarrow> event list \<Rightarrow> 'w run \<Rightarrow> 'w run option" where
  "run_steps rv [] s = Some s"
| "run_steps rv (ev # evs) s = (case run_step rv ev s of None \<Rightarrow> None | Some t \<Rightarrow> run_steps rv evs t)"

lemma steps_reach:
  "run_steps rv evs t = Some u \<Longrightarrow> run_reach rv env s t \<Longrightarrow> run_reach rv env s u"
  by (induction evs arbitrary: t) (auto intro: run_reach.move split: option.splits)

context run_world
begin

lemma steps_work:
  assumes "\<And>a n b w batch v. rv_claim rv a n b w = (Inr batch, v) \<Longrightarrow> length batch \<le> nat n"
  shows "run_steps rv evs s = Some t \<Longrightarrow> run_stopped rv s \<Longrightarrow> length evs + run_work rv t \<le> run_work rv s"
proof (induction evs arbitrary: s)
  case (Cons ev evs)
  then obtain u where u: "run_step rv ev s = Some u" "run_steps rv evs u = Some t" by (auto split: option.splits)
  have "run_work rv u < run_work rv s" by (rule step_work_decreases [OF u(1) Cons.prems(2)]) (rule assms)
  then show ?case
    using Cons.IH [OF u(2) run_stopped_later [OF later_step [OF u(1)] Cons.prems(2)]] by simp
qed simp

lemma step_started:
  assumes "run_step rv ev s = Some t" "run_stopped rv s"
  shows "rs_started t = rs_started s"
  using assms
  by (cases ev) (auto simp: run_step_def return_feed_def feed_claim_def step_defs field_defs split: step_splits)

lemma reach_started:
  "run_reach rv env s t \<Longrightarrow> run_stopped rv s \<Longrightarrow> rs_started t = rs_started s \<and> run_stopped rv t"
proof (induction rule: run_reach.induct)
  case (move t ev u)
  then show ?case using step_started [OF move(2)] run_stopped_later [OF later_step [OF move(2)]] by simp
next
  case (world t v)
  then show ?case using run_stopped_later [OF later_world [OF env_ctx [OF world(2)]]] by simp
qed simp

section \<open>A halted run says so\<close>

lemma step_halt_safety:
  assumes "run_step rv ev s = Some t" "list_all (sound_worker s) (rs_workers s)"
    and "\<forall>h. rs_halt s = Some h \<longrightarrow> err_is h ErrSafety"
  shows "\<forall>h. rs_halt t = Some h \<longrightarrow> err_is h ErrSafety"
proof (cases "event_worker ev")
  case None
  then have "rs_halt t = rs_halt s"
    using assms(1) by (cases ev) (auto simp: run_step_def return_feed_def feed_claim_def stop_def Let_def split: step_splits)
  then show ?thesis using assms(3) by simp
next
  case (Some i)
  then have st: "worker_step rv i ev (rs_workers s ! i) s = Some t" "i < length (rs_workers s)"
    using assms(1) by (auto simp: run_step_def split: if_splits)
  have "sound_worker s (rs_workers s ! i)" using assms(2) st(2) by (simp add: list_all_iff)
  then show ?thesis
    using st assms(3) by (cases ev) (auto simp: step_defs field_defs is_safety_def numbered_def join_err_def split: step_splits)
qed

lemma reach_halt:
  assumes "run_reach rv env (run_start rv w) s" "rv_err rv w \<noteq> None \<longrightarrow> rv_parent_err rv w \<noteq> None"
  shows "\<forall>h. rs_halt s = Some h \<longrightarrow> err_is h ErrSafety"
  using assms(1)
proof (induction rule: run_reach.induct)
  case (move t ev u)
  then show ?case using step_halt_safety [OF move(2)] reach_sound [OF move(1) assms(2)] by (simp add: run_sound_def)
qed (simp_all add: run_start_def)

lemma halted_error:
  assumes "rs_halt s = Some h" "err_is h ErrSafety"
  shows "\<exists>x. run_error rv s = Some x \<and> err_is x ErrSafety"
proof -
  have "0 < length (problems rv s)" using assms(1) by (simp add: problems_def)
  then show ?thesis using assms by (auto simp: run_error_def join_err_def split: option.split)
qed

section \<open>The end of a run\<close>

lemma over_accounts:
  assumes "run_reach rv env (run_start rv w) s" "rv_err rv w \<noteq> None \<longrightarrow> rv_parent_err rv w \<noteq> None" "run_over s"
  shows "mset (rs_claimed s) = mset (map fst (rs_log s))"
proof -
  have shape: "run_shape rv s" by (rule reach_shape [OF assms(1)])
  then have "rs_queue s = []" "\<exists>e. rs_feed s = Returned e"
    using assms(3) by (cases "rs_workers s"; auto simp: run_shape_def run_over_def)+
  moreover have "concat (map in_hand (rs_workers s)) = []"
    using assms(3) by (auto simp: run_over_def list_all_iff)
  ultimately show ?thesis
    using reach_sound [OF assms(1,2)] by (auto simp: balance_def hands_def)
qed

lemma over_success:
  assumes "run_reach rv env (run_start rv w) s" "rv_err rv w \<noteq> None \<longrightarrow> rv_parent_err rv w \<noteq> None" "run_over s"
    and "run_error rv s = None" "\<not> opt_dry_run (rv_opt rv)"
  shows "rs_exhausted s \<and> list_all (\<lambda>x. snd x = DoneRecorded) (rs_log s)"
proof -
  have "problems rv s = []" using assms(4) by (auto simp: run_error_def split: if_splits)
  then have ok: "rs_halt s = None" "rs_stop s = None" "claim_err s = None" "rv_parent_err rv (rs_world s) = None"
    by (auto simp: problems_def split: option.splits if_splits)
  then have live: "\<not> run_stopped rv s"
    using reach_sound [OF assms(1,2)] by (auto simp: run_stopped_def)
  have snd: "run_sound rv s" using reach_sound [OF assms(1,2)] by simp
  have "out = DoneRecorded" if "excused rv s out" for out
    using that live ok assms(5) by (cases out) (auto simp: failure_known_def split: if_splits)
  moreover have "rs_exhausted s"
    using snd live ok assms(3) by (auto simp: run_sound_def run_over_def claim_err_def split: feed.splits option.splits)
  ultimately show ?thesis using snd by (auto simp: run_sound_def list_all_iff)
qed

end

end
