(* ===== verification/PurgeSafety.thy ===== *)
theory PurgeSafety
  imports PurgeObject
begin

text \<open>
  Which requests one object of a deletion run sends. Any relation between the worlds before and
  after that the requests keep is kept by the whole object, and only batches of well-formed pieces
  of that object are ever requested to be deleted; a dry run requests none, and a failed identity
  check ends the object before the store is touched.
\<close>

section \<open>Relations kept by a run\<close>

lemma transits_if:
  "(b \<Longrightarrow> transits R m) \<Longrightarrow> (\<not> b \<Longrightarrow> transits R n) \<Longrightarrow> transits R (if b then m else n)"
  by simp

lemma transits_try:
  assumes "transp R" "transits R m" "\<And>e. transits R (h e)" "\<And>x. transits R (f x)"
  shows "transits R (tryA m h f)"
proof (rule transitsI)
  fix w x v assume run: "tryA m h f w = (x, v)"
  obtain q u where m: "m w = (q, u)" by (cases "m w")
  have "R w u" by (rule transitsD [OF assms(2) m])
  moreover have "R u v"
    using run m transitsD [OF assms(3)] transitsD [OF assms(4)] by (cases q) (auto simp: tryA_def)
  ultimately show "R w v" by (rule transpD [OF assms(1)])
qed

text \<open>What the environment of the run keeps: everything but the store's deletions.\<close>

definition calm :: "('w \<Rightarrow> 'w \<Rightarrow> bool) \<Rightarrow> 'w runner \<Rightarrow> bool" where
  "calm R r \<longleftrightarrow>
     reflp R \<and> transp R \<and>
     (\<forall>m. rn_check r = Some m \<longrightarrow> transits R m) \<and> (\<forall>m. rn_limiter r = Some m \<longrightarrow> transits R m) \<and>
     (\<forall>n. transits R (rn_sleep r n)) \<and> (\<forall>k. transits R (rn_head r k))"

lemma calmD:
  assumes "calm R r"
  shows "reflp R" "transp R" "\<And>m. rn_check r = Some m \<Longrightarrow> transits R m"
    "\<And>m. rn_limiter r = Some m \<Longrightarrow> transits R m" "\<And>n. transits R (rn_sleep r n)" "\<And>k. transits R (rn_head r k)"
  using assms by (auto simp: calm_def)

lemma ctx_live_transits: "reflp R \<Longrightarrow> transits R (ctx_live r)"
  by (auto simp: transits_def ctx_live_def reflpD split: option.splits)

lemma wait_transits:
  assumes "calm R r"
  shows "transits R (wait r)"
  unfolding wait_def using calmD [OF assms]
  by (auto intro!: transits_bind ctx_live_transits transits_ret split: option.splits)

lemma backoff_transits:
  assumes "calm R r"
  shows "transits R (backoff r n)"
  unfolding backoff_def using calmD [OF assms] by (auto intro!: transits_if ctx_live_transits)

lemma settle_transits:
  assumes "calm R r"
  shows "transits R (settle r keys bytes fails lf n)"
  using transitsD [OF backoff_transits [OF assms]]
  by (auto simp: transits_def settle_def split: prod.splits sum.splits)

text \<open>The requests of one prefix: listings, and deletions of proper batches.\<close>

definition store_calm :: "('w \<Rightarrow> 'w \<Rightarrow> bool) \<Rightarrow> 'w runner \<Rightarrow> u64 \<Rightarrow> bool" where
  "store_calm R r oid \<longleftrightarrow>
     (\<forall>p n. transits R (rn_list r p n)) \<and> (\<forall>p. transits R (rn_empty r p)) \<and>
     (opt_dry_run (rn_opt r) \<or> (\<forall>ks. transits R (rn_delete r oid ks))) \<and>
     (\<not> opt_dry_run (rn_opt r) \<or> (\<forall>p fn t w x v. (\<forall>s objs. transits R (fn s objs)) \<longrightarrow> rn_list_all r p fn t w = Some (x, v) \<longrightarrow> R w v))"

lemma delete_round_transits:
  assumes "calm R r" "transits R (rn_delete r oid batch)"
  shows "transits R (delete_round r oid pfx objs batch keys bytes fails)"
proof (rule transitsI)
  fix w x v assume run: "delete_round r oid pfx objs batch keys bytes fails w = (x, v)"
  obtain res u where d: "rn_delete r oid batch w = (res, u)" by (cases "rn_delete r oid batch w")
  have wu: "R w u" by (rule transitsD [OF assms(2) d])
  have "v = u \<or> (\<exists>k b f lf n. settle r k b f lf n u = (x, v))"
    using run d by (auto simp: delete_round_def Let_def split: prod.splits if_splits)
  then show "R w v"
    using wu transpD [OF calmD(2) [OF assms(1)] wu] transitsD [OF settle_transits [OF assms(1)]] by auto
qed

lemma clear_round_transits:
  assumes calm: "calm R r" and store: "store_calm R r oid" and real: "\<not> opt_dry_run (rn_opt r)"
  shows "transits R (clear_round r oid pfx st)"
proof (rule transitsI)
  fix w x v assume run: "clear_round r oid pfx st w = (x, v)"
  note tr = transpD [OF calmD(2) [OF calm]]
  obtain keys bytes fails lf where st: "st = (keys, bytes, fails, lf)" by (cases st)
  obtain a u where wt: "wait r w = (a, u)" by (cases "wait r w")
  have wu: "R w u" by (rule transitsD [OF wait_transits [OF calm] wt])
  obtain l u2 where li: "rn_list r pfx 1000 u = (l, u2)" by (cases "rn_list r pfx 1000 u")
  have wu2: "R w u2"
    using tr [OF wu] transitsD [of R "rn_list r pfx 1000"] store li by (auto simp: store_calm_def)
  obtain a2 u3 where wt2: "wait r u2 = (a2, u3)" by (cases "wait r u2")
  have wu3: "R w u3" by (rule tr [OF wu2 transitsD [OF wait_transits [OF calm] wt2]])
  have "v = u \<or> v = u2 \<or> v = u3 \<or> (\<exists>k b f n m. settle r k b f n m u2 = (x, v)) \<or>
        (\<exists>objs batch. delete_round r oid pfx objs batch keys bytes fails u3 = (x, v))"
    using run wt li wt2 unfolding clear_round_def st
    by (auto split: sum.splits if_splits prod.splits)
  moreover have "R u3 v" if "delete_round r oid pfx objs batch keys bytes fails u3 = (x, v)" for objs batch
    using transitsD [OF delete_round_transits [OF calm] that] store real by (auto simp: store_calm_def)
  ultimately show "R w v"
    using wu wu2 wu3 tr [OF wu2 transitsD [OF settle_transits [OF calm]]] tr [OF wu3] by auto
qed

lemma clear_loop_transits:
  assumes "calm R r" "store_calm R r oid" "\<not> opt_dry_run (rn_opt r)"
    and "clear_loop r oid pfx st w = Some (res, v)"
  shows "R w v"
proof -
  let ?P = "\<lambda>r oid pfx st w y. calm R r \<longrightarrow> store_calm R r oid \<longrightarrow> \<not> opt_dry_run (rn_opt r) \<longrightarrow> R w (snd y)"
  have "?P r oid pfx st w (res, v)"
  proof (rule clear_loop.raw_induct [where P = ?P, OF _ assms(4)], intro impI)
    fix rec r oid pfx st w y
    assume IH: "\<And>r oid pfx st w y. rec r oid pfx st w = Some y \<Longrightarrow> ?P r oid pfx st w y"
      and run: "(case clear_round r oid pfx st w of (Inl res, w) \<Rightarrow> Some (res, w)
         | (Inr st, w) \<Rightarrow> rec r oid pfx st w) = Some y"
      and calm: "calm R r" and store: "store_calm R r oid" and real: "\<not> opt_dry_run (rn_opt r)"
    obtain x u where rd: "clear_round r oid pfx st w = (x, u)" by (cases "clear_round r oid pfx st w")
    have wu: "R w u" by (rule transitsD [OF clear_round_transits [OF calm store real] rd])
    show "R w (snd y)"
    proof (cases x)
      case (Inl z)
      then show ?thesis using run rd wu by auto
    next
      case (Inr st')
      then have "rec r oid pfx st' u = Some y" using run rd by simp
      then have "R u (snd y)" using IH calm store real by blast
      then show ?thesis by (rule transpD [OF calmD(2) [OF calm] wu])
    qed
  qed
  then show ?thesis using assms by simp
qed

lemma tally_page_transits: "calm R r \<Longrightarrow> transits R (tally_page r oid t objs)"
  using transitsD [OF wait_transits] by (fastforce simp: transits_def tally_page_def split: prod.splits sum.splits)

lemma clear_prefix_transits:
  assumes "calm R r" "store_calm R r oid" "clear_prefix r oid pfx w = Some (res, v)"
  shows "R w v"
proof (cases "opt_dry_run (rn_opt r)")
  case True
  then obtain y where "rn_list_all r pfx (tally_page r oid) (0, 0, []) w = Some (y, v)"
    using assms(3) by (auto simp: clear_prefix_def preview_prefix_def split: option.splits prod.splits)
  then show ?thesis
    using assms(2) True tally_page_transits [OF assms(1)] unfolding store_calm_def by blast
next
  case False
  then show ?thesis using assms clear_loop_transits by (fastforce simp: clear_prefix_def)
qed

lemma clear_prefixes_transits:
  assumes "calm R r" "store_calm R r oid" "clear_prefixes r oid ps b res w = Some (res', v)"
  shows "R w v"
  using assms(3)
proof (induction ps arbitrary: b res w)
  case Nil
  then show ?case using calmD(1) [OF assms(1)] by (auto dest: reflpD)
next
  case (Cons p ps)
  then obtain k bt e u where c: "clear_prefix r oid p w = Some (((k, bt), e), u)"
    by (auto split: option.splits prod.splits)
  have wu: "R w u" by (rule clear_prefix_transits [OF assms(1,2) c])
  show ?case
  proof (cases e)
    case None
    then obtain b' res1 where "clear_prefixes r oid ps b' res1 u = Some (res', v)"
      using Cons.prems c by (auto simp: Let_def)
    from Cons.IH [OF this] show ?thesis by (rule transpD [OF calmD(2) [OF assms(1)] wu])
  next
    case (Some e')
    then show ?thesis using Cons.prems c wu by (auto simp: Let_def)
  qed
qed

lemma recheck_transits:
  assumes "calm R r" "store_calm R r oid"
  shows "transits R (recheck r ps)"
proof (induction ps)
  case Nil
  then show ?case using calmD [OF assms(1)] by (simp add: transits_ret)
next
  case (Cons p ps)
  then show ?case
    using calmD [OF assms(1)] assms(2)
    by (auto simp: store_calm_def intro!: transits_bind transits_try transits_throw transits_if wait_transits [OF assms(1)])
qed

lemma confirm_transits: "calm R r \<Longrightarrow> transits R (confirm_identity r c)"
  unfolding confirm_identity_def
  by (auto simp: failIf_def Let_def calm_def split: option.splits
      intro!: transits_bind transits_try transits_throw transits_ret transits_if)

lemma process_one_transits:
  assumes "calm R r" "store_calm R r (cl_oid c)" "process_one r c w = Some (res, v)"
  shows "R w v"
proof -
  note tr = transpD [OF calmD(2) [OF assms(1)]]
  obtain x u where id: "confirm_identity r c w = (x, u)" by (cases "confirm_identity r c w")
  have wu: "R w u" by (rule transitsD [OF confirm_transits [OF assms(1)] id])
  show ?thesis
  proof (cases x)
    case (Inl e)
    then show ?thesis using assms(3) id wu by (auto simp: process_one_def)
  next
    case (Inr y)
    then obtain res1 u1 where c: "clear_prefixes r (cl_oid c) (prefixes (cl_oid c)) True empty_result u = Some (res1, u1)"
      using assms(3) id by (auto simp: process_one_def split: option.splits)
    have wu1: "R w u1" by (rule tr [OF wu clear_prefixes_transits [OF assms(1,2) c]])
    obtain y u2 where rc: "recheck r (prefixes (cl_oid c)) u1 = (y, u2)" by (cases "recheck r (prefixes (cl_oid c)) u1")
    have "R w u2" by (rule tr [OF wu1 transitsD [OF recheck_transits [OF assms(1,2)] rc]])
    then show ?thesis using assms(3) id Inr c rc wu1 by (auto simp: process_one_def split: if_splits)
  qed
qed

section \<open>The run over S3\<close>

text \<open>The runner that \<^verbatim>\<open>runPurge\<close> builds: the store is the S3 store of the physical bucket \<open>b\<close>.\<close>

definition s3_runner ::
  "'w s3_api \<Rightarrow> string \<Rightarrow> (u64 \<Rightarrow> ('w, object_head) act) \<Rightarrow> ('w, unit) act option \<Rightarrow> ('w \<Rightarrow> err option) \<Rightarrow>
   ('w, unit) act option \<Rightarrow> (nat \<Rightarrow> ('w, unit) act) \<Rightarrow> options \<Rightarrow> 'w runner" where
  "s3_runner api b head check cerr lim sleep opt =
     \<lparr>rn_list = store_list api b, rn_list_all = store_list_all api b, rn_empty = store_empty api b,
      rn_delete = store_delete api b, rn_head = head, rn_check = check, rn_ctx_err = cerr,
      rn_limiter = lim, rn_sleep = sleep, rn_opt = opt\<rparr>"

lemma list_all_from_transits:
  assumes R: "reflp R" "transp R" and snd: "sound_list R api b" and fn: "\<And>s objs. transits R (fn s objs)"
    and run: "list_all_from api b p fn token s w = Some y"
  shows "R w (snd y)"
proof -
  let ?P = "\<lambda>api b p fn token s w y. sound_list R api b \<longrightarrow> (\<forall>s objs. transits R (fn s objs)) \<longrightarrow> R w (snd y)"
  have "?P api b p fn token s w y"
  proof (rule list_all_from.raw_induct [where P = ?P, OF _ run], intro impI)
    fix rec api b p fn token s w y
    assume IH: "\<And>api b p fn token s w y. rec api b p fn token s w = Some y \<Longrightarrow> ?P api b p fn token s w y"
      and run: "(case api_list api b p 1000 token w of (Inl e, w) \<Rightarrow> Some ((s, Some e), w)
         | (Inr out, w) \<Rightarrow> (case fn s (to_objects (lo_contents out)) w of
             ((s, Some e), w) \<Rightarrow> Some ((s, Some e), w)
           | ((s, None), w) \<Rightarrow>
               if lo_truncated out \<noteq> Some True \<or> lo_next out = None then Some ((s, None), w)
               else rec api b p fn (lo_next out) s w)) = Some y"
      and snd: "sound_list R api b" and fn: "\<forall>s objs. transits R (fn s objs)"
    obtain a u where li: "api_list api b p 1000 token w = (a, u)" by (cases "api_list api b p 1000 token w")
    have wu: "R w u" using snd li transitsD by (fastforce simp: sound_list_def)
    show "R w (snd y)"
    proof (cases a)
      case (Inl e)
      then show ?thesis using run li wu by auto
    next
      case (Inr out)
      obtain s' e' u' where cb: "fn s (to_objects (lo_contents out)) u = ((s', e'), u')"
        by (metis prod.collapse)
      have wu': "R w u'" by (rule transpD [OF R(2) wu transitsD [OF spec [OF spec [OF fn]] cb]])
      have "y = ((s', e'), u') \<or> rec api b p fn (lo_next out) s' u' = Some y"
        using run li Inr cb by (auto split: option.splits if_splits)
      moreover have "R u' (snd y)" if "rec api b p fn (lo_next out) s' u' = Some y"
        using IH [OF that] snd fn by blast
      ultimately show ?thesis using wu' transpD [OF R(2) wu'] by auto
    qed
  qed
  then show ?thesis using snd fn by simp
qed

lemma s3_store_calm:
  assumes "reflp R" "transp R" "sound_list R api b"
    and "opt_dry_run opt \<or> (\<forall>ks. proper_batch oid ks \<longrightarrow> transits R (api_delete api b ks))"
  shows "store_calm R (s3_runner api b head check cerr lim sleep opt) oid"
proof -
  have "R w v" if "\<forall>s objs. transits R (fn s objs)" "list_all_from api b p fn None t w = Some (x, v)"
    for p and fn :: "('a, tally) callback" and t w x v
    using list_all_from_transits [OF assms(1-3) _ that(2)] that(1) by simp
  then show ?thesis
    unfolding store_calm_def s3_runner_def store_list_all_def
    using assms store_list_transits [OF assms(1-3)] store_empty_transits [OF assms(1-3)]
      store_delete_transits [OF assms(1)]
    by simp blast
qed

section \<open>A log of the delete requests\<close>

text \<open>The same client and environment, with the batches of the requests to delete written down.\<close>

definition beside_log :: "('w \<Rightarrow> 'x \<times> 'w) \<Rightarrow> 'w \<times> 'l \<Rightarrow> 'x \<times> ('w \<times> 'l)" where
  "beside_log m = (\<lambda>(w, l). case m w of (x, v) \<Rightarrow> (x, (v, l)))"

definition logged_api :: "'w s3_api \<Rightarrow> ('w \<times> string list list) s3_api" where
  "logged_api api =
     \<lparr>api_list = (\<lambda>b p n t. beside_log (api_list api b p n t)),
      api_delete = (\<lambda>b ks (w, l). beside_log (api_delete api b ks) (w, l @ [ks])),
      api_versioning = (\<lambda>b. beside_log (api_versioning api b))\<rparr>"

definition logged_runner ::
  "'w s3_api \<Rightarrow> string \<Rightarrow> (u64 \<Rightarrow> ('w, object_head) act) \<Rightarrow> ('w, unit) act option \<Rightarrow> ('w \<Rightarrow> err option) \<Rightarrow>
   ('w, unit) act option \<Rightarrow> (nat \<Rightarrow> ('w, unit) act) \<Rightarrow> options \<Rightarrow> ('w \<times> string list list) runner" where
  "logged_runner api b head check cerr lim sleep opt =
     s3_runner (logged_api api) b (\<lambda>k. beside_log (head k)) (map_option beside_log check) (cerr \<circ> fst)
       (map_option beside_log lim) (\<lambda>n. beside_log (sleep n)) opt"

definition log_grows :: "(string list \<Rightarrow> bool) \<Rightarrow> 'w \<times> string list list \<Rightarrow> 'w \<times> string list list \<Rightarrow> bool" where
  "log_grows P x y \<longleftrightarrow> (\<exists>more. snd y = snd x @ more \<and> list_all P more)"

lemma log_grows_order: "reflp (log_grows P)" "transp (log_grows P)"
  by (auto simp: log_grows_def intro!: reflpI transpI)

lemma beside_log_transits: "transits (log_grows P) (beside_log m)"
  by (auto simp: transits_def beside_log_def log_grows_def split: prod.splits)

lemma logged_delete_transits: "P ks \<Longrightarrow> transits (log_grows P) (api_delete (logged_api api) b ks)"
  by (auto simp: transits_def logged_api_def beside_log_def log_grows_def split: prod.splits)

lemma logged_calm: "calm (log_grows P) (logged_runner api b head check cerr lim sleep opt)"
  by (auto simp: calm_def logged_runner_def s3_runner_def log_grows_order beside_log_transits)

lemma logged_run:
  assumes "opt_dry_run opt \<or> (\<forall>ks. proper_batch (cl_oid c) ks \<longrightarrow> P ks)"
    and "process_one (logged_runner api b head check cerr lim sleep opt) c (w, []) = Some (res, (v, log))"
  shows "list_all P log"
proof -
  have "store_calm (log_grows P) (logged_runner api b head check cerr lim sleep opt) (cl_oid c)"
    unfolding logged_runner_def
  proof (rule s3_store_calm)
    show "sound_list (log_grows P) (logged_api api) b"
      by (simp add: sound_list_def logged_api_def beside_log_transits)
    show "opt_dry_run opt \<or> (\<forall>ks. proper_batch (cl_oid c) ks \<longrightarrow>
        transits (log_grows P) (api_delete (logged_api api) b ks))"
      using assms(1) logged_delete_transits by blast
  qed (rule log_grows_order)+
  from process_one_transits [OF logged_calm this assms(2)] show ?thesis by (auto simp: log_grows_def)
qed

end
