(* ===== verification/PurgeWorld.thy ===== *)
theory PurgeWorld
  imports PurgeRunProgress PurgeSafety Sessions
begin

text \<open>
  The deletion run over the progress database, as \<^verbatim>\<open>runPurge\<close> of \<^verbatim>\<open>cmd/limewire-purge/main.go\<close> wires
  it: \<^verbatim>\<open>progressAdapter\<close> and \<^verbatim>\<open>OnSafety\<close>. It keeps the contract \<open>run_world\<close>, and every step of every
  interleaving is a step of the life of the database as \<open>Sessions\<close> describes it.
\<close>

section \<open>The adapter\<close>

definition to_claimed :: "claim_row \<Rightarrow> claimed" where
  "to_claimed r = \<lparr>cl_oid = sr_oid r, cl_payload = sr_payload r, cl_status = sr_status r, cl_version = sr_version r\<rparr>"

definition adapter_claim :: "ctx \<Rightarrow> u64 \<Rightarrow> u64 \<Rightarrow> int \<Rightarrow> bool \<Rightarrow> (world, claimed list) act" where
  "adapter_claim c tid after limit retry =
     bindA (check_lock c) (\<lambda>_.
     bindA (claim_subtask c tid after (nat limit)) (\<lambda>rows. ret (map to_claimed rows)))"

definition adapter_done :: "ctx \<Rightarrow> u64 \<Rightarrow> u64 \<Rightarrow> u64 \<Rightarrow> u64 \<Rightarrow> size_check \<Rightarrow> (world, unit) act" where
  "adapter_done c tid oid keys bytes check =
     done_subtask c tid oid keys bytes (sc_role check) (if sc_known check then Some (sc_expected check) else None)"

text \<open>\<^verbatim>\<open>runPurge\<close>'s runner on task \<open>tid\<close>; writes use a context detached from the run's.\<close>

definition purge_env :: "u64 \<Rightarrow> options \<Rightarrow> world run_env" where
  "purge_env tid opt =
     \<lparr>rv_claim = adapter_claim RunCtx tid, rv_done = adapter_done Background tid,
      rv_fail = fail_subtask Background tid,
      rv_on_safety = Some (\<lambda>oid e. hold Background tid (Some oid) (err_text e)),
      rv_err = ctx_err RunCtx, rv_parent_err = ctx_err LockCtx, rv_cancel = cancel_ctx RunCtx,
      rv_opt = opt\<rparr>"

text \<open>What the rest of the process and of the world may do between two steps: anything but change the
  tables; a context stays cancelled, and the run's follows its parent.\<close>

definition ctx_follow :: "world \<Rightarrow> world \<Rightarrow> bool" where
  "ctx_follow w v \<longleftrightarrow> set (w_cancelled w) \<subseteq> set (w_cancelled v) \<and>
     (RunCtx \<in> set (w_cancelled v) \<longrightarrow> RunCtx \<in> set (w_cancelled w) \<or> LockCtx \<in> set (w_cancelled v))"

definition around :: "world \<Rightarrow> world \<Rightarrow> bool" where
  "around w v \<longleftrightarrow> w_db v = w_db w \<and> ctx_follow w v"

section \<open>The contexts follow\<close>

lemma ctx_follow_order: "reflp ctx_follow" "transp ctx_follow"
  unfolding ctx_follow_def by (rule reflpI, simp) (rule transpI, blast)

lemma ctx_follow_refl [simp]: "ctx_follow w w"
  by (simp add: ctx_follow_def)

lemma ctx_follow_trans: "ctx_follow w u \<Longrightarrow> ctx_follow u v \<Longrightarrow> ctx_follow w v"
  using ctx_follow_order(2) by (auto dest: transpD)

lemma ctx_follow_fields [simp]:
  "ctx_follow w (v\<lparr>w_db := d\<rparr>) = ctx_follow w v" "ctx_follow w (v\<lparr>w_script := l\<rparr>) = ctx_follow w v"
  "ctx_follow w (v\<lparr>w_owner := x\<rparr>) = ctx_follow w v" "ctx_follow w (v\<lparr>w_lock := y\<rparr>) = ctx_follow w v"
  "ctx_follow (w\<lparr>w_db := d\<rparr>) v = ctx_follow w v" "ctx_follow (w\<lparr>w_script := l\<rparr>) v = ctx_follow w v"
  "ctx_follow (w\<lparr>w_owner := x\<rparr>) v = ctx_follow w v" "ctx_follow (w\<lparr>w_lock := y\<rparr>) v = ctx_follow w v"
  "ctx_follow w (rolled_back u v) = ctx_follow w v" "ctx_follow (rolled_back u w) v = ctx_follow w v"
  by (simp_all add: ctx_follow_def rolled_back_def)

lemma ctx_follow_cancel [simp]:
  "ctx_follow w (cancel_ctx OperatorCtx w)" "ctx_follow w (cancel_ctx LockCtx w)"
  by (auto simp: ctx_follow_def cancel_ctx_def)

named_theorems follows \<open>operations under which the contexts follow\<close>

abbreviation ctx_ok :: "(world \<Rightarrow> 'x \<times> world) \<Rightarrow> bool" where
  "ctx_ok m \<equiv> transits ctx_follow m"

lemma follow_ret [follows]: "ctx_ok (ret x)" and follow_throw [follows]: "ctx_ok (throw e)"
  by (simp_all add: transits_def ret_def throw_def)

lemma follow_bind [follows]: "ctx_ok m \<Longrightarrow> (\<And>x. ctx_ok (f x)) \<Longrightarrow> ctx_ok (bindA m f)"
  by (rule transits_bind [OF ctx_follow_order(2)])

lemma follow_fail [follows]: "ctx_ok (failIf b e)"
  by (simp add: failIf_def follow_ret follow_throw)

lemma follow_statement [follows]:
  assumes "ctx_ok f"
  shows "ctx_ok (statement c f)"
proof (rule transitsI)
  fix w r v assume "statement c f w = (r, v)"
  then have "v = w \<or> (\<exists>u. ctx_follow w u \<and> (v = u \<or> v = snd (f u)))"
    by (auto simp: statement_def Let_def ctx_err_def split: option.splits list.splits env_event.splits if_splits)
      (metis ctx_follow_cancel(1) ctx_follow_fields(2,3,6) ctx_follow_refl snd_conv)+
  moreover have "ctx_follow u (snd (f u))" for u
    by (rule transitsD [OF assms]) (rule prod.collapse [symmetric])
  ultimately show "ctx_follow w v" using ctx_follow_trans by auto
qed

lemma follow_query [follows]: "ctx_ok (query c q)"
  unfolding query_def by (rule follow_statement) (simp add: transits_def)

lemma follow_update [follows]: "ctx_ok (update c u)"
  unfolding update_def by (rule follow_statement) (auto simp: transits_def split: sum.splits prod.splits)

lemma follow_transaction [follows]:
  assumes "ctx_ok body"
  shows "ctx_ok (transaction c body)"
proof (rule transitsI)
  fix w r v assume run: "transaction c body w = (r, v)"
  obtain a w0 where b: "statement c (ret ()) w = (a, w0)" by (cases "statement c (ret ()) w")
  have 1: "ctx_follow w w0" by (rule transitsD [OF follow_statement [OF follow_ret] b])
  obtain x w1 where bd: "body w0 = (x, w1)" by (cases "body w0")
  have 2: "ctx_follow w w1" by (rule ctx_follow_trans [OF 1 transitsD [OF assms bd]])
  have st: "ctx_ok (statement c (\<lambda>v. (Inr y, v\<lparr>w_db := w_db w1\<rparr>)))" for y :: 'a
    by (rule follow_statement) (simp add: transits_def)
  have "v = w0 \<or> v = rolled_back w0 w1 \<or> (\<exists>y. statement c (\<lambda>v. (Inr y, v\<lparr>w_db := w_db w1\<rparr>)) (rolled_back w0 w1) = (r, v))"
    using run b bd by (auto simp: transaction_def split: sum.splits)
  then show "ctx_follow w v"
    using 1 2 ctx_follow_trans [OF 2] transitsD [OF st] by fastforce
qed

lemma follow_check_lock [follows]: "ctx_ok (check_lock c)"
proof (rule transitsI)
  fix w r v assume run: "check_lock c w = (r, v)"
  have ok: "ctx_ok (statement c (getA w_owner))" by (rule follow_statement) (simp add: transits_def getA_def)
  obtain x u where st: "statement c (getA w_owner) w = (x, u)" by (cases "statement c (getA w_owner) w")
  have u: "ctx_follow w u" by (rule transitsD [OF ok st])
  have lost: "ctx_follow w (lose_lock l e u)" for l e
    unfolding lose_lock_def by (rule ctx_follow_trans [OF _ ctx_follow_cancel(2)]) (simp add: u)
  show "ctx_follow w v"
    using run st u lost by (auto simp: check_lock_def lock_check_def Let_def split: option.splits sum.splits if_splits)
qed

lemma follow_hold: "ctx_ok (hold c tid oid reason)"
  unfolding hold_def by (intro follows)

lemma follow_done: "ctx_ok (adapter_done c tid oid keys bytes check)"
  unfolding adapter_done_def done_subtask_def by (intro follows)

lemma follow_fail_subtask: "ctx_ok (fail_subtask c tid oid keys bytes reason)"
  unfolding fail_subtask_def check_member_def fail_object_def Let_def by (intro follows)

lemma follow_claim: "ctx_ok (adapter_claim c tid after limit retry)"
  unfolding adapter_claim_def claim_subtask_def by (intro follows)

lemma follow_grows: "ctx_follow w v \<Longrightarrow> ctx_grows (purge_env tid opt) w v"
  by (auto simp: ctx_grows_def ctx_follow_def purge_env_def ctx_err_def)

lemma cancel_run [simp]:
  "ctx_err RunCtx (cancel_ctx RunCtx w) \<noteq> None" "ctx_err LockCtx (cancel_ctx RunCtx w) = ctx_err LockCtx w"
  by (simp_all add: ctx_err_def cancel_ctx_def)

interpretation task_run: run_world "purge_env tid opt" around
proof unfold_locales
  show "rv_claim (purge_env tid opt) a n b w = (x, v) \<Longrightarrow> ctx_grows (purge_env tid opt) w v" for a n b w x v
    by (rule follow_grows, rule transitsD [OF follow_claim]) (simp add: purge_env_def)
  show "rv_done (purge_env tid opt) k m by sc w = (y, v) \<Longrightarrow> ctx_grows (purge_env tid opt) w v" for k m "by" sc w y v
    by (rule follow_grows, rule transitsD [OF follow_done]) (simp add: purge_env_def)
  show "rv_fail (purge_env tid opt) k m by reason w = (y, v) \<Longrightarrow> ctx_grows (purge_env tid opt) w v" for k m "by" reason w y v
    by (rule follow_grows, rule transitsD [OF follow_fail_subtask]) (simp add: purge_env_def)
  show "rv_on_safety (purge_env tid opt) = Some f \<Longrightarrow> f k e w = (y, v) \<Longrightarrow> ctx_grows (purge_env tid opt) w v" for f k e w y v
    by (rule follow_grows, rule transitsD [OF follow_hold]) (auto simp: purge_env_def)
  show "around w v \<Longrightarrow> ctx_grows (purge_env tid opt) w v" for w v
    by (simp add: around_def follow_grows)
  show "rv_err (purge_env tid opt) (rv_cancel (purge_env tid opt) w) \<noteq> None"
    "rv_parent_err (purge_env tid opt) (rv_cancel (purge_env tid opt) w) = rv_parent_err (purge_env tid opt) w" for w
    by (simp_all add: purge_env_def)
qed

end
