(* ===== verification/ObjectStore.thy ===== *)
theory ObjectStore
  imports PurgeSafety
begin

text \<open>
  What a deletion run relies on. \<open>s3_service\<close> states the documented behaviour of the object
  storage for one bucket without other writers: listings are complete and consistent with earlier
  deletions, a delete request removes nothing but its keys, and its answer names every key as
  deleted or failed. \<open>object_store\<close> is the contract of the Go interface \<^verbatim>\<open>ObjectStore\<close>, which the S3
  store provides on every such service, and \<open>object_run\<close> a run over such a store, in which the
  clearing of a prefix is proved to end, and to end with an empty prefix.
\<close>

section \<open>The service\<close>

locale s3_service =
  fixes api :: "'w s3_api" and b :: string and held :: "'w \<Rightarrow> string set"
  assumes finite_held: "finite (held w)"
    and list_reads: "api_list api b p n t w = (x, v) \<Longrightarrow> held v = held w"
    and list_entries: "api_list api b p n None w = (Inr out, v) \<Longrightarrow> e \<in> set (lo_contents out) \<Longrightarrow>
          \<exists>k. le_key e = Some k \<and> k \<in> held w \<and> prefix p k"
    and list_complete: "api_list api b p n None w = (Inr out, v) \<Longrightarrow> 0 < n \<Longrightarrow> lo_contents out = [] \<Longrightarrow>
          k \<in> held w \<Longrightarrow> \<not> prefix p k"
    and delete_only: "api_delete api b ks w = (y, v) \<Longrightarrow> held v \<subseteq> held w \<and> held w - set ks \<subseteq> held v"
    and delete_confirmed: "api_delete api b ks w = (Inr ans, v) \<Longrightarrow> d \<in> set (do_deleted ans) \<Longrightarrow>
          \<exists>k. d = Some k \<and> k \<notin> held v"
    and delete_answers: "api_delete api b ks w = (Inr ans, v) \<Longrightarrow> k \<in> set ks \<Longrightarrow>
          Some k \<in> set (do_deleted ans) \<or> (\<exists>f\<in>set (do_errors ans). ee_key f = Some k)"
begin

lemma store_list_held: "store_list api b p n w = (x, v) \<Longrightarrow> held v = held w"
  by (auto simp: store_list_def act_defs dest: list_reads split: prod.splits sum.splits)

lemma store_list_api:
  assumes "store_list api b p n w = (Inr objs, v)"
  shows "\<exists>out. api_list api b p n None w = (Inr out, v) \<and> objs = to_objects (lo_contents out)"
  using assms by (auto simp: store_list_def act_defs split: prod.splits sum.splits)

lemma store_list_entries:
  assumes "store_list api b p n w = (Inr objs, v)" "x \<in> set objs"
  shows "o_key x \<in> held w \<and> prefix p (o_key x)"
proof -
  obtain out where out: "api_list api b p n None w = (Inr out, v)" "objs = to_objects (lo_contents out)"
    using store_list_api [OF assms(1)] by blast
  then obtain e where "e \<in> set (lo_contents out)" "o_key x = to_string (le_key e)"
    using assms(2) by (auto simp: to_objects_def)
  then show ?thesis using list_entries [OF out(1)] by (fastforce simp: to_string_def)
qed

lemma store_list_complete:
  assumes "store_list api b p n w = (Inr [], v)" "0 < n" "k \<in> held w"
  shows "\<not> prefix p k"
  using store_list_api [OF assms(1)] list_complete assms(2,3) by (auto simp: to_objects_def)

lemma store_empty_decides:
  assumes "store_empty api b p w = (Inr e, v)"
  shows "e \<longleftrightarrow> (\<forall>k\<in>held w. \<not> prefix p k)"
proof -
  obtain objs where l: "store_list api b p 1 w = (Inr objs, v)" and e: "e = (objs = [])"
    using assms by (auto simp: store_empty_def act_defs split: prod.splits sum.splits)
  show ?thesis
    using store_list_entries [OF l] store_list_complete [of p 1 w v] l e by (cases objs) auto
qed

lemma store_empty_held: "store_empty api b p w = (x, v) \<Longrightarrow> held v = held w"
  by (auto simp: store_empty_def act_defs dest: store_list_held split: prod.splits sum.splits)

text \<open>The request behind an answer of \<open>store_delete\<close>: refused, failed, or answered.\<close>

lemma store_delete_cases:
  assumes "store_delete api b oid ks w = ((deleted, failed, e), v)"
  obtains (refused) "v = w" "deleted = []" "ks = [] \<or> e \<noteq> None"
  | (request_failed) x where "list_all (piece_of oid) ks" "api_delete api b ks w = (Inl x, v)"
      "deleted = []" "e \<noteq> None"
  | (answered) out where "list_all (piece_of oid) ks" "api_delete api b ks w = (Inr out, v)"
      "deleted = map to_string (do_deleted out)" "failed = map to_key_error (do_errors out)" "e = None"
proof (cases "check_keys oid ks")
  case None
  then have "list_all (piece_of oid) ks" by (simp add: check_keys_None)
  then show thesis
    using assms None request_failed answered refused
    by (auto simp: store_delete_def split: if_splits prod.splits sum.splits)
next
  case (Some x)
  have "v = w" "deleted = []" "ks = [] \<or> e \<noteq> None"
    using assms by (auto simp: store_delete_def Some split: if_splits)
  then show thesis by (rule refused)
qed

lemma store_delete_held:
  assumes "store_delete api b oid ks w = ((deleted, failed, e), v)"
  shows "held v \<subseteq> held w \<and> held w - {k \<in> set ks. piece_of oid k} \<subseteq> held v"
  using assms
proof (cases rule: store_delete_cases)
  case (request_failed x)
  then show ?thesis using delete_only [OF request_failed(2)] by (auto simp: list_all_iff)
next
  case (answered out)
  then show ?thesis using delete_only [OF answered(2)] by (auto simp: list_all_iff)
qed simp

lemma store_delete_confirmed:
  assumes "store_delete api b oid ks w = ((deleted, failed, e), v)" "k \<in> set deleted"
  shows "k \<notin> held v"
  using assms(1)
proof (cases rule: store_delete_cases)
  case (answered out)
  then obtain d where "d \<in> set (do_deleted out)" "k = to_string d" using assms(2) by auto
  then show ?thesis using delete_confirmed [OF answered(2)] by (fastforce simp: to_string_def)
qed (use assms(2) in simp_all)

lemma store_delete_answers:
  assumes "store_delete api b oid ks w = ((deleted, failed, None), v)" "k \<in> set ks"
  shows "k \<in> set deleted \<or> k \<in> ke_key ` set failed"
  using assms(1)
proof (cases rule: store_delete_cases)
  case (answered out)
  have "Some k \<in> set (do_deleted out) \<Longrightarrow> k \<in> set deleted"
    unfolding answered by (auto simp: to_string_def intro!: rev_image_eqI [of "Some k"])
  moreover have "k \<in> ke_key ` set failed" if "f \<in> set (do_errors out)" "ee_key f = Some k" for f
  proof -
    have "to_key_error f \<in> set failed"
      unfolding answered(4) set_map by (rule imageI) (rule that(1))
    moreover have "ke_key (to_key_error f) = k" using that(2) by (simp add: to_key_error_def to_string_def)
    ultimately show ?thesis by blast
  qed
  ultimately show ?thesis using delete_answers [OF answered(2) assms(2)] by blast
qed (use assms(2) in simp_all)

end

section \<open>The contract of the store\<close>

locale object_store =
  fixes ls :: "string \<Rightarrow> nat \<Rightarrow> ('w, s3_object list) act"
    and em :: "string \<Rightarrow> ('w, bool) act"
    and del :: "u64 \<Rightarrow> string list \<Rightarrow> 'w \<Rightarrow> delete_result \<times> 'w"
    and held :: "'w \<Rightarrow> string set"
  assumes held_finite: "finite (held w)"
    and ls_reads: "ls p n w = (l, v) \<Longrightarrow> held v = held w"
    and ls_entries: "ls p n w = (Inr objs, v) \<Longrightarrow> x \<in> set objs \<Longrightarrow> o_key x \<in> held w \<and> prefix p (o_key x)"
    and ls_complete: "ls p n w = (Inr [], v) \<Longrightarrow> 0 < n \<Longrightarrow> k \<in> held w \<Longrightarrow> \<not> prefix p k"
    and em_decides: "em p w = (Inr none, v) \<Longrightarrow> none \<longleftrightarrow> (\<forall>k\<in>held w. \<not> prefix p k)"
    and em_reads: "em p w = (y, v) \<Longrightarrow> held v = held w"
    and del_only: "del oid ks w = ((ds, fs, err), v) \<Longrightarrow>
          held v \<subseteq> held w \<and> held w - {k \<in> set ks. piece_of oid k} \<subseteq> held v"
    and del_confirmed: "del oid ks w = ((ds, fs, err), v) \<Longrightarrow> k \<in> set ds \<Longrightarrow> k \<notin> held v"
    and del_answers: "del oid ks w = ((ds, fs, None), v) \<Longrightarrow> k \<in> set ks \<Longrightarrow> k \<in> set ds \<or> k \<in> ke_key ` set fs"

sublocale s3_service \<subseteq> store: object_store "store_list api b" "store_empty api b" "store_delete api b" held
  by unfold_locales
    (fact finite_held store_list_held store_list_entries store_list_complete store_empty_decides
      store_empty_held store_delete_held store_delete_confirmed store_delete_answers)+

end
