(* ===== verification/PurgeOutcome.thy ===== *)
theory PurgeOutcome
  imports ObjectStore
begin

text \<open>
  The outcome of one object over a store that keeps its contract: the loop that clears a prefix
  ends, whatever listings and deletions fail, and an object that ends without an error has lost
  exactly its own pieces. Every round that goes on uses up a part of the finite budget of
  failures, or removes a key.
\<close>

section \<open>The budget of failures\<close>

definition keys_under :: "string \<Rightarrow> string set \<Rightarrow> string set" where
  "keys_under p K = {k \<in> K. prefix p k}"

definition slack :: "int \<Rightarrow> fails \<Rightarrow> string set \<Rightarrow> nat" where
  "slack limit fails K = (\<Sum>k\<in>K. nat (limit + 1) - fail_count fails k)"

definition within_budget :: "int \<Rightarrow> fails \<Rightarrow> string set \<Rightarrow> bool" where
  "within_budget limit fails K \<longleftrightarrow> (\<forall>k\<in>K. int (fail_count fails k) \<le> limit)"

lemma sum_decrease:
  fixes f g :: "'a \<Rightarrow> nat"
  assumes "finite K" "L \<subseteq> K" "\<And>k. k \<in> L \<Longrightarrow> g k \<le> f k" "k0 \<in> K" "0 < f k0" "k0 \<in> L \<Longrightarrow> g k0 < f k0"
  shows "sum g L < sum f K"
proof (cases "k0 \<in> L")
  case True
  have "sum g L < sum f L"
    by (rule sum_strict_mono_ex1) (use assms True finite_subset in auto)
  also have "\<dots> \<le> sum f K" by (rule sum_mono2) (use assms in auto)
  finally show ?thesis .
next
  case False
  have "sum g L \<le> sum f L" using assms(3) by (rule sum_mono)
  also have "\<dots> \<le> sum f (K - {k0})" by (rule sum_mono2) (use assms False in auto)
  also have "\<dots> < sum f K" using sum.remove [OF assms(1,4), of f] assms(5) by simp
  finally show ?thesis .
qed

lemma fail_count_upd [simp]: "fail_count (fails(k := Some n)) j = (if j = k then n else fail_count fails j)"
  "fail_count (fails(k := None)) j = (if j = k then 0 else fail_count fails j)"
  by (simp_all add: fail_count_def)

lemma count_deleted_fails:
  "count_deleted sz ks keys bytes fails = (k', b', fails') \<Longrightarrow>
     fail_count fails' k = (if k \<in> set ks then 0 else fail_count fails k)"
  by (induction sz ks keys bytes fails rule: count_deleted.induct) auto

lemma count_failures_stuck:
  "count_failures limit why ks fails worst stuck = (fails', worst', stuck') \<Longrightarrow> stuck' = [] \<Longrightarrow> stuck = []"
  by (induction limit why ks fails worst stuck rule: count_failures.induct) (auto simp: Let_def split: if_splits)

lemma count_failures_other:
  "count_failures limit why ks fails worst stuck = (fails', worst', stuck') \<Longrightarrow>
     k \<notin> set ks \<or> reason_of why k = None \<Longrightarrow> fail_count fails' k = fail_count fails k"
  by (induction limit why ks fails worst stuck rule: count_failures.induct)
    (auto simp: Let_def split: if_splits)

lemma count_failures_mono:
  "count_failures limit why ks fails worst stuck = (fails', worst', stuck') \<Longrightarrow> fail_count fails k \<le> fail_count fails' k"
proof (induction limit why ks fails worst stuck rule: count_failures.induct)
  case (2 limit why j ks fails worst stuck)
  then show ?case by (fastforce simp: Let_def split: if_splits)
qed simp

lemma count_failures_hit:
  "count_failures limit why ks fails worst stuck = (fails', worst', []) \<Longrightarrow>
     k \<in> set ks \<Longrightarrow> reason_of why k \<noteq> None \<Longrightarrow>
     fail_count fails k < fail_count fails' k \<and> int (fail_count fails' k) \<le> limit"
proof (induction limit why ks fails worst stuck rule: count_failures.induct)
  case (2 limit why j ks fails worst stuck)
  show ?case
  proof (cases "reason_of why j = None")
    case True
    then show ?thesis using 2 by auto
  next
    case False
    let ?n = "fail_count fails j + 1"
    let ?stuck = "if int ?n > limit then stuck @ [j] else stuck"
    have rec: "count_failures limit why ks (fails(j := Some ?n)) (max worst ?n) ?stuck = (fails', worst', [])"
      using 2(3) False by (simp add: Let_def)
    have small: "int ?n \<le> limit" using count_failures_stuck [OF rec] by (auto split: if_splits)
    show ?thesis
    proof (cases "k \<in> set ks")
      case True
      have "fail_count (fails(j := Some ?n)) k < fail_count fails' k \<and> int (fail_count fails' k) \<le> limit"
        by (rule "2.IH"(2) [OF False refl rec True 2(5)])
      moreover have "fail_count fails k \<le> fail_count (fails(j := Some ?n)) k" by (simp add: fail_count_def)
      ultimately show ?thesis by linarith
    next
      case False
      then have "k = j" using 2(4) by simp
      then show ?thesis using count_failures_other [OF rec, of k] False small by simp
    qed
  qed
qed simp

lemma reason_of_some: "reason_of why k \<noteq> None \<longleftrightarrow> k \<in> fst ` set why"
  by (simp add: reason_of_def map_of_eq_None_iff)

lemma calm_mono:
  assumes "calm R r" "reflp S" "transp S" "\<And>w v. R w v \<Longrightarrow> S w v"
  shows "calm S r"
  using assms unfolding calm_def transits_def by blast

text \<open>The keys only become fewer, and only pieces of the object go.\<close>

definition shrinks :: "('w \<Rightarrow> string set) \<Rightarrow> u64 \<Rightarrow> 'w \<Rightarrow> 'w \<Rightarrow> bool" where
  "shrinks held oid w v \<longleftrightarrow> held v \<subseteq> held w \<and> held w - {k. piece_of oid k} \<subseteq> held v"

lemma shrinks_order: "reflp (shrinks held oid)" "transp (shrinks held oid)"
  by (rule reflpI, simp add: shrinks_def) (rule transpI, unfold shrinks_def, blast)

section \<open>A run over a store\<close>

locale object_run =
  object_store "rn_list r" "rn_empty r" "rn_delete r" held
  for r :: "'w runner" and held :: "'w \<Rightarrow> string set" +
  assumes quiet: "calm (\<lambda>w v. held v = held w) r"
    and budget: "0 \<le> opt_max_retry (rn_opt r)"
    and real: "\<not> opt_dry_run (rn_opt r)"
begin

lemma wait_held: "wait r w = (x, v) \<Longrightarrow> held v = held w"
  by (rule transitsD [OF wait_transits [OF quiet]])

lemma settle_held: "settle r keys bytes fails lf n w = (x, v) \<Longrightarrow> held v = held w"
  by (rule transitsD [OF settle_transits [OF quiet]])

lemma settle_goes_on:
  "settle r keys bytes fails lf n w = (Inr st, v) \<Longrightarrow> st = (keys, bytes, fails, lf)"
  by (auto simp: settle_def split: prod.splits sum.splits)

lemma answered_or_failed:
  assumes "rn_delete r oid batch w = ((ds, fs, derr), v)" "k \<in> set batch"
  shows "k \<in> set ds \<or> reason_of (reasons batch (ds, fs, derr)) k \<noteq> None"
proof (cases derr)
  case None
  have "k \<in> set ds \<or> k \<in> ke_key ` set fs"
    by (rule del_answers [OF _ assms(2)]) (use assms(1) None in simp)
  moreover have "fst ` set (reasons batch (ds, fs, derr)) = ke_key ` set fs"
    using None by (simp add: reasons_def image_image)
  ultimately show ?thesis unfolding reason_of_some by simp
next
  case (Some e)
  then have "fst ` set (reasons batch (ds, fs, derr)) = {j \<in> set batch. j \<notin> set ds}"
    by (simp add: reasons_def image_image)
  then show ?thesis unfolding reason_of_some using assms(2) by simp
qed

lemma delete_round_progress:
  assumes run: "delete_round r oid p objs batch keys bytes fails w = (Inr (k', b', fails', lf'), v)"
    and batch: "batch \<noteq> []" "set batch \<subseteq> keys_under p (held w)"
    and bud: "within_budget (opt_max_retry (rn_opt r)) fails (held w)"
  shows "slack (opt_max_retry (rn_opt r)) fails' (keys_under p (held v)) <
         slack (opt_max_retry (rn_opt r)) fails (keys_under p (held w)) \<and>
         within_budget (opt_max_retry (rn_opt r)) fails' (held v) \<and> lf' = 0"
proof -
  let ?m = "opt_max_retry (rn_opt r)"
  obtain ds fs derr u where d: "rn_delete r oid batch w = ((ds, fs, derr), u)"
    by (cases "rn_delete r oid batch w") auto
  obtain k1 b1 f1 where c: "count_deleted (size_of objs) ds keys bytes fails = (k1, b1, f1)"
    by (cases "count_deleted (size_of objs) ds keys bytes fails") auto
  let ?why = "reasons batch (ds, fs, derr)"
  obtain f2 worst stuck where f: "count_failures ?m ?why batch f1 0 [] = (f2, worst, stuck)"
    by (cases "count_failures ?m ?why batch f1 0 []") auto
  have sub: "held u \<subseteq> held w" using del_only [OF d] by simp
  have gone: "k \<notin> held u" if "k \<in> set ds" for k using del_confirmed [OF d that] .
  have none: "count_failures ?m [] ks g 0 [] = (g, 0, [])" for ks g
    by (induction ks) (auto simp: reason_of_def)
  have "lf' = 0 \<and> held v = held u \<and> stuck = [] \<and> (fails' = f2 \<or> (?why = [] \<and> fails' = f1))"
    using run d c f
    by (auto simp: delete_round_def Let_def none split: if_splits dest: settle_goes_on settle_held)
  moreover have "f2 = f1" if "?why = []" using f that by (simp add: none)
  ultimately have st: "lf' = 0" "held v = held u" "stuck = []" "fails' = f2" by auto
  have f1: "fail_count f1 k = fail_count fails k" if "k \<in> held u" for k
    using count_deleted_fails [OF c, of k] gone that by auto
  have hit: "fail_count fails k < fail_count fails' k \<and> int (fail_count fails' k) \<le> ?m"
    if "k \<in> set batch" "k \<in> held u" for k
    using count_failures_hit [OF f [unfolded st(3)] that(1)] answered_or_failed [OF d that(1)] gone that(2) f1 st(4)
    by auto
  have mono: "fail_count fails k \<le> fail_count fails' k" if "k \<in> held u" for k
    using count_failures_mono [OF f, of k] f1 [OF that] st(4) by simp
  have "within_budget ?m fails' (held v)"
    unfolding within_budget_def st(2)
  proof
    fix k assume k: "k \<in> held u"
    show "int (fail_count fails' k) \<le> ?m"
    proof (cases "k \<in> set batch")
      case True
      then show ?thesis using hit k by simp
    next
      case False
      then have "fail_count fails' k = fail_count fails k"
        using count_failures_other [OF f, of k] f1 [OF k] st(4) by simp
      then show ?thesis using bud sub k by (auto simp: within_budget_def)
    qed
  qed
  moreover have "slack ?m fails' (keys_under p (held v)) < slack ?m fails (keys_under p (held w))"
  proof -
    obtain k0 where k0: "k0 \<in> set batch" using batch(1) by (cases batch) auto
    have "int (fail_count fails k0) \<le> ?m" using bud batch(2) k0 by (auto simp: within_budget_def keys_under_def)
    then have pos: "0 < nat (?m + 1) - fail_count fails k0" by linarith
    show ?thesis
      unfolding slack_def st(2)
    proof (rule sum_decrease [of _ _ _ _ k0])
      show "finite (keys_under p (held w))" using held_finite by (simp add: keys_under_def)
      show "keys_under p (held u) \<subseteq> keys_under p (held w)" using sub by (auto simp: keys_under_def)
      show "nat (?m + 1) - fail_count fails' k \<le> nat (?m + 1) - fail_count fails k" if "k \<in> keys_under p (held u)" for k
        using mono that by (simp add: keys_under_def diff_le_mono2)
      show "k0 \<in> keys_under p (held w)" using batch(2) k0 by auto
      show "0 < nat (?m + 1) - fail_count fails k0" by (rule pos)
      show "nat (?m + 1) - fail_count fails' k0 < nat (?m + 1) - fail_count fails k0" if "k0 \<in> keys_under p (held u)"
        using hit [OF k0] that pos by (auto simp: keys_under_def)
    qed
  qed
  ultimately show ?thesis using st(1) by simp
qed

lemma clear_round_goes_on:
  assumes run: "clear_round r oid p (keys, bytes, fails, lf) w = (Inr (k', b', fails', lf'), v)"
    and bud: "within_budget (opt_max_retry (rn_opt r)) fails (held w)" "int lf \<le> opt_max_retry (rn_opt r)"
  shows "within_budget (opt_max_retry (rn_opt r)) fails' (held v) \<and> int lf' \<le> opt_max_retry (rn_opt r) \<and>
    (slack (opt_max_retry (rn_opt r)) fails' (keys_under p (held v)) < slack (opt_max_retry (rn_opt r)) fails (keys_under p (held w)) \<or>
     slack (opt_max_retry (rn_opt r)) fails' (keys_under p (held v)) = slack (opt_max_retry (rn_opt r)) fails (keys_under p (held w)) \<and> lf < lf')"
proof -
  obtain u where w1: "wait r w = (Inr (), u)"
    using run by (auto simp: clear_round_def split: prod.splits sum.splits)
  have hu: "held u = held w" by (rule wait_held [OF w1])
  obtain l u2 where li: "rn_list r p 1000 u = (l, u2)" by (cases "rn_list r p 1000 u")
  have hu2: "held u2 = held w" using ls_reads [OF li] hu by simp
  show ?thesis
  proof (cases l)
    case (Inl e)
    then have small: "int (lf + 1) \<le> opt_max_retry (rn_opt r)"
      and s: "settle r keys bytes fails (lf + 1) (lf + 1) u2 = (Inr (k', b', fails', lf'), v)"
      using run w1 li by (auto simp: clear_round_def split: if_splits)
    show ?thesis using settle_goes_on [OF s] settle_held [OF s] hu2 small bud by simp
  next
    case (Inr objs)
    have ne: "objs \<noteq> []" using run w1 li Inr by (auto simp: clear_round_def)
    have fl: "filter (\<lambda>k. \<not> piece_of oid k) (map o_key objs) = []"
      using run w1 li Inr ne by (simp add: clear_round_def keep_only_filter split: if_splits)
    then have "filter (piece_of oid) (map o_key objs) = map o_key objs"
      by (simp only: filter_empty_conv filter_id_conv) simp
    with fl have k: "keep_only (map o_key objs) oid = (map o_key objs, [])" by (simp only: keep_only_filter)
    obtain u3 where w2: "wait r u2 = (Inr (), u3)"
      and d: "delete_round r oid p objs (map o_key objs) keys bytes fails u3 = (Inr (k', b', fails', lf'), v)"
      using run w1 li Inr ne k by (auto simp: clear_round_def split: prod.splits sum.splits)
    have hu3: "held u3 = held w" using wait_held [OF w2] hu2 by simp
    have "set (map o_key objs) \<subseteq> keys_under p (held u3)"
      using ls_entries [of p 1000 u objs u2] li Inr hu hu3 by (auto simp: keys_under_def)
    from delete_round_progress [OF d _ this] show ?thesis using bud ne hu3 budget by simp
  qed
qed

lemma clear_round_empty:
  assumes "clear_round r oid p st w = (Inl (kb, None), v)"
  shows "keys_under p (held v) = {}"
proof -
  obtain keys bytes fails lf where st: "st = (keys, bytes, fails, lf)" by (cases st)
  obtain u where w1: "wait r w = (Inr (), u)"
    using assms by (auto simp: clear_round_def st split: prod.splits sum.splits)
  obtain l u2 where li: "rn_list r p 1000 u = (l, u2)" by (cases "rn_list r p 1000 u")
  have dr: "delete_round r oid p objs batch keys bytes fails x \<noteq> (Inl (kb, None), v)" for objs batch x
    by (auto simp: delete_round_def Let_def settle_def split: prod.splits sum.splits if_splits)
  have "l = Inr [] \<and> v = u2"
    using assms w1 li dr by (auto simp: clear_round_def st settle_def split: prod.splits sum.splits if_splits)
  then show ?thesis using ls_complete [of p 1000 u u2] ls_reads [of p 1000 u] li by (auto simp: keys_under_def)
qed

lemma clear_loop_returns:
  assumes "within_budget (opt_max_retry (rn_opt r)) (fst (snd (snd st))) (held w)"
    and "int (snd (snd (snd st))) \<le> opt_max_retry (rn_opt r)"
  shows "\<exists>y. clear_loop r oid p st w = Some y"
proof -
  let ?m = "opt_max_retry (rn_opt r)"
  let ?meas = "\<lambda>(st :: loop_state, w). (slack ?m (fst (snd (snd st))) (keys_under p (held w)), nat (?m + 1) - snd (snd (snd st)))"
  have "wf (inv_image (less_than <*lex*> less_than) ?meas)" by auto
  then have "within_budget ?m (fst (snd (snd (fst c)))) (held (snd c)) \<longrightarrow> int (snd (snd (snd (fst c)))) \<le> ?m \<longrightarrow>
      (\<exists>y. clear_loop r oid p (fst c) (snd c) = Some y)" for c
  proof (induction c)
    case (less c)
    obtain keys bytes fails lf w where c: "c = ((keys, bytes, fails, lf), w)" by (metis surj_pair)
    show ?case
    proof (intro impI)
      assume bud: "within_budget ?m (fst (snd (snd (fst c)))) (held (snd c))" "int (snd (snd (snd (fst c)))) \<le> ?m"
      obtain x v where rd: "clear_round r oid p (keys, bytes, fails, lf) w = (x, v)"
        by (cases "clear_round r oid p (keys, bytes, fails, lf) w")
      show "\<exists>y. clear_loop r oid p (fst c) (snd c) = Some y"
      proof (cases x)
        case (Inl z)
        then show ?thesis using rd c by (simp add: clear_loop.simps)
      next
        case (Inr st')
        obtain k' b' fails' lf' where st': "st' = (k', b', fails', lf')" by (cases st')
        note go = clear_round_goes_on [OF rd [unfolded Inr st']]
        have prog: "within_budget ?m fails' (held v)" "int lf' \<le> ?m"
          "slack ?m fails' (keys_under p (held v)) < slack ?m fails (keys_under p (held w)) \<or>
           slack ?m fails' (keys_under p (held v)) = slack ?m fails (keys_under p (held w)) \<and> lf < lf'"
          using go bud c by auto
        have "((st', v), c) \<in> inv_image (less_than <*lex*> less_than) ?meas"
          using prog c st' by auto
        from less.IH [OF this] prog st' have "\<exists>y. clear_loop r oid p st' v = Some y" by simp
        then show ?thesis using rd c Inr by (simp add: clear_loop.simps [of r oid p "(keys, bytes, fails, lf)"])
      qed
    qed
  qed
  from this [of "(st, w)"] show ?thesis using assms by simp
qed

lemma clear_loop_empty:
  assumes "clear_loop r oid p st w = Some ((kb, None), v)"
  shows "keys_under p (held v) = {}"
proof -
  let ?P = "\<lambda>q (oid :: u64) p (st :: loop_state) w (y :: cleared \<times> _). q = r \<longrightarrow> snd (fst y) = None \<longrightarrow> keys_under p (held (snd y)) = {}"
  have "?P r oid p st w ((kb, None), v)"
  
  proof (rule clear_loop.raw_induct [where P = ?P, OF _ assms], intro impI)
    fix rec q oid p st w y
    assume IH: "\<And>q oid p st w y. rec q oid p st w = Some y \<Longrightarrow> ?P q oid p st w y"
      and run: "(case clear_round q oid p st w of (Inl res, w) \<Rightarrow> Some (res, w)
         | (Inr st, w) \<Rightarrow> rec q oid p st w) = Some y"
      and q: "q = r" and ok: "snd (fst y) = None"
    obtain x u where rd: "clear_round r oid p st w = (x, u)" by (cases "clear_round r oid p st w")
    show "keys_under p (held (snd y)) = {}"
    proof (cases x)
      case (Inl z)
      then have "y = ((fst z, None), u)" using run rd q ok by (cases z) auto
      then show ?thesis using clear_round_empty [of oid p st w "fst z" u] rd Inl ok run q by (cases z) auto
    next
      case (Inr st')
      then show ?thesis using IH [of q oid p st' u y] run rd q ok by simp
    qed
  qed
  then show ?thesis by simp
qed
lemma shrinks_calm: "calm (shrinks held oid) r"
  by (rule calm_mono [OF quiet shrinks_order]) (simp add: shrinks_def)

lemma shrinks_store: "store_calm (shrinks held oid) r oid"
proof -
  have "transits (shrinks held oid) (rn_list r p n)" "transits (shrinks held oid) (rn_empty r p)" for p n
    using ls_reads em_reads by (auto simp: transits_def shrinks_def)
  moreover have "transits (shrinks held oid) (rn_delete r oid ks)" for ks
    using del_only by (fastforce simp: transits_def shrinks_def)
  ultimately show ?thesis using real by (simp add: store_calm_def)
qed

lemma clear_prefix_returns: "\<exists>y. clear_prefix r oid p w = Some y"
  using clear_loop_returns [of "(0, 0, \<lambda>_. None, 0)" w oid p] budget real
  by (simp add: clear_prefix_def within_budget_def fail_count_def)

lemma clear_prefixes_return: "\<exists>y. clear_prefixes r oid ps b res w = Some y"
proof (induction ps arbitrary: b res w)
  case (Cons p ps)
  obtain k bt e u where "clear_prefix r oid p w = Some (((k, bt), e), u)"
    using clear_prefix_returns [of oid p w] by auto
  then show ?case using Cons.IH by (simp add: Let_def split: option.split)
qed simp

lemma process_one_returns: "\<exists>y. process_one r c w = Some y"
proof -
  obtain x u where id: "confirm_identity r c w = (x, u)" by (cases "confirm_identity r c w")
  obtain res u1 where c: "clear_prefixes r (cl_oid c) (prefixes (cl_oid c)) True empty_result u = Some (res, u1)"
    using clear_prefixes_return [of "cl_oid c" "prefixes (cl_oid c)" True empty_result u] by auto
  show ?thesis using id c by (cases x) (simp_all add: process_one_def split: prod.split)
qed

lemma clear_prefixes_empty:
  assumes "clear_prefixes r oid ps b res w = Some (res', v)" "res_err res' = None" "p \<in> set ps"
  shows "keys_under p (held v) = {}"
  using assms(1,3)
proof (induction ps arbitrary: b res w)
  case (Cons q ps)
  from Cons.prems obtain k bt e u where c: "clear_prefix r oid q w = Some (((k, bt), e), u)"
    by (auto split: option.splits prod.splits)
  have e: "e = None"
    using Cons.prems(1) c assms(2) by (cases e) (auto simp: Let_def split: if_splits)
  then obtain b' res1 where rest: "clear_prefixes r oid ps b' res1 u = Some (res', v)"
    using Cons.prems(1) c by (auto simp: Let_def)
  have "keys_under q (held u) = {}"
    using c e real by (simp add: clear_prefix_def clear_loop_empty)
  moreover have "held v \<subseteq> held u"
    using clear_prefixes_transits [OF shrinks_calm shrinks_store rest] by (simp add: shrinks_def)
  ultimately have "keys_under q (held v) = {}" by (auto simp: keys_under_def)
  then show ?case using Cons.IH [OF rest] Cons.prems(2) by auto
qed simp

lemma recheck_held: "recheck r ps w = (x, v) \<Longrightarrow> held v = held w"
proof (induction ps arbitrary: w)
  case (Cons p ps)
  obtain a u where w1: "wait r w = (a, u)" by (cases "wait r w")
  obtain y u2 where em: "rn_empty r p u = (y, u2)" by (cases "rn_empty r p u")
  have "held u2 = held w" using em_reads [OF em] wait_held [OF w1] by simp
  moreover have "v = u \<or> v = u2 \<or> recheck r ps u2 = (x, v)"
    using Cons.prems w1 em by (auto simp: act_defs split: sum.splits if_splits)
  ultimately show ?case using Cons.IH wait_held [OF w1] by auto
qed (simp add: ret_def)

lemma process_one_empties:
  assumes run: "process_one r c w = Some (res, v)" and ok: "res_err res = None"
    and p: "p \<in> set (prefixes (cl_oid c))"
  shows "keys_under p (held v) = {}"
proof -
  obtain u where id: "confirm_identity r c w = (Inr (), u)"
    using run ok by (auto simp: process_one_def empty_result_def split: prod.splits sum.splits)
  obtain res1 u1 where c: "clear_prefixes r (cl_oid c) (prefixes (cl_oid c)) True empty_result u = Some (res1, u1)"
    using clear_prefixes_return [of "cl_oid c" "prefixes (cl_oid c)" True empty_result u] by auto
  have res1: "res_err res1 = None"
    using run ok id c by (auto simp: process_one_def split: if_splits prod.splits)
  obtain x where rc: "recheck r (prefixes (cl_oid c)) u1 = (x, v)"
    using run ok id c res1 real by (auto simp: process_one_def split: prod.splits)
  show ?thesis
    using clear_prefixes_empty [OF c res1 p] recheck_held [OF rc] by simp
qed

lemma process_one_removes:
  assumes "process_one r c w = Some (res, v)" "res_err res = None"
  shows "held v = held w - {k. piece_of (cl_oid c) k}"
proof -
  have "shrinks held (cl_oid c) w v" by (rule process_one_transits [OF shrinks_calm shrinks_store assms(1)])
  moreover have "k \<notin> held v" if "piece_of (cl_oid c) k" for k
    using own_piece_prefix [OF that] process_one_empties [OF assms] by (auto simp: keys_under_def)
  ultimately show ?thesis by (auto simp: shrinks_def)
qed

end

text \<open>The S3 store of \<^verbatim>\<open>runPurge\<close> over a service that keeps the documented behaviour is such a store.\<close>

context s3_service
begin

lemma s3_object_run:
  assumes "calm (\<lambda>w v. held v = held w) (s3_runner api b head check cerr lim sleep opt)"
    and "0 \<le> opt_max_retry opt" "\<not> opt_dry_run opt"
  shows "object_run (s3_runner api b head check cerr lim sleep opt) held"
proof -
  have "object_store (store_list api b) (store_empty api b) (store_delete api b) held"
    by (rule store.object_store_axioms)
  then show ?thesis
    using assms by (auto simp: object_run_def object_run_axioms_def s3_runner_def)
qed

end

end
