(* ===== verification/Bucket.thy ===== *)
theory Bucket
  imports PurgeOutcome
begin

text \<open>
  A reference bucket that keeps the contract \<open>s3_service\<close>: an association list of keys and sizes
  with a script of faults. A request may time out, a delete request then having removed its first
  key all the same, and a delete request may be denied its first key. It shows that the contract
  can hold, and it is what the concrete runs of the witnesses work on.
\<close>

section \<open>The bucket\<close>

datatype fault = Fine | Timeout | Denied

record bucket =
  bk_keys :: "(string \<times> i64) list"
  bk_script :: "fault list"

definition next_fault :: "bucket \<Rightarrow> fault \<times> bucket" where
  "next_fault w = (case bk_script w of [] \<Rightarrow> (Fine, w) | f # fs \<Rightarrow> (f, w\<lparr>bk_script := fs\<rparr>))"

definition bk_held :: "bucket \<Rightarrow> string set" where
  "bk_held w = fst ` set (bk_keys w)"

definition after_key :: "string option \<Rightarrow> (string \<times> i64) list \<Rightarrow> (string \<times> i64) list" where
  "after_key t xs = (case t of None \<Rightarrow> xs | Some k \<Rightarrow> drop 1 (dropWhile (\<lambda>e. fst e \<noteq> k) xs))"

definition bk_page :: "string \<Rightarrow> nat \<Rightarrow> (string \<times> i64) list \<Rightarrow> list_out" where
  "bk_page p n xs =
     (let found = filter (\<lambda>e. prefix p (fst e)) xs; page = take n found in
      \<lparr>lo_contents = map (\<lambda>(k, sz). \<lparr>le_key = Some k, le_size = Some sz\<rparr>) page,
       lo_truncated = Some (n < length found),
       lo_next = (if n < length found then Some (fst (last page)) else None)\<rparr>)"

definition drop_keys :: "string list \<Rightarrow> bucket \<Rightarrow> bucket" where
  "drop_keys ks w = w\<lparr>bk_keys := filter (\<lambda>e. fst e \<notin> set ks) (bk_keys w)\<rparr>"

definition bucket_api :: "bucket s3_api" where
  "bucket_api =
     \<lparr>api_list = \<lambda>b p n t w. (case next_fault w of
          (Fine, w) \<Rightarrow> (Inr (bk_page p n (after_key t (bk_keys w))), w)
        | (_, w) \<Rightarrow> (Inl (Txt ''timeout''), w)),
      api_delete = \<lambda>b ks w. (case next_fault w of
          (Fine, w) \<Rightarrow> (Inr \<lparr>do_deleted = map Some ks, do_errors = []\<rparr>, drop_keys ks w)
        | (Timeout, w) \<Rightarrow> (Inl (Txt ''timeout''), drop_keys (take 1 ks) w)
        | (Denied, w) \<Rightarrow> (Inr \<lparr>do_deleted = map Some (drop 1 ks),
              do_errors = map (\<lambda>k. \<lparr>ee_key = Some k, ee_code = Some ''AccessDenied'', ee_message = None\<rparr>) (take 1 ks)\<rparr>,
            drop_keys (drop 1 ks) w)),
      api_versioning = \<lambda>b. ret []\<rparr>"

section \<open>It keeps the contract\<close>

lemma next_fault_keys [simp]: "next_fault w = (f, v) \<Longrightarrow> bk_keys v = bk_keys w"
  by (auto simp: next_fault_def split: list.splits)

lemma held_drop [simp]: "bk_held (drop_keys ks w) = bk_held w - set ks"
  by (auto simp: bk_held_def drop_keys_def)

lemma next_fault_held [simp]: "next_fault w = (f, v) \<Longrightarrow> bk_held v = bk_held w"
  by (simp add: bk_held_def)

lemma bk_page_entries:
  "e \<in> set (lo_contents (bk_page p n xs)) \<Longrightarrow> \<exists>k. le_key e = Some k \<and> k \<in> fst ` set xs \<and> prefix p k"
  by (force simp: bk_page_def Let_def dest!: in_set_takeD)

lemma bk_page_complete:
  "lo_contents (bk_page p n xs) = [] \<Longrightarrow> 0 < n \<Longrightarrow> k \<in> fst ` set xs \<Longrightarrow> \<not> prefix p k"
  by (auto simp: bk_page_def Let_def filter_empty_conv)

lemma bucket_list:
  assumes "api_list bucket_api b p n t w = (x, v)"
  shows "bk_held v = bk_held w"
    and "x = Inr out \<Longrightarrow> out = bk_page p n (after_key t (bk_keys w))"
  using assms by (auto simp: bucket_api_def split: prod.splits fault.splits)

lemma bucket_delete:
  assumes "api_delete bucket_api b ks w = (x, v)"
  obtains (fine) "x = Inr \<lparr>do_deleted = map Some ks, do_errors = []\<rparr>" "bk_held v = bk_held w - set ks"
  | (timeout) "x = Inl (Txt ''timeout'')" "bk_held v = bk_held w - set (take 1 ks)"
  | (denied) "x = Inr \<lparr>do_deleted = map Some (drop 1 ks),
        do_errors = map (\<lambda>k. \<lparr>ee_key = Some k, ee_code = Some ''AccessDenied'', ee_message = None\<rparr>) (take 1 ks)\<rparr>"
      "bk_held v = bk_held w - set (drop 1 ks)"
  using assms by (auto simp: bucket_api_def split: prod.splits fault.splits)

interpretation mock: s3_service bucket_api b bk_held
proof unfold_locales
  fix w p n t x v
  show "finite (bk_held w)" by (simp add: bk_held_def)
  assume "api_list bucket_api b p n t w = (x, v)"
  then show "bk_held v = bk_held w" by (rule bucket_list)
next
  fix p n w out v e
  assume li: "api_list bucket_api b p n None w = (Inr out, v)" and e: "e \<in> set (lo_contents out)"
  have "out = bk_page p n (bk_keys w)" using bucket_list(2) [OF li refl] by (simp add: after_key_def)
  then show "\<exists>k. le_key e = Some k \<and> k \<in> bk_held w \<and> prefix p k"
    unfolding bk_held_def using bk_page_entries e by blast
next
  fix p n w out v k
  assume li: "api_list bucket_api b p n None w = (Inr out, v)" and *: "0 < n" "lo_contents out = []" "k \<in> bk_held w"
  have "out = bk_page p n (bk_keys w)" using bucket_list(2) [OF li refl] by (simp add: after_key_def)
  then show "\<not> prefix p k" using bk_page_complete * unfolding bk_held_def by blast
next
  fix ks w y v
  assume "api_delete bucket_api b ks w = (y, v)"
  then show "bk_held v \<subseteq> bk_held w \<and> bk_held w - set ks \<subseteq> bk_held v"
    by (cases rule: bucket_delete) (auto dest: in_set_takeD in_set_dropD)
next
  fix ks w ans v d
  assume "api_delete bucket_api b ks w = (Inr ans, v)" "d \<in> set (do_deleted ans)"
  then show "\<exists>k. d = Some k \<and> k \<notin> bk_held v"
    by (cases rule: bucket_delete) auto
next
  fix ks w ans v k
  assume "api_delete bucket_api b ks w = (Inr ans, v)" "k \<in> set ks"
  then show "Some k \<in> set (do_deleted ans) \<or> (\<exists>f\<in>set (do_errors ans). ee_key f = Some k)"
    by (cases rule: bucket_delete) (cases ks, auto)+
qed

section \<open>A run over it\<close>

definition ex_options :: options where
  "ex_options = \<lparr>opt_bucket = ''limewire'', opt_concurrency = 1, opt_max_retry = 2, opt_dry_run = False,
     opt_retry_failed = False, opt_data_chunks = 4, opt_segment_size = 16777216\<rparr>"

definition ex_head :: "u64 \<Rightarrow> ('w, object_head) act" where
  "ex_head k = ret \<lparr>oh_id = k, oh_bucket = ''limewire'', oh_status = ''SEALED'', oh_version = 0, oh_payload = 5\<rparr>"

definition ex_claim :: claimed where
  "ex_claim = \<lparr>cl_oid = 7, cl_payload = 5, cl_status = ''SEALED'', cl_version = 0\<rparr>"

definition ex_runner :: "bucket runner" where
  "ex_runner = s3_runner bucket_api ''piece-store'' ex_head None (\<lambda>_. None) None (\<lambda>_. ret ()) ex_options"

text \<open>Two pieces of object 7 and one of object 77; the second listing and the first deletion fail.\<close>

definition ex_bucket :: bucket where
  "ex_bucket = \<lparr>bk_keys = [(''s7_s0'', 3), (''s77_s0'', 9), (''s7_s1'', 2)],
     bk_script = [Fine, Denied, Timeout]\<rparr>"

lemma ex_prefixes: "prefixes 7 = [''s7_'', ''e7_'']"
  by (simp add: prefixes_def Let_def dec.simps [of 7] digit_chars)

lemma ex_pieces: "piece_of 7 ''s7_s0''" "piece_of 7 ''s7_s1''" "\<not> piece_of 7 ''s77_s0''" 
  by (simp_all add: piece_of_def parse_piece_def key_num_def parse_uint_def digit_val_def is_digit_def piece_key_def 
    no_piece_def dec.simps digit_chars Let_def)
lemmas ex_runner_defs = ex_runner_def s3_runner_def ex_options_def ex_claim_def ex_head_def

lemma ex_id: "confirm_identity ex_runner ex_claim w = (Inr (), w)"
  by (simp add: confirm_identity_def identity_diff_def ex_runner_defs act_defs Let_def)

lemma ex_wait: "wait ex_runner w = (Inr (), w)"
  by (simp add: wait_def ctx_live_def ex_runner_defs act_defs)
lemma ex_fields:
  "rn_list ex_runner = store_list bucket_api ''piece-store''" "rn_empty ex_runner = store_empty bucket_api ''piece-store''"
  "rn_delete ex_runner = store_delete bucket_api ''piece-store''" "rn_limiter ex_runner = None" "rn_ctx_err ex_runner = (\<lambda>_. None)"
  "opt_max_retry (rn_opt ex_runner) = 2" "\<not> opt_dry_run (rn_opt ex_runner)" "cl_oid ex_claim = 7"
  by (simp_all add: ex_runner_defs)

lemmas ex_round_defs = ex_fields clear_round_def ex_wait keep_only_filter ex_pieces store_list_def bucket_api_def next_fault_def
  after_key_def act_defs bk_page_def to_objects_def to_string_def to_int64_def delete_round_def store_delete_def check_keys_def
  drop_keys_def to_key_error_def size_of_def fail_count_def settle_def backoff_def ctx_live_def reasons_def reason_of_def

lemma ex_round1: "clear_round ex_runner 7 ''s7_'' (0,0,\<lambda>_. None,0) ex_bucket =
  (Inr (1, 2, [''s7_s0'' \<mapsto> Suc 0], 0), \<lparr>bk_keys = [(''s7_s0'', 3), (''s77_s0'', 9)], bk_script = [Timeout]\<rparr>)"
  unfolding ex_bucket_def
  by (simp add: ex_round_defs)
lemma ex_round2: "clear_round ex_runner 7 ''s7_'' (1, 2, [''s7_s0'' \<mapsto> Suc 0], 0) \<lparr>bk_keys = [(''s7_s0'', 3), (''s77_s0'', 9)], bk_script = [Timeout]\<rparr> =
  (Inr (1, 2, [''s7_s0'' \<mapsto> Suc 0], Suc 0), \<lparr>bk_keys = [(''s7_s0'', 3), (''s77_s0'', 9)], bk_script = []\<rparr>)"
  by (simp add: ex_round_defs)
lemma ex_round3: "clear_round ex_runner 7 ''s7_'' (1, 2, [''s7_s0'' \<mapsto> Suc 0], Suc 0) \<lparr>bk_keys = [(''s7_s0'', 3), (''s77_s0'', 9)], bk_script = []\<rparr> =
  (Inr (2, 5, (\<lambda>_. None), 0), \<lparr>bk_keys = [(''s77_s0'', 9)], bk_script = []\<rparr>)"
  by (simp add: ex_round_defs)
lemma ex_round4: "p \<in> {''s7_'', ''e7_''} \<Longrightarrow> clear_round ex_runner 7 p (k, b, f, 0) \<lparr>bk_keys = [(''s77_s0'', 9)], bk_script = []\<rparr> =
  (Inl ((k, b), None), \<lparr>bk_keys = [(''s77_s0'', 9)], bk_script = []\<rparr>)"
  by (auto simp: ex_round_defs)
lemma ex_check: "p \<in> {''s7_'', ''e7_''} \<Longrightarrow> store_empty bucket_api ''piece-store'' p \<lparr>bk_keys = [(''s77_s0'', 9)], bk_script = []\<rparr> = (Inr True, \<lparr>bk_keys = [(''s77_s0'', 9)], bk_script = []\<rparr>)"
  by (auto simp: store_empty_def ex_round_defs)
lemma ex_process: "process_one ex_runner ex_claim ex_bucket = Some (\<lparr>res_keys = 2, res_bytes = 5, res_skeys = 2, res_ekeys = 0, res_err = None\<rparr>,
  \<lparr>bk_keys = [(''s77_s0'', 9)], bk_script = []\<rparr>)"
  by (simp add: process_one_def ex_id ex_prefixes ex_fields clear_prefix_def clear_loop.simps [of ex_runner] ex_round1 ex_round2 ex_round3 ex_round4 ex_check ex_wait empty_result_def act_defs with_err_def)

lemma ex_calm: "calm (\<lambda>w v. bk_held v = bk_held w) ex_runner"
  by (auto simp: calm_def ex_runner_defs transits_def ret_def intro: reflpI transpI)

interpretation mock_run: object_run ex_runner bk_held
  unfolding ex_runner_def
  by (rule mock.s3_object_run [OF ex_calm [unfolded ex_runner_def]]) (simp_all add: ex_options_def)

end
