(* ===== verification/PurgeResults.thy ===== *)
theory PurgeResults
  imports Bucket
begin

text \<open>
  What one object of a deletion run guarantees: which requests it sends, that it ends, and what an
  object that ends without an error leaves behind; each applied to the run over the reference bucket.
\<close>

section \<open>A logged run\<close>

definition ex_logged :: "(bucket \<times> string list list) runner" where
  "ex_logged = logged_runner bucket_api ''piece-store'' ex_head None (\<lambda>_. None) None (\<lambda>_. ret ()) ex_options"

lemmas ex_logged_defs = ex_logged_def logged_runner_def s3_runner_def ex_options_def ex_claim_def ex_head_def beside_log_def

lemma ex_logged_fields:
  "rn_list ex_logged = store_list (logged_api bucket_api) ''piece-store''"
  "rn_empty ex_logged = store_empty (logged_api bucket_api) ''piece-store''"
  "rn_delete ex_logged = store_delete (logged_api bucket_api) ''piece-store''"
  "rn_limiter ex_logged = None" "rn_ctx_err ex_logged = (\<lambda>_. None)" "rn_check ex_logged = None"
  "opt_max_retry (rn_opt ex_logged) = 2" "\<not> opt_dry_run (rn_opt ex_logged)" "cl_oid ex_claim = 7"
  by (auto simp: ex_logged_defs)

lemmas ex_log_round_defs = ex_round_defs ex_logged_fields logged_api_def beside_log_def wait_def

lemma ex_log_id: "confirm_identity ex_logged ex_claim w = (Inr (), w)"
  by (simp add: confirm_identity_def identity_diff_def ex_logged_defs act_defs Let_def)

definition ex_small :: bucket where
  "ex_small = \<lparr>bk_keys = [(''s7_s0'', 3), (''s77_s0'', 9)], bk_script = []\<rparr>"

definition ex_rest :: bucket where
  "ex_rest = \<lparr>bk_keys = [(''s77_s0'', 9)], bk_script = []\<rparr>"

lemma ex_log_round1: "clear_round ex_logged 7 ''s7_'' (0, 0, \<lambda>_. None, 0) (ex_small, []) =
  (Inr (1, 3, \<lambda>_. None, 0), (ex_rest, [[''s7_s0'']]))"
  by (simp add: ex_log_round_defs ex_small_def ex_rest_def)

lemma ex_log_round2:
  "p \<in> {''s7_'', ''e7_''} \<Longrightarrow> clear_round ex_logged 7 p (k, b, f, 0) (ex_rest, l) = (Inl ((k, b), None), (ex_rest, l))"
  by (auto simp: ex_log_round_defs ex_rest_def)

lemma ex_log_check: "p \<in> {''s7_'', ''e7_''} \<Longrightarrow>
  store_empty (logged_api bucket_api) ''piece-store'' p (ex_rest, l) = (Inr True, (ex_rest, l))"
  by (auto simp: store_empty_def ex_log_round_defs ex_rest_def)

lemma ex_log_process: "process_one ex_logged ex_claim (ex_small, []) =
  Some (\<lparr>res_keys = 1, res_bytes = 3, res_skeys = 1, res_ekeys = 0, res_err = None\<rparr>, (ex_rest, [[''s7_s0'']]))"
  by (simp add: process_one_def ex_log_id ex_prefixes ex_logged_fields clear_prefix_def clear_loop.simps [of ex_logged]
      ex_log_round1 ex_log_round2 ex_log_check wait_def ctx_live_def empty_result_def act_defs with_err_def)

section \<open>Properties\<close>

text \<open>C11. Nothing but the pieces of the claimed object is ever requested to be deleted. Whatever the
  store, the chain, the lock check and the context answer, each request to delete that the run of an
  object sends holds at most 1000 keys, every one of them a well-formed piece key of that object;
  and a dry run sends none.\<close>

theorem deletes_own_pieces_only:
  assumes "process_one (logged_runner api b head check cerr lim sleep opt) c (w, []) = Some (res, (v, log))"
  shows "list_all (\<lambda>ks. ks \<noteq> [] \<and> length ks \<le> 1000 \<and> list_all (piece_of (cl_oid c)) ks) log \<and>
    (opt_dry_run opt \<longrightarrow> log = [])"
proof
  show "list_all (\<lambda>ks. ks \<noteq> [] \<and> length ks \<le> 1000 \<and> list_all (piece_of (cl_oid c)) ks) log"
    by (rule logged_run [OF _ assms]) (simp add: proper_batch_def)
  have "list_all (\<lambda>_. False) log" if "opt_dry_run opt"
    by (rule logged_run [OF _ assms]) (use that in simp)
  then show "opt_dry_run opt \<longrightarrow> log = []" by (cases log) auto
qed

theorem deletes_own_pieces_only_witness:
  "list_all (\<lambda>ks. ks \<noteq> [] \<and> length ks \<le> 1000 \<and> list_all (piece_of (cl_oid ex_claim)) ks) [[''s7_s0'']]"
  using deletes_own_pieces_only [OF ex_log_process [unfolded ex_logged_def]] by simp

text \<open>C12. The chain must confirm the object before anything is listed or deleted. When the lock check, which comes
  first, fails, or the lookup itself fails, the object ends with that error, an ordinary failure unless the
  error says otherwise; when the chain's answer differs from the claimed snapshot in the identifier, the bucket, the status,
  the version or the payload size, it ends as a safety violation. In each case it ends at once with zero
  counters and the world exactly as the failed check, the failed lookup or the answer left it.\<close>

theorem identity_gate:
  assumes "(case rn_check r of None \<Rightarrow> (Inr (), w) | Some check \<Rightarrow> check w) = (locked, u)" "rn_head r (cl_oid c) u = (answer, v)"
    and "\<not> (\<exists>h. locked = Inr () \<and> answer = Inr h \<and> oh_id h = cl_oid c \<and> oh_bucket h = opt_bucket (rn_opt r) \<and>
            oh_status h = cl_status c \<and> oh_version h = cl_version c \<and> oh_payload h = cl_payload c)"
  shows "\<exists>e. process_one r c w = Some (\<lparr>res_keys = 0, res_bytes = 0, res_skeys = 0, res_ekeys = 0, res_err = Some e\<rparr>,
      if locked = Inr () then v else u) \<and>
    (case locked of Inl x \<Rightarrow> e = x
     | Inr _ \<Rightarrow> (case answer of Inl x \<Rightarrow> err_is e ErrSafety = err_is x ErrSafety | Inr h \<Rightarrow> err_is e ErrSafety))"
proof -
  have "\<exists>e. confirm_identity r c w = (Inl e, if locked = Inr () then v else u) \<and>
    (case locked of Inl x \<Rightarrow> e = x
     | Inr _ \<Rightarrow> (case answer of Inl x \<Rightarrow> err_is e ErrSafety = err_is x ErrSafety | Inr h \<Rightarrow> err_is e ErrSafety))"
  proof (cases locked)
    case (Inl x)
    then show ?thesis using assms(1) by (cases "rn_check r") (auto simp: confirm_identity_def act_defs)
  next
    case (Inr x)
    have 1: "confirm_identity r c w = tryA (rn_head r (cl_oid c))
       (\<lambda>e. throw (Cat (Txt ''chain check: '') (Cat e (Txt ''; nothing deleted''))))
       (\<lambda>h. let diff = identity_diff c h (opt_bucket (rn_opt r)) in
          failIf (length diff > 0)
            (Cat ErrSafety (Txt ('': chain identity check failed ('' @ join_on ''; '' diff @ ''); nothing deleted'')))) u"
      using assms(1) Inr by (cases "rn_check r") (auto simp: confirm_identity_def act_defs)
    show ?thesis
    proof (cases answer)
      case (Inl y)
      then show ?thesis using 1 Inr assms(2) by (simp add: act_defs ErrSafety_def)
    next
      case ans: (Inr h)
      then have "length (identity_diff c h (opt_bucket (rn_opt r))) > 0" using assms(3) Inr by (auto simp: identity_diff_def)
      then show ?thesis using 1 Inr ans assms(2) by (simp add: act_defs Let_def ErrSafety_def)
    qed
  qed
  then show ?thesis by (auto simp: process_one_def empty_result_def)
qed

text \<open>An answer with another version, and a lookup that fails.\<close>

theorem identity_gate_witness:
  "(\<exists>e. process_one ex_runner (ex_claim\<lparr>cl_version := 1\<rparr>) ex_bucket =
     Some (\<lparr>res_keys = 0, res_bytes = 0, res_skeys = 0, res_ekeys = 0, res_err = Some e\<rparr>, ex_bucket) \<and> err_is e ErrSafety) \<and>
   (\<exists>e. process_one (ex_runner\<lparr>rn_head := \<lambda>_. throw (Txt ''no route'')\<rparr>) ex_claim ex_bucket =
     Some (\<lparr>res_keys = 0, res_bytes = 0, res_skeys = 0, res_ekeys = 0, res_err = Some e\<rparr>, ex_bucket) \<and> \<not> err_is e ErrSafety)"
proof
  show "\<exists>e. process_one ex_runner (ex_claim\<lparr>cl_version := 1\<rparr>) ex_bucket =
     Some (\<lparr>res_keys = 0, res_bytes = 0, res_skeys = 0, res_ekeys = 0, res_err = Some e\<rparr>, ex_bucket) \<and> err_is e ErrSafety"
    using identity_gate [where r = ex_runner and w = ex_bucket and u = ex_bucket and locked = "Inr ()" and v = ex_bucket and
        c = "ex_claim\<lparr>cl_version := 1\<rparr>" and answer = "Inr \<lparr>oh_id = 7, oh_bucket = ''limewire'', oh_status = ''SEALED'', oh_version = 0, oh_payload = 5\<rparr>"]
    by (simp add: ex_runner_defs ret_def)
  show "\<exists>e. process_one (ex_runner\<lparr>rn_head := \<lambda>_. throw (Txt ''no route'')\<rparr>) ex_claim ex_bucket =
     Some (\<lparr>res_keys = 0, res_bytes = 0, res_skeys = 0, res_ekeys = 0, res_err = Some e\<rparr>, ex_bucket) \<and> \<not> err_is e ErrSafety"
    using identity_gate [where r = "ex_runner\<lparr>rn_head := \<lambda>_. throw (Txt ''no route'')\<rparr>" and w = ex_bucket and u = ex_bucket and
        locked = "Inr ()" and v = ex_bucket and c = ex_claim and answer = "Inl (Txt ''no route'')"]
    by (simp add: ex_runner_defs throw_def ErrSafety_def)
qed

text \<open>C13. Every object of a deletion run comes to an end. Over a service that keeps its documented
  behaviour, whatever requests it fails or denies and however often, the loops that clear an object
  end for every budget of retries: each round uses up some of the budget or removes a key.\<close>

theorem object_run_ends:
  assumes "s3_service api b held"
    and "calm (\<lambda>w v. held v = held w) (s3_runner api b head check cerr lim sleep opt)"
    and "0 \<le> opt_max_retry opt" "\<not> opt_dry_run opt"
  shows "\<exists>res v. process_one (s3_runner api b head check cerr lim sleep opt) c w = Some (res, v)"
proof -
  have "object_run (s3_runner api b head check cerr lim sleep opt) held"
    by (rule s3_service.s3_object_run [OF assms])
  from object_run.process_one_returns [OF this] show ?thesis by fast
qed

theorem object_run_ends_witness: "\<exists>res v. process_one ex_runner ex_claim \<lparr>bk_keys = [(''s7_s0'', 3)], bk_script = replicate 9 Denied\<rparr> = Some (res, v)"
  unfolding ex_runner_def
  by (rule object_run_ends [OF mock.s3_service_axioms ex_calm [unfolded ex_runner_def]]) (simp_all add: ex_options_def)

text \<open>C25. An object that ends without an error is gone, and nothing else is: over a service that
  keeps its documented behaviour the bucket then holds exactly the keys it held before, less the
  pieces of the object, and no key at all is left under either prefix of the object.\<close>

theorem success_removes_object:
  assumes "s3_service api b held"
    and "calm (\<lambda>w v. held v = held w) (s3_runner api b head check cerr lim sleep opt)"
    and "0 \<le> opt_max_retry opt" "\<not> opt_dry_run opt"
    and "process_one (s3_runner api b head check cerr lim sleep opt) c w = Some (res, v)" "res_err res = None"
  shows "held v = held w - {k. piece_of (cl_oid c) k} \<and>
    {k \<in> held v. \<exists>p\<in>set (prefixes (cl_oid c)). prefix p k} = {}"
proof
  have run: "object_run (s3_runner api b head check cerr lim sleep opt) held"
    by (rule s3_service.s3_object_run [OF assms(1-4)])
  show "held v = held w - {k. piece_of (cl_oid c) k}"
    by (rule object_run.process_one_removes [OF run assms(5,6)])
  show "{k \<in> held v. \<exists>p\<in>set (prefixes (cl_oid c)). prefix p k} = {}"
    using object_run.process_one_empties [OF run assms(5,6)] by (auto simp: keys_under_def)
qed

theorem success_removes_object_witness:
  "bk_held \<lparr>bk_keys = [(''s77_s0'', 9)], bk_script = []\<rparr> = bk_held ex_bucket - {k. piece_of 7 k}"
  using success_removes_object [OF mock.s3_service_axioms ex_calm [unfolded ex_runner_def] _ _ ex_process [unfolded ex_runner_def]]
  by (simp add: ex_options_def ex_claim_def)

end
