(* ===== verification/PurgeRunResults.thy ===== *)
theory PurgeRunResults
  imports PurgeWorld PurgeResults Scenario
begin

text \<open>
  What a deletion run over the progress database guarantees, for every interleaving of its workers:
  it only does what the life of the database allows, it accounts for every object, it reports what
  went wrong, it stops, and a safety violation is latched as a hold on the task.
\<close>

section \<open>The run is a session\<close>

lemma claim_same_db: "adapter_claim c tid a n b w = (x, v) \<Longrightarrow> w_db v = w_db w"
proof (rule keepsE [where I = "\<lambda>d. d = w_db w"])
  show "keeps (\<lambda>d. d = w_db w) (adapter_claim c tid a n b)"
    unfolding adapter_claim_def claim_subtask_def
    by (rule keeps_bind [OF keeps_check_lock], rule dbh_bind [where R = "\<lambda>_ d. d = w_db w"], rule dbh_query) (auto intro: dbh_ret)
qed simp_all

text \<open>A step changes the world by an operation of the deletion session, or leaves the tables alone.\<close>

lemma step_session:
  assumes "run_step (purge_env tid opt) ev s = Some t"
  shows "session H (Purging tid, rs_world s) (Purging tid, rs_world t)"
proof -
  have same: "session H (Purging tid, rs_world s) (Purging tid, rs_world t)" if "w_db (rs_world t) = w_db (rs_world s)"
    by (rule environment [OF that])
  show ?thesis
  proof (cases "event_worker ev")
    case None
    then have "w_db (rs_world t) = w_db (rs_world s)"
      using assms by (cases ev) (auto simp: run_step_def return_feed_def feed_claim_def stop_def Let_def purge_env_def
          dest!: claim_same_db split: step_splits)
    then show ?thesis by (rule same)
  next
    case (Some i)
    then have st: "worker_step (purge_env tid opt) i ev (rs_workers s ! i) s = Some t"
      using assms by (auto simp: run_step_def split: if_splits)
    show ?thesis
    proof (cases "(\<exists>j. ev = Hold j) \<or> (\<exists>j. ev = Record j)")
      case False
      then have "w_db (rs_world t) = w_db (rs_world s)"
        using st Some by (cases ev) (auto simp: step_defs field_defs purge_env_def split: step_splits)
      then show ?thesis by (rule same)
    next
      case True
      then consider (h) c res where "rs_workers s ! i = Holding c res" "\<exists>j. ev = Hold j"
        | (r) c res where "rs_workers s ! i = Recording c res" "\<exists>j. ev = Record j"
        using st by (auto simp: step_defs split: worker.splits)
      then show ?thesis
      proof cases
        case h
        obtain x v where run: "hold Background tid (Some (cl_oid c)) (err_text (the (res_err res))) (rs_world s) = (x, v)"
          by (cases "hold Background tid (Some (cl_oid c)) (err_text (the (res_err res))) (rs_world s)")
        have "rs_world t = v" using st h run
          by (auto simp: worker_step_def hold_step_def halt_hold_def purge_env_def set_worker_def split: sum.splits)
        then show ?thesis using purge_held [OF run] by simp
      next
        case r
        show ?thesis
        proof (cases "res_err res")
          case None
          let ?ck = "check_size opt res (cl_payload c)"
          obtain x v where run: "adapter_done Background tid (cl_oid c) (res_keys res) (res_bytes res) ?ck (rs_world s) = (x, v)"
            by (cases "adapter_done Background tid (cl_oid c) (res_keys res) (res_bytes res) ?ck (rs_world s)")
          have "rs_world t = v" using st r run None
            by (auto simp: worker_step_def record_step_def record_done_def purge_env_def field_defs split: sum.splits)
          then show ?thesis using object_done [OF run [unfolded adapter_done_def]] by simp
        next
          case (Some e)
          obtain x v where run: "fail_subtask Background tid (cl_oid c) (res_keys res) (res_bytes res) (err_text e) (rs_world s) = (x, v)"
            by (cases "fail_subtask Background tid (cl_oid c) (res_keys res) (res_bytes res) (err_text e) (rs_world s)")
          have "rs_world t = v" using st r run Some
            by (auto simp: worker_step_def record_step_def record_fail_def purge_env_def field_defs Let_def split: sum.splits if_splits)
          then show ?thesis using object_failed [OF run] by simp
        qed
      qed
    qed
  qed
qed

lemma run_session:
  "run_reach (purge_env tid opt) around s t \<Longrightarrow> reachable H (Purging tid, rs_world s) \<Longrightarrow>
   reachable H (Purging tid, rs_world t)"
proof (induction rule: run_reach.induct)
  case (move t ev u)
  then show ?case by (intro reachable.step [OF _ step_session [OF move(2)]])
next
  case (world t v)
  then show ?case by (auto simp: around_def intro: reachable.step [OF _ environment])
qed

section \<open>A violation latches the hold\<close>

definition task_open :: "u64 \<Rightarrow> db \<Rightarrow> bool" where
  "task_open tid d \<longleftrightarrow> list_ex (\<lambda>t. st_id t = tid \<and> st_done t = None) (t_tasks d)"

definition task_held :: "u64 \<Rightarrow> db \<Rightarrow> bool" where
  "task_held tid d \<longleftrightarrow> list_ex (\<lambda>t. st_id t = tid \<and> st_hold t \<noteq> []) (t_tasks d)"

definition not_persisted :: "err option \<Rightarrow> bool" where
  "not_persisted h \<longleftrightarrow> (\<exists>a b x. h = Some (Cat a (Cat b (Cat (Txt ''cannot persist SAFETY_HOLD: '') x))))"

lemma err_text_nonempty: "err_is e ErrSafety \<Longrightarrow> err_text e \<noteq> []"
  by (induction e) (auto simp: ErrSafety_def)

lemma runes_nonempty: "r \<in> set (runes s) \<Longrightarrow> r \<noteq> []"
  by (induction s rule: runes.induct) (auto simp: runes.simps(2) Let_def split: if_splits)

lemma clip_nonempty: "s \<noteq> [] \<Longrightarrow> clip_reason s \<noteq> []"
proof -
  assume s: "s \<noteq> []"
  have "concat (take 3900 (runes s)) \<noteq> []" if long: "length (runes s) > 3900"
  proof -
    obtain r rs where r: "runes s = r # rs" using long by (cases "runes s") auto
    then have "r \<noteq> []" using runes_nonempty [of r s] by simp
    then show ?thesis by (simp add: r take_Cons')
  qed
  then show "clip_reason s \<noteq> []" using s by (simp add: clip_reason_def)
qed

lemma ex_update_tasks:
  "(\<exists>t\<in>set (t_tasks (update_tasks R h d)). P t) \<longleftrightarrow> (\<exists>t\<in>set (t_tasks d). P (if R t then h t else t))"
  by (simp add: update_tasks_def del: if_image_distrib)

lemma hold_latches:
  assumes "reason \<noteq> []"
  shows "dbh (task_open tid) (hold c tid oid reason) (\<lambda>_ d. task_open tid d \<and> task_held tid d) (\<lambda>_. task_open tid)"
  unfolding hold_def
  by (rule dbh_bind [OF keeps_check_lock], rule dbh_update)
    (auto simp: task_open_def task_held_def ex_update_tasks clip_nonempty [OF assms] list_ex_iff, force)

lemma hold_keeps_held: "reason \<noteq> [] \<Longrightarrow> keeps (task_held tid) (hold c k oid reason)"
  unfolding hold_def
  by (rule dbh_bind [OF keeps_check_lock], rule dbh_update)
    (auto simp: task_held_def ex_update_tasks clip_nonempty list_ex_iff)

definition same_tasks :: "subtask list \<Rightarrow> db \<Rightarrow> bool" where
  "same_tasks ts d \<longleftrightarrow> t_tasks d = ts"

lemma done_tasks: "keeps (same_tasks ts) (adapter_done c tid oid keys bytes check)"
  unfolding adapter_done_def done_subtask_def
proof (rule keeps_bind [OF keeps_check_lock], rule keeps_transaction)
  have "t_tasks d' = t_tasks d" if "done_stmt oid keys bytes role ex now d = Inr ((), d')" for role ex now d d'
    using that by (auto simp: done_stmt_def dest: upsert_fields)
  then have st: "keeps (same_tasks ts) (update c (done_stmt oid keys bytes (sc_role check) (if sc_known check then Some (sc_expected check) else None)))"
    by (intro dbh_update) (auto simp: same_tasks_def)
  show "keeps (same_tasks ts) (bindA (query c (member_query tid oid)) (\<lambda>_.
       bindA (update c (done_stmt oid keys bytes (sc_role check) (if sc_known check then Some (sc_expected check) else None))) (\<lambda>_.
       exec c (\<lambda>now. update_objects (\<lambda>o'. ob_task o' = tid \<and> ob_oid o' = oid)
         (\<lambda>o'. o'\<lparr>ob_gen := 0, ob_status := ''PENDING'', ob_detail := [], ob_verified_at := None\<rparr>)))))"
    by (rule keeps_bind, rule dbh_query, simp, simp, rule keeps_bind [OF st], rule dbh_update)
      (auto simp: same_tasks_def update_objects_def)
qed (simp add: same_tasks_def)

lemma fail_tasks: "keeps (same_tasks ts) (fail_subtask c tid oid keys bytes reason)"
  unfolding fail_subtask_def check_member_def fail_object_def Let_def
  by (rule keeps_bind, rule keeps_bind [OF keeps_check_lock], rule dbh_query, simp, simp, rule dbh_update)
    (auto simp: same_tasks_def dest: upsert_fields)

definition hold_latched :: "u64 \<Rightarrow> world run \<Rightarrow> bool" where
  "hold_latched tid s \<longleftrightarrow> task_open tid (w_db (rs_world s)) \<and>
     (rs_once s = Ran \<longrightarrow> task_held tid (w_db (rs_world s)) \<or> not_persisted (rs_halt s))"

lemma hold_latched_same:
  "hold_latched tid s \<Longrightarrow> t_tasks (w_db (rs_world t)) = t_tasks (w_db (rs_world s)) \<Longrightarrow>
   rs_once t = Ran \<longrightarrow> rs_once s = Ran \<and> rs_halt t = rs_halt s \<Longrightarrow> hold_latched tid t"
  by (auto simp: hold_latched_def task_open_def task_held_def)

lemma step_tasks:
  assumes "run_step (purge_env tid opt) ev s = Some t" "\<nexists>j. ev = Hold j"
  shows "t_tasks (w_db (rs_world t)) = t_tasks (w_db (rs_world s)) \<and>
    (rs_once t = Ran \<longrightarrow> rs_once s = Ran \<and> rs_halt t = rs_halt s)"
proof -
  have d: "t_tasks (w_db v) = t_tasks (w_db w)" if "adapter_done c k oid keys by ck w = (x, v)" for c k oid keys "by" ck w x v
    using keepsE [OF done_tasks _ that, of "t_tasks (w_db w)"] by (simp add: same_tasks_def)
  have f: "t_tasks (w_db v) = t_tasks (w_db w)" if "fail_subtask c k oid keys by ck w = (x, v)" for c k oid keys "by" ck w x v
    using keepsE [OF fail_tasks _ that, of "t_tasks (w_db w)"] by (simp add: same_tasks_def)
  show ?thesis
  proof (cases "event_worker ev")
    case None
    then show ?thesis
      using assms by (cases ev) (auto simp: run_step_def return_feed_def feed_claim_def stop_def Let_def purge_env_def
          dest!: claim_same_db split: step_splits)
  next
    case (Some i)
    then have st: "worker_step (purge_env tid opt) i ev (rs_workers s ! i) s = Some t"
      using assms by (auto simp: run_step_def split: if_splits)
    show ?thesis
      using st assms(2) Some
      by (cases ev) (auto simp: step_defs field_defs purge_env_def dest: d f split: step_splits)
  qed
qed

lemma step_latched:
  assumes step: "run_step (purge_env tid opt) ev s = Some t" and ok: "run_sound (purge_env tid opt) s" and l: "hold_latched tid s"
  shows "hold_latched tid t"
proof (cases "\<exists>j. ev = Hold j")
  case False
  show ?thesis using step_tasks [OF step False] hold_latched_same [OF l] by blast
next
  case True
  then obtain i where ev: "ev = Hold i" by blast
  then obtain c res where i: "i < length (rs_workers s)" "rs_workers s ! i = Holding c res"
    using step by (auto simp: run_step_def worker_step_def hold_step_def split: if_splits worker.splits)
  have "sound_worker s (rs_workers s ! i)" using ok i(1) by (simp add: run_sound_def list_all_iff)
  then have "sound_worker s (Holding c res)" using i(2) by simp
  then obtain e h where e: "res_err res = Some e" "err_is e ErrSafety" and h: "rs_halt s = Some h"
    by (auto simp: is_safety_def split: option.splits)
  obtain x v where run: "hold Background tid (Some (cl_oid c)) (err_text e) (rs_world s) = (x, v)"
    by (cases "hold Background tid (Some (cl_oid c)) (err_text e) (rs_world s)")
  have o: "task_open tid (w_db (rs_world s))" using l by (simp add: hold_latched_def)
  have t: "rs_world t = v" "x = Inl y \<longrightarrow> not_persisted (rs_halt t)" for y
    using step i ev e h run
    by (auto simp: run_step_def worker_step_def hold_step_def halt_hold_def purge_env_def set_worker_def not_persisted_def
        join_err_def split: sum.splits)
  show ?thesis
  proof (cases x)
    case (Inl y)
    have "task_open tid (w_db v)"
      by (rule dbhD_err [OF hold_latches [OF err_text_nonempty [OF e(2)]] o run [unfolded Inl]])
    then show ?thesis using t Inl by (simp add: hold_latched_def)
  next
    case (Inr y)
    have "task_open tid (w_db v) \<and> task_held tid (w_db v)"
      by (rule dbhD_ok [OF hold_latches [OF err_text_nonempty [OF e(2)]] o run [unfolded Inr]])
    then show ?thesis using t by (simp add: hold_latched_def)
  qed
qed

lemma purge_env_fields [simp]:
  "rv_opt (purge_env tid opt) = opt" "rv_err (purge_env tid opt) = ctx_err RunCtx"
  "rv_parent_err (purge_env tid opt) = ctx_err LockCtx"
  by (simp_all add: purge_env_def)

lemma reach_latched:
  assumes "run_reach (purge_env tid opt) around (run_start (purge_env tid opt) w) s"
    and "ctx_err RunCtx w \<noteq> None \<longrightarrow> ctx_err LockCtx w \<noteq> None" "task_open tid (w_db w)"
  shows "hold_latched tid s"
  using assms(1)
proof (induction rule: run_reach.induct)
  case here
  then show ?case using assms(3) by (simp add: hold_latched_def run_start_def)
next
  case (move t ev u)
  then show ?case
    using step_latched [OF move(2) _ move.IH] task_run.reach_sound [OF move(1)] assms(2) by simp
next
  case (world t v)
  then show ?case by (simp add: hold_latched_def around_def)
qed

section \<open>Two concrete runs\<close>

text \<open>Task 1 with the pending object 5, one worker.\<close>

definition ex_start :: world where
  "ex_start = ex_world (ex_ready\<lparr>t_tasks := [ex_purging]\<rparr>)"

definition ex_after :: world where
  "ex_after = ex_world (ex_ready\<lparr>t_tasks := [ex_purging], t_progress := [ex_result]\<rparr>)"

definition ex_member :: claimed where
  "ex_member = \<lparr>cl_oid = 5, cl_payload = 9, cl_status = ''SEALED'', cl_version = 0\<rparr>"

definition ex_success :: result where
  "ex_success = \<lparr>res_keys = 1, res_bytes = 9, res_skeys = 1, res_ekeys = 0, res_err = None\<rparr>"

definition ex_violation :: result where
  "ex_violation = empty_result\<lparr>res_err := Some ErrSafety\<rparr>"

abbreviation ex_env :: "world run_env" where
  "ex_env \<equiv> purge_env 1 ex_options"

lemma ex_claim1: "adapter_claim RunCtx 1 0 4 False ex_start = (Inr [ex_member], ex_start)"
  by (simp add: adapter_claim_def claim_subtask_def claim_rows_def claimable_def member_rows_def objects_of_def scan_of_def
      progress_of_def has_status_def to_claimed_def ex_member_def ex_start_def run_defs ex_defs List.map_filter_def)

lemma ex_claim2: "adapter_claim RunCtx 1 5 4 False ex_after = (Inr [], ex_after)"
  by (simp add: adapter_claim_def claim_subtask_def claim_rows_def claimable_def member_rows_def objects_of_def scan_of_def
      progress_of_def has_status_def to_claimed_def ex_member_def ex_after_def run_defs ex_defs List.map_filter_def)

lemma ex_record_done: "adapter_done Background 1 5 1 9 (check_size ex_options ex_success 9) ex_start = (Inr (), ex_after)"
proof -
  have "check_size ex_options ex_success 9 = \<lparr>sc_role = ''primary'', sc_expected = 9, sc_known = True\<rparr>"
    by (simp add: check_size_def ex_success_def)
  moreover have "done_subtask Background 1 5 1 9 ''primary'' (Some 9) ex_start = (Inr (), ex_after)"
  proof -
    have "member_query 1 5 (ex_ready\<lparr>t_tasks := [ex_purging]\<rparr>) = Inr ()"
      by (simp add: member_query_def active_member_def ex_defs)
    moreover have "update_objects (\<lambda>o'. ob_task o' = 1 \<and> ob_oid o' = 5)
        (\<lambda>o'. o'\<lparr>ob_gen := 0, ob_status := ''PENDING'', ob_detail := [], ob_verified_at := None\<rparr>)
        (ex_ready\<lparr>t_tasks := [ex_purging], t_progress := [ex_result]\<rparr>) =
        ex_ready\<lparr>t_tasks := [ex_purging], t_progress := [ex_result]\<rparr>"
      by (simp add: update_objects_def ex_defs)
    ultimately show ?thesis
      by (simp add: done_subtask_def run_defs ex_write ex_world_def ex_start_def ex_after_def)
  qed
  ultimately show ?thesis by (simp add: adapter_done_def)
qed

lemma ex_ctx [simp]: "ctx_err c ex_start = None" "ctx_err c ex_after = None"
  by (simp_all add: ctx_err_def ex_start_def ex_after_def ex_world_def)

lemma ex_norm [simp]: "opt_concurrency (normalize ex_options) = 1" "\<not> opt_dry_run ex_options" "opt_retry_failed ex_options = False"
  by (simp_all add: normalize_def ex_options_def Let_def)

definition ex_events :: "result \<Rightarrow> event list" where
  "ex_events res = [FeedGo, FeedClaim, FeedSend, Take 0, Admit 0, Start 0, Result 0 res, Judge 0]"

lemma ex_env_ops [simp]:
  "rv_claim ex_env = adapter_claim RunCtx 1" "rv_done ex_env = adapter_done Background 1"
  "rv_fail ex_env = fail_subtask Background 1" "rv_cancel ex_env = cancel_ctx RunCtx"
  "rv_on_safety ex_env = Some (\<lambda>oid e. hold Background 1 (Some oid) (err_text e))"
  by (simp_all add: purge_env_def)

definition ex_judged :: "world run" where
  "ex_judged = (run_start ex_env ex_start)\<lparr>rs_feed := Checking 5, rs_workers := [Recording ex_member ex_success],
     rs_processed := 1, rs_keys := 1, rs_bytes := 9, rs_claimed := [ex_member], rs_started := [ex_member]\<rparr>"

lemma ex_run_judged: "run_steps ex_env (ex_events ex_success) (run_start ex_env ex_start) = Some ex_judged"
  by (simp add: ex_events_def ex_judged_def run_start_def run_step_def feed_claim_def step_defs field_defs ex_claim1 channel_cap_def
      run_stopped_def verdict_def check_size_def) (simp add: ex_success_def ex_member_def)

definition ex_over :: "world run" where
  "ex_over = ex_judged\<lparr>rs_world := ex_after, rs_feed := Returned None, rs_workers := [Exited], rs_exhausted := True,
     rs_log := [(ex_member, DoneRecorded)]\<rparr>"

lemma ex_run_over: "run_steps ex_env [Record 0, FeedGo, FeedClaim, Take 0] ex_judged = Some ex_over"
proof -
  have res: "res_err ex_success = None" "res_keys ex_success = 1" "res_bytes ex_success = 9" "cl_oid ex_member = 5"
    "cl_payload ex_member = 9" by (simp_all add: ex_success_def ex_member_def)
  show ?thesis
    by (simp add: ex_over_def ex_judged_def run_start_def run_step_def feed_claim_def step_defs field_defs ex_claim2
        ex_record_done res)
qed
text \<open>A safety violation: the hold is written, the failure recorded.\<close>

definition ex_cancelled :: world where
  "ex_cancelled = cancel_ctx RunCtx ex_start"

definition ex_held_task :: subtask where
  "ex_held_task = ex_purging\<lparr>st_hold := ''safety violation'', st_hold_oid := Some 5\<rparr>"

definition ex_held :: world where
  "ex_held = ex_cancelled\<lparr>w_db := ex_ready\<lparr>t_tasks := [ex_held_task]\<rparr>\<rparr>"

definition ex_failed :: world where
  "ex_failed = ex_cancelled\<lparr>w_db := ex_ready\<lparr>t_tasks := [ex_held_task],
     t_progress := [(fresh_progress 5 100)\<lparr>pr_status := 2, pr_reason := Some ''safety violation''\<rparr>]\<rparr>\<rparr>"

lemma ex_err: "err_text ErrSafety = ''safety violation''"
  by (simp add: ErrSafety_def)

lemma ex_hold: "hold Background 1 (Some 5) ''safety violation'' ex_cancelled = (Inr (), ex_held)"
proof -
  have "length (runes ''safety violation'') \<le> 3900"
    using runes_length [of "''safety violation''"] by simp
  then have "clip_reason ''safety violation'' = ''safety violation''" by (simp add: clip_reason_def)
  then show ?thesis
    by (simp add: hold_def ex_held_def ex_cancelled_def cancel_ctx_def update_tasks_def ex_held_task_def ex_start_def run_defs ex_defs)
qed

lemma ex_fail: "fail_subtask Background 1 5 0 0 ''safety violation'' ex_held = (Inr (), ex_failed)"
proof -
  have "member_query 1 5 (ex_ready\<lparr>t_tasks := [ex_held_task]\<rparr>) = Inr ()"
    by (simp add: member_query_def active_member_def ex_defs)
  moreover have "progress_of (ex_ready\<lparr>t_tasks := [ex_held_task]\<rparr>) 5 = None" "t_progress ex_ready = []"
    by (simp_all add: progress_of_def ex_defs)
  moreover have "credit 0 0 (fresh_progress 5 100) = Some (fresh_progress 5 100)"
    by (simp add: credit_def fresh_progress_def)
  ultimately show ?thesis
    by (simp add: fail_subtask_def check_member_def fail_object_def upsert_def ex_held_def ex_failed_def ex_cancelled_def
        cancel_ctx_def ex_start_def ex_world_def run_defs)
qed

definition ex_halted :: "world run" where
  "ex_halted = (run_start ex_env ex_start)\<lparr>rs_world := ex_cancelled, rs_feed := Checking 5, rs_workers := [Holding ex_member ex_violation],
     rs_once := Running, rs_halt := Some (numbered '' '' 5 ErrSafety),
     rs_processed := 1, rs_claimed := [ex_member], rs_started := [ex_member]\<rparr>"

lemma ex_violation_fields: "res_err ex_violation = Some ErrSafety" "res_keys ex_violation = 0" "res_bytes ex_violation = 0"
  "is_safety ex_violation" "cl_oid ex_member = 5" "cl_payload ex_member = 9"
  by (simp_all add: ex_violation_def empty_result_def is_safety_def ErrSafety_def ex_member_def)

lemma ex_run_halted: "run_steps ex_env (ex_events ex_violation) (run_start ex_env ex_start) = Some ex_halted"
  by (simp add: ex_events_def ex_halted_def run_start_def run_step_def feed_claim_def step_defs field_defs ex_claim1 channel_cap_def
      run_stopped_def verdict_def ex_violation_fields ex_cancelled_def)

definition ex_stopped :: "world run" where
  "ex_stopped = ex_halted\<lparr>rs_world := ex_failed, rs_feed := Returned (Some CtxCanceled), rs_workers := [Exited],
     rs_once := Ran, rs_failed := 1, rs_log := [(ex_member, FailRecorded ErrSafety)]\<rparr>"

lemma ex_failed_ctx: "ctx_err RunCtx ex_failed = Some CtxCanceled"
  by (simp add: ctx_err_def ex_failed_def ex_cancelled_def cancel_ctx_def)

lemma ex_run_stopped: "run_steps ex_env [Hold 0, Record 0, FeedCancelled, Take 0] ex_halted = Some ex_stopped"
  by (simp add: ex_stopped_def ex_halted_def run_start_def run_step_def step_defs field_defs ex_hold ex_fail ex_err
      ex_violation_fields ex_failed_ctx selecting_def return_feed_def)

lemma ex_reach:
  "run_reach ex_env around (run_start ex_env ex_start) ex_over"
  "run_reach ex_env around (run_start ex_env ex_start) ex_halted"
  "run_reach ex_env around (run_start ex_env ex_start) ex_stopped"
  using steps_reach [OF ex_run_over steps_reach [OF ex_run_judged here]]
    steps_reach [OF ex_run_halted here] steps_reach [OF ex_run_stopped steps_reach [OF ex_run_halted here]]
  by blast+

lemma ex_run_ends: "run_over ex_over" "run_over ex_stopped" "run_error ex_env ex_over = None"
  by (simp_all add: run_over_def ex_over_def ex_stopped_def run_error_def problems_def claim_err_def ex_judged_def run_start_def)

lemma ex_open: "task_open 1 (w_db ex_start)"
  by (simp add: task_open_def ex_start_def ex_defs)

section \<open>Properties\<close>

text \<open>C14. The concurrent run refines the life of the database: whatever the interleaving of its workers
  and whatever happens around them, a run that starts in a reachable deletion session of its task
  only passes through reachable states of that session. All that holds of them holds during a run.\<close>

theorem run_refines_session:
  assumes "run_reach (purge_env tid opt) around s t" "reachable H (Purging tid, rs_world s)"
  shows "reachable H (Purging tid, rs_world t)"
  by (rule run_session [OF assms])

theorem run_refines_session_witness: "reachable ex_hash (Purging 1, ex_after)"
  using run_refines_session [OF ex_reach(1), of ex_hash] ex_purging_reachable
  by (simp add: ex_over_def run_start_def ex_start_def)

text \<open>C17. No object is lost or handled twice: at the end of a run every object that was claimed has exactly
  one outcome: deleted and recorded, failed, interrupted, or given back without having been started.\<close>

theorem run_accounts:
  assumes "run_reach (purge_env tid opt) around (run_start (purge_env tid opt) w) s"
    and "ctx_err RunCtx w \<noteq> None \<longrightarrow> ctx_err LockCtx w \<noteq> None" "run_over s"
  shows "mset (rs_claimed s) = mset (map fst (rs_log s))"
  by (rule task_run.over_accounts [OF assms(1)]) (use assms in simp_all)

theorem run_accounts_witness: "mset (rs_claimed ex_over) = mset (map fst (rs_log ex_over))"
  by (rule run_accounts [OF ex_reach(1) _ ex_run_ends(1)]) simp

text \<open>C16. A deletion run that reports no error did all its work: the list of claimable objects was read to
  its end, and every object that was claimed was deleted and its completion recorded.\<close>

theorem run_success:
  assumes "run_reach (purge_env tid opt) around (run_start (purge_env tid opt) w) s"
    and "ctx_err RunCtx w \<noteq> None \<longrightarrow> ctx_err LockCtx w \<noteq> None" "run_over s"
    and "run_error (purge_env tid opt) s = None" "\<not> opt_dry_run opt"
  shows "rs_exhausted s \<and> mset (rs_log s) = image_mset (\<lambda>c. (c, DoneRecorded)) (mset (rs_claimed s))"
proof -
  have 1: "rs_exhausted s \<and> list_all (\<lambda>x. snd x = DoneRecorded) (rs_log s)"
    by (rule task_run.over_success [OF assms(1)]) (use assms in simp_all)
  have "map (\<lambda>x. (fst x, DoneRecorded)) (rs_log s) = rs_log s"
    using 1 by (intro map_idI) (auto simp: list_all_iff)
  then have "mset (rs_log s) = image_mset (\<lambda>c. (c, DoneRecorded)) (mset (map fst (rs_log s)))"
    by (metis (no_types, lifting) map_eq_conv mset_map multiset.map_comp o_apply map_map)
  moreover have "mset (rs_claimed s) = mset (map fst (rs_log s))"
    by (rule task_run.over_accounts [OF assms(1)]) (use assms in simp_all)
  ultimately show ?thesis using 1 by simp
qed

theorem run_success_witness:
  "rs_exhausted ex_over \<and> mset (rs_log ex_over) = image_mset (\<lambda>c. (c, DoneRecorded)) (mset (rs_claimed ex_over))"
  by (rule run_success [OF ex_reach(1) _ ex_run_ends(1,3)]) simp_all

text \<open>C18. Once a run is stopped by an ordinary failure, or its context is cancelled by a safety violation, a
  lost lock or the operator, no further object is admitted, in no continuation of the run.\<close>

theorem stopped_starts_nothing:
  assumes "run_reach (purge_env tid opt) around s t" "run_stopped (purge_env tid opt) s"
  shows "rs_started t = rs_started s \<and> run_stopped (purge_env tid opt) t"
  by (rule task_run.reach_started [OF assms])

theorem stopped_starts_nothing_witness: "rs_started ex_stopped = rs_started ex_halted"
proof -
  have "run_stopped ex_env ex_halted"
    by (simp add: run_stopped_def ex_halted_def ex_cancelled_def)
  from stopped_starts_nothing [OF steps_reach [OF ex_run_stopped here] this] show ?thesis by simp
qed

text \<open>C15. A safety violation is never lost. When any object of a run failed with one, the run reports an
  error that is a safety violation, and the task is on hold in the database, or the error says that
  the hold could not be written.\<close>

theorem violation_halts_and_holds:
  assumes "run_reach (purge_env tid opt) around (run_start (purge_env tid opt) w) s"
    and "ctx_err RunCtx w \<noteq> None \<longrightarrow> ctx_err LockCtx w \<noteq> None" "task_open tid (w_db w)" "run_over s"
    and "(c, FailRecorded e) \<in> set (rs_log s) \<or> (c, FailLost e) \<in> set (rs_log s)" "err_is e ErrSafety"
  shows "(\<exists>x. run_error (purge_env tid opt) s = Some x \<and> err_is x ErrSafety) \<and>
    (task_held tid (w_db (rs_world s)) \<or> not_persisted (rs_halt s))"
proof -
  note snd = task_run.reach_sound [OF assms(1)]
  have ok: "run_sound (purge_env tid opt) s" using snd assms(2) by simp
  have "failure_known s e" using ok assms(5) by (auto simp: run_sound_def list_all_iff)
  then obtain h where h: "rs_halt s = Some h" using assms(6) by (auto simp: failure_known_def)
  have "err_is h ErrSafety" using task_run.reach_halt [OF assms(1)] assms(2) h by simp
  then have 1: "\<exists>x. run_error (purge_env tid opt) s = Some x \<and> err_is x ErrSafety"
    by (rule task_run.halted_error [OF h])
  have "rs_once s \<noteq> NotRun" using ok h by (auto simp: run_sound_def)
  moreover have "rs_once s \<noteq> Running"
    using reach_shape [OF assms(1)] assms(4) by (auto simp: run_shape_def run_over_def list_all_iff)
  ultimately have "rs_once s = Ran" by (cases "rs_once s") auto
  then show ?thesis using 1 reach_latched [OF assms(1-3)] by (simp add: hold_latched_def)
qed

theorem violation_halts_and_holds_witness:
  "(\<exists>x. run_error ex_env ex_stopped = Some x \<and> err_is x ErrSafety) \<and>
   (task_held 1 (w_db (rs_world ex_stopped)) \<or> not_persisted (rs_halt ex_stopped))"
  by (rule violation_halts_and_holds [OF ex_reach(3) _ ex_open ex_run_ends(2), of ex_member ErrSafety])
    (simp_all add: ex_stopped_def ErrSafety_def)

text \<open>C19. A run is never stuck: as long as the feed or a worker has not returned, some goroutine can go on,
  so the workers, the channel, the start mutex and the once of a halt cannot wait for each other.\<close>

theorem run_never_stuck:
  assumes "run_reach (purge_env tid opt) around (run_start (purge_env tid opt) w) s"
    and "ctx_err RunCtx w \<noteq> None \<longrightarrow> ctx_err LockCtx w \<noteq> None" "\<not> run_over s"
  shows "\<exists>ev. run_step (purge_env tid opt) ev s \<noteq> None"
  using task_run.reach_sound [OF assms(1)] assms(2)
  by (intro not_stuck [OF reach_shape [OF assms(1)] _ assms(3)]) (simp add: run_sound_def)

theorem run_never_stuck_witness: "\<exists>ev. run_step ex_env ev ex_halted \<noteq> None"
  by (rule run_never_stuck [OF ex_reach(2)]) (simp_all add: run_over_def ex_halted_def run_start_def)

text \<open>C20. A stopped run ends. After a stop, in every continuation, the number of steps is bounded by the
  work in hand: at most ten for each object in the batch of the feed, nine for each in the channel and
  nine for each in a worker.\<close>

theorem stopped_run_ends:
  assumes "run_steps (purge_env tid opt) evs s = Some t" "run_stopped (purge_env tid opt) s"
  shows "length evs \<le> run_work (purge_env tid opt) s"
proof -
  have limit: "length batch \<le> nat n" if run: "rv_claim (purge_env tid opt) a n b w = (Inr batch, v)" for a n b w batch v
  proof -
    obtain rows u where "claim_subtask RunCtx tid a (nat n) u = (Inr rows, v)" and b: "batch = map to_claimed rows"
      using run by (auto simp: purge_env_def adapter_claim_def act_defs split: prod.splits sum.splits)
    then have "\<exists>d. rows = claim_rows d tid a (nat n)"
      unfolding claim_subtask_def query_def by (auto dest!: statement_cases)
    then show ?thesis using b by (auto simp: claim_rows_def)
  qed
  have "length evs + run_work (purge_env tid opt) t \<le> run_work (purge_env tid opt) s"
    by (rule task_run.steps_work [OF _ assms]) (rule limit)
  then show ?thesis by simp
qed

theorem stopped_run_ends_witness: "4 \<le> run_work ex_env ex_halted"
proof -
  have "run_stopped ex_env ex_halted"
    by (simp add: run_stopped_def ex_halted_def ex_cancelled_def)
  from stopped_run_ends [OF ex_run_stopped this] show ?thesis by simp
qed

end
