(* ===== verification/VerifyRun.thy ===== *)
theory VerifyRun
  imports ObjectStore SubtaskPhases
begin

text \<open>
  The verification run, \<^verbatim>\<open>internal/verify/verify.go\<close>: the loop over the members that need a check,
  the check of one object with its retries, and the verdict. What the run calls is the record
  \<open>verifier\<close>, as in the Go interfaces. Log lines are left out; \<^verbatim>\<open>QPS\<close> only sets the rate limiter and
  is reduced to whether it is positive.
\<close>

section \<open>Interfaces\<close>

text \<open>\<open>vf_wait\<close> is \<^verbatim>\<open>lim.Wait\<close>; \<open>vf_backoff\<close> is \<^verbatim>\<open>Backoff\<close> or the timer, with the number of the attempt.\<close>

record 'w verifier =
  vf_empty :: "string \<Rightarrow> ('w, bool) act"
  vf_pending :: "u64 \<Rightarrow> nat \<Rightarrow> ('w, u64 list) act"
  vf_record :: "u64 \<Rightarrow> string \<Rightarrow> string \<Rightarrow> ('w, unit) act"
  vf_check :: "('w, unit) act option"
  vf_wait :: "('w, unit) act"
  vf_backoff :: "nat \<Rightarrow> ('w, unit) act"
  vf_ctx_err :: "'w \<Rightarrow> err option"
  vf_qps_positive :: bool
  vf_max_retry :: int
  vf_timeout :: int

definition vf_live :: "'w verifier \<Rightarrow> ('w, unit) act" where
  "vf_live r w = (case vf_ctx_err r w of Some e \<Rightarrow> (Inl e, w) | None \<Rightarrow> (Inr (), w))"

definition vf_checked :: "'w verifier \<Rightarrow> ('w, unit) act" where
  "vf_checked r = (case vf_check r of None \<Rightarrow> ret () | Some check \<Rightarrow> check)"

section \<open>One object\<close>

text \<open>
  The attempts of \<^verbatim>\<open>retry\<close>: \<open>n\<close> are left, \<open>k\<close> are made. With \<^verbatim>\<open>MaxRetry\<close> negative there is no
  attempt and \<^verbatim>\<open>%w\<close> prints a nil error.
\<close>

fun retry_loop :: "'w verifier \<Rightarrow> ('w, 'a) act \<Rightarrow> nat \<Rightarrow> nat \<Rightarrow> ('w, 'a) act" where
  "retry_loop r f 0 k =
     throw (Cat (Txt (''after '' @ dec_int (vf_max_retry r + 1) @ '' attempts: '')) (Txt ''%!w(<nil>)''))"
| "retry_loop r f (Suc n) k =
     bindA (vf_wait r) (\<lambda>_.
     bindA (vf_checked r) (\<lambda>_.
     tryA f
       (\<lambda>e. bindA (vf_live r) (\<lambda>_.
          if n = 0 then throw (Cat (Txt (''after '' @ dec_int (vf_max_retry r + 1) @ '' attempts: '')) e)
          else bindA (vf_backoff r k) (\<lambda>_. retry_loop r f n (k + 1))))
       ret))"

definition retry_check :: "'w verifier \<Rightarrow> ('w, 'a) act \<Rightarrow> ('w, 'a) act" where
  "retry_check r f = retry_loop r f (nat (vf_max_retry r + 1)) 0"

text \<open>The residues and the problems of the prefixes, in order.\<close>

fun check_prefixes :: "'w verifier \<Rightarrow> string list \<Rightarrow> 'w \<Rightarrow> (string list \<times> string list) \<times> 'w" where
  "check_prefixes r [] w = (([], []), w)"
| "check_prefixes r (p # ps) w =
     (case retry_check r (vf_empty r p) w of
        (Inl e, w) \<Rightarrow> (case check_prefixes r ps w of ((res, prob), w) \<Rightarrow> ((res, (p @ '': '' @ err_text e) # prob), w))
      | (Inr none, w) \<Rightarrow> (case check_prefixes r ps w of ((res, prob), w) \<Rightarrow>
            ((if \<not> none then p # res else res, prob), w)))"

definition clip_detail :: "string \<Rightarrow> string" where
  "clip_detail s = (if length s > 3900 then concat (take (min (length (runes s)) 900) (runes s)) else s)"

definition check_object :: "'w verifier \<Rightarrow> u64 \<Rightarrow> 'w \<Rightarrow> (string \<times> string) \<times> 'w" where
  "check_object r oid w =
     (case check_prefixes r (prefixes oid) w of ((residue, problems), w) \<Rightarrow>
        ((if length residue > 0 then (''RESIDUE'', clip_detail (join_on ''; '' (residue @ problems)))
          else if length problems > 0 then (''ERROR'', clip_detail (join_on ''; '' problems))
          else (''PASS'', [])), w))"

section \<open>The run\<close>

fun verify_batch :: "'w verifier \<Rightarrow> u64 list \<Rightarrow> u64 \<Rightarrow> ('w, u64) act" where
  "verify_batch r [] after = ret after"
| "verify_batch r (k # ks) after =
     bindA (vf_checked r) (\<lambda>_ w.
     case check_object r k w of ((status, detail), w) \<Rightarrow>
       bindA (vf_live r) (\<lambda>_.
       bindA (vf_record r k status detail) (\<lambda>_.
       verify_batch r ks k)) w)"

partial_function (option) verify_loop :: "'w verifier \<Rightarrow> u64 \<Rightarrow> 'w \<Rightarrow> ((err + unit) \<times> 'w) option" where
  "verify_loop r after w =
     (case bindA (vf_live r) (\<lambda>_. vf_pending r after 1000) w of
        (Inl e, w) \<Rightarrow> Some (Inl e, w)
      | (Inr batch, w) \<Rightarrow>
          if length batch = 0 then Some (Inr (), w)
          else (case verify_batch r batch after w of
                  (Inl e, w) \<Rightarrow> Some (Inl e, w)
                | (Inr after, w) \<Rightarrow> verify_loop r after w))"

declare verify_loop.simps [code]

definition verify_run :: "'w verifier \<Rightarrow> 'w \<Rightarrow> ((err + unit) \<times> 'w) option" where
  "verify_run r w =
     (if \<not> vf_qps_positive r \<or> vf_max_retry r < 0 \<or> vf_timeout r \<le> 0
      then Some (Inl (Txt ''positive QPS/timeout and nonnegative max-retry required''), w)
      else verify_loop r 0 w)"

lemma check_object_status:
  "check_object r oid w = ((status, detail), v) \<Longrightarrow> status = ''PASS'' \<or> status = ''RESIDUE'' \<or> status = ''ERROR''"
  by (auto simp: check_object_def split: prod.splits if_splits)

section \<open>What a check proves\<close>

text \<open>The environment of the checks leaves the store alone.\<close>

definition vf_calm :: "('w \<Rightarrow> 'w \<Rightarrow> bool) \<Rightarrow> 'w verifier \<Rightarrow> bool" where
  "vf_calm R r \<longleftrightarrow> reflp R \<and> transp R \<and> transits R (vf_wait r) \<and> (\<forall>m. vf_check r = Some m \<longrightarrow> transits R m) \<and>
     (\<forall>k. transits R (vf_backoff r k)) \<and> (\<forall>p. transits R (vf_empty r p))"

lemma vf_calmD:
  assumes "vf_calm R r"
  shows "reflp R" "transp R" "transits R (vf_wait r)" "transits R (vf_checked r)" "\<And>k. transits R (vf_backoff r k)"
    "\<And>p. transits R (vf_empty r p)" "transits R (vf_live r)"
  using assms by (auto simp: vf_calm_def vf_checked_def vf_live_def ret_def transits_def reflpD split: option.splits)

lemma retry_loop_transits: "vf_calm R r \<Longrightarrow> transits R f \<Longrightarrow> transits R (retry_loop r f n k)"
proof (induction n arbitrary: k)
  case 0
  then show ?case using vf_calmD(1) [OF 0(1)] by (simp add: transits_throw)
next
  case (Suc n)
  note c = vf_calmD [OF Suc.prems(1)]
  show ?case
    using c Suc by (auto intro!: transits_bind transits_try transits_throw transits_ret transits_if)
qed

lemma retry_loop_ok:
  assumes "vf_calm R r" "retry_loop r f n k w = (Inr x, v)"
  shows "\<exists>u u'. (transits R f \<longrightarrow> R w u \<and> R u' v) \<and> f u = (Inr x, u')"
  using assms(2)
proof (induction n arbitrary: k w)
  case (Suc n)
  note c = vf_calmD [OF assms(1)]
  obtain u0 where 1: "vf_wait r w = (Inr (), u0)" and run1: "bindA (vf_checked r) (\<lambda>_. tryA f
       (\<lambda>e. bindA (vf_live r) (\<lambda>_. if n = 0 then throw (Cat (Txt (''after '' @ dec_int (vf_max_retry r + 1) @ '' attempts: '')) e)
          else bindA (vf_backoff r k) (\<lambda>_. retry_loop r f n (k + 1)))) ret) u0 = (Inr x, v)"
    using Suc.prems by (auto simp: bindA_ok_iff)
  obtain u where 2: "vf_checked r u0 = (Inr (), u)" and run2: "tryA f
       (\<lambda>e. bindA (vf_live r) (\<lambda>_. if n = 0 then throw (Cat (Txt (''after '' @ dec_int (vf_max_retry r + 1) @ '' attempts: '')) e)
          else bindA (vf_backoff r k) (\<lambda>_. retry_loop r f n (k + 1)))) ret u = (Inr x, v)"
    using run1 by (auto simp: bindA_ok_iff)
  have wu: "R w u" using transitsD [OF c(3) 1] transitsD [OF c(4) 2] transpD [OF c(2)] by blast
  obtain y u' where f: "f u = (y, u')" by (cases "f u")
  show ?case
  proof (cases y)
    case (Inr z)
    then have "z = x \<and> u' = v" using run2 f by (auto simp: tryA_def ret_def)
    then show ?thesis using f Inr wu c(1) by (auto dest: reflpD)
  next
    case (Inl e)
    then obtain u1 u2 where n: "vf_live r u' = (Inr (), u1)" "vf_backoff r k u1 = (Inr (), u2)"
        and rec: "retry_loop r f n (k + 1) u2 = (Inr x, v)"
      using run2 f by (auto simp: tryA_def bindA_ok_iff throw_def split: if_splits)
    obtain a a' where a: "(transits R f \<longrightarrow> R u2 a \<and> R a' v)" "f a = (Inr x, a')"
      using Suc.IH [OF rec] by blast
    have "R w u2" if "transits R f"
      using wu transitsD [OF that f] transitsD [OF c(7) n(1)] transitsD [OF c(5) n(2)] transpD [OF c(2)] by blast
    then show ?thesis using a transpD [OF c(2)] by blast
  qed
qed (simp add: throw_def)

locale object_check =
  object_store ls "vf_empty r" del held
  for ls :: "string \<Rightarrow> nat \<Rightarrow> ('w, s3_object list) act" and r :: "'w verifier"
    and del :: "u64 \<Rightarrow> string list \<Rightarrow> 'w \<Rightarrow> delete_result \<times> 'w" and held :: "'w \<Rightarrow> string set" +
  assumes quiet: "vf_calm (\<lambda>w v. held v = held w) r"
begin

lemma retry_held: "retry_check r (vf_empty r p) w = (x, v) \<Longrightarrow> held v = held w"
  unfolding retry_check_def by (rule transitsD [OF retry_loop_transits [OF quiet vf_calmD(6) [OF quiet]]])

lemma retry_decides:
  assumes "retry_check r (vf_empty r p) w = (Inr none, v)"
  shows "none \<longleftrightarrow> (\<forall>k\<in>held w. \<not> prefix p k)"
proof -
  obtain u u' where u: "held u = held w" "vf_empty r p u = (Inr none, u')"
    using retry_loop_ok [OF quiet assms [unfolded retry_check_def]] vf_calmD(6) [OF quiet] by blast
  then show ?thesis using em_decides [OF u(2)] by simp
qed

lemma check_prefixes_sound:
  "check_prefixes r ps w = ((res, prob), v) \<Longrightarrow> held v = held w \<and>
     set res \<subseteq> {p \<in> set ps. \<exists>k\<in>held w. prefix p k} \<and>
     (prob = [] \<longrightarrow> {p \<in> set ps. \<exists>k\<in>held w. prefix p k} \<subseteq> set res)"
proof (induction ps arbitrary: w res prob v)
  case (Cons p ps)
  obtain x u where rt: "retry_check r (vf_empty r p) w = (x, u)" by (cases "retry_check r (vf_empty r p) w")
  obtain res1 prob1 v1 where rest: "check_prefixes r ps u = ((res1, prob1), v1)" by (metis surj_pair)
  have hu: "held u = held w" by (rule retry_held [OF rt])
  note IH = Cons.IH [OF rest]
  show ?case
  proof (cases x)
    case (Inl e)
    then show ?thesis using Cons.prems rt rest IH hu by auto
  next
    case (Inr none)
    then show ?thesis using Cons.prems rt rest IH hu retry_decides [of p w none u] by (auto split: if_splits)
  qed
qed simp

lemma check_object_sound:
  assumes "check_object r oid w = ((status, detail), v)"
  shows "held v = held w"
    and "status = ''PASS'' \<Longrightarrow> {k \<in> held w. \<exists>p\<in>set (prefixes oid). prefix p k} = {}"
    and "status = ''RESIDUE'' \<Longrightarrow> {k \<in> held w. \<exists>p\<in>set (prefixes oid). prefix p k} \<noteq> {}"
proof -
  obtain res prob u where c: "check_prefixes r (prefixes oid) w = ((res, prob), u)" by (metis surj_pair)
  note s = check_prefixes_sound [OF c]
  have v: "v = u" and st: "status = (if res \<noteq> [] then ''RESIDUE'' else if prob \<noteq> [] then ''ERROR'' else ''PASS'')"
    using assms c by (auto simp: check_object_def split: if_splits)
  show "held v = held w" using s v by simp
  show "status = ''PASS'' \<Longrightarrow> {k \<in> held w. \<exists>p\<in>set (prefixes oid). prefix p k} = {}"
    using s st by (auto split: if_splits)
  show "status = ''RESIDUE'' \<Longrightarrow> {k \<in> held w. \<exists>p\<in>set (prefixes oid). prefix p k} \<noteq> {}"
    using s st by (cases res) (auto split: if_splits)
qed

end

context s3_service
begin

lemma s3_object_check:
  assumes "vf_empty r = store_empty api b" "vf_calm (\<lambda>w v. held v = held w) r"
  shows "object_check (store_list api b) r (store_delete api b) held"
proof -
  have "object_store (store_list api b) (vf_empty r) (store_delete api b) held"
    using store.object_store_axioms assms(1) by simp
  then show ?thesis using assms(2) by (simp add: object_check_def object_check_axioms_def)
qed

end

end
