(* ===== verification/Paging.thy ===== *)
theory Paging
  imports VerifyRun ProgressQueries
begin

text \<open>
  Keyset paging, \<^verbatim>\<open>WHERE key > ? ORDER BY key LIMIT ?\<close>, the one pattern by which this program walks a
  table: the claims of a run, the members to verify, the list, the index of the storage provider.
  \<open>keyset\<close> is its contract; the lemmas say that a page holds the next rows in order, that an empty
  page means there is no further row, and that the page after the last row of a page continues
  exactly where that page ended.
\<close>

lemma sorted_strict_filter_drop:
  assumes "sorted_wrt (<) (map f S)" "0 < n" "S \<noteq> []"
  shows "filter (\<lambda>r. f (last (take n S)) < (f r :: 'k::linorder)) S = drop n S"
proof -
  have split: "sorted_wrt (<) (map f (take n S) @ map f (drop n S))" using assms(1) by (simp flip: map_append)
  have le: "f x \<le> f (last (take n S))" if "x \<in> set (take n S)" for x
  proof -
    have ne: "take n S \<noteq> []" using assms(2,3) by simp
    have "sorted_wrt (<) (map f (butlast (take n S) @ [last (take n S)]))"
      using split ne by (simp add: sorted_wrt_append)
    moreover have "x \<in> set (butlast (take n S)) \<or> x = last (take n S)"
      using that ne by (metis append_butlast_last_id in_set_butlastD set_ConsD Un_iff set_append list.set(1) empty_iff insert_iff list.set(2))
    ultimately show ?thesis by (auto simp: sorted_wrt_append)
  qed
  have gt: "f (last (take n S)) < f x" if "x \<in> set (drop n S)" for x
    using split that assms(2,3) by (auto simp: sorted_wrt_append)
  have "filter (\<lambda>r. f (last (take n S)) < f r) (take n S @ drop n S) = drop n S"
    using le gt by (auto simp: filter_empty_conv filter_id_conv not_less simp del: append_take_drop_id)
  then show ?thesis by simp
qed

locale keyset =
  fixes page :: "'d \<Rightarrow> u64 \<Rightarrow> nat \<Rightarrow> 'r list" and rows :: "'d \<Rightarrow> 'r list" and key :: "'r \<Rightarrow> u64"
  assumes page_query: "page d a n = take n (sort_key key (filter (\<lambda>r. a < key r) (rows d)))"
begin

lemma page_limit: "length (page d a n) \<le> n"
  by (simp add: page_query)

lemma page_beyond: "r \<in> set (page d a n) \<Longrightarrow> a < key r \<and> r \<in> set (rows d)"
  by (auto simp: page_query dest: in_set_takeD)

lemma page_sorted: "sorted (map key (page d a n))"
  by (simp add: page_query sorted_wrt_take flip: take_map)

lemma page_none: "page d a n = [] \<Longrightarrow> 0 < n \<Longrightarrow> r \<in> set (rows d) \<Longrightarrow> \<not> a < key r"
proof
  assume page: "page d a n = []" "0 < n" and r: "r \<in> set (rows d)" "a < key r"
  then have "sort_key key (filter (\<lambda>r. a < key r) (rows d)) = []" by (auto simp: page_query)
  then have "set (sort_key key (filter (\<lambda>r. a < key r) (rows d))) = {}" by simp
  then show False using r by auto
qed

text \<open>No row is skipped: a row that is not after a row of the page is in the page.\<close>

lemma page_prefix:
  assumes "x \<in> set (page d a n)" "r \<in> set (rows d)" "a < key r" "key r < key x"
  shows "r \<in> set (page d a n)"
proof (rule ccontr)
  let ?S = "sort_key key (filter (\<lambda>r. a < key r) (rows d))"
  assume "r \<notin> set (page d a n)"
  moreover have "r \<in> set ?S" using assms(2,3) by simp
  ultimately have "r \<in> set (drop n ?S)"
    using append_take_drop_id [of n ?S] by (metis Un_iff page_query set_append)
  moreover have "sorted (map key (take n ?S) @ map key (drop n ?S))" by (simp flip: map_append)
  ultimately have "key x \<le> key r" using assms(1) by (auto simp: sorted_append page_query)
  then show False using assms(4) by simp
qed

lemma page_next:
  assumes "distinct (map key (rows d))" "0 < n" "page d a n \<noteq> []"
  shows "sort_key key (filter (\<lambda>r. key (last (page d a n)) < key r) (rows d)) =
         drop n (sort_key key (filter (\<lambda>r. a < key r) (rows d)))"
proof -
  let ?S = "sort_key key (filter (\<lambda>r. a < key r) (rows d))" and ?l = "key (last (page d a n))"
  have al: "a < ?l" using page_beyond last_in_set [OF assms(3)] by blast
  have dist: "distinct (map key ?S)"
    using assms(1) by (simp add: distinct_map inj_on_def)
  then have strict: "sorted_wrt (<) (map key ?S)" by (simp add: strict_sorted_iff)
  have "filter (\<lambda>r. ?l < key r) (rows d) = filter (\<lambda>r. ?l < key r) (filter (\<lambda>r. a < key r) (rows d))"
    using al by (auto intro!: filter_cong)
  then have "sort_key key (filter (\<lambda>r. ?l < key r) (rows d)) = filter (\<lambda>r. ?l < key r) ?S"
    by (simp add: filter_sort)
  also have "\<dots> = drop n ?S"
    unfolding page_query
    by (rule sorted_strict_filter_drop [OF strict assms(2)]) (use assms(3) in \<open>auto simp: page_query\<close>)
  finally show ?thesis .
qed

end

section \<open>The queries of the program\<close>

text \<open>The rows behind each query.\<close>

definition claim_pool :: "u64 \<Rightarrow> db \<Rightarrow> claim_row list" where
  "claim_pool tid d = map snd (filter (\<lambda>(o', s). claimable d o') (member_rows d tid))"

definition verify_pool :: "subtask \<Rightarrow> db \<Rightarrow> u64 list" where
  "verify_pool s d = map ob_oid (filter (needs_check (st_gen s)) (objects_of d (st_id s)))"

definition verify_page :: "subtask \<Rightarrow> db \<Rightarrow> u64 \<Rightarrow> nat \<Rightarrow> u64 list" where
  "verify_page s d after limit = take limit (sort (map ob_oid (filter
       (\<lambda>o'. ob_oid o' > after \<and> needs_check (st_gen s) o') (objects_of d (st_id s)))))"

lemma verify_pending_page: "verify_pending c s a n = query c (\<lambda>d. Inr (verify_page s d a n))"
  by (simp add: verify_pending_def verify_page_def)

interpretation claims: keyset "\<lambda>d a n. claim_rows d tid a n" "claim_pool tid" sr_oid for tid
  by unfold_locales (simp add: claim_rows_def claim_pool_def filter_map comp_def split_def conj_commute)

interpretation members: keyset "verify_page s" "verify_pool s" "\<lambda>k. k" for s
  by unfold_locales (simp add: verify_page_def verify_pool_def filter_map comp_def conj_commute)

definition plain_pool :: "bool \<Rightarrow> db \<Rightarrow> claim_row list" where
  "plain_pool retry d = filter (\<lambda>s. if retry then has_status 2 (progress_of d (sr_oid s))
      else progress_of d (sr_oid s) = None) (t_scan d)"

definition list_page :: "db \<Rightarrow> u64 \<Rightarrow> nat \<Rightarrow> scan_row list" where
  "list_page d after limit = take limit (sort_key sr_oid (filter (\<lambda>s. sr_oid s > after) (t_scan d)))"

lemma scan_ids_page: "scan_ids c a n = query c (\<lambda>d. Inr (list_page d a n))"
  by (simp add: scan_ids_def list_page_def)

interpretation plain_claims: keyset "\<lambda>d a n. plain_claim_rows d a n retry" "plain_pool retry" sr_oid for retry
  by unfold_locales (simp add: plain_claim_rows_def plain_pool_def conj_commute)

interpretation listed: keyset list_page t_scan sr_oid
  by unfold_locales (simp add: list_page_def)

end
