(* ===== verification/Wiring.thy ===== *)
theory Wiring
  imports S3Store
begin

text \<open>
  The world of a command is a pair: the world of its progress database and the rest (the object store,
  the index). An action on one of them is an action on the pair.
\<close>

definition on_db :: "('v, 'a) act \<Rightarrow> ('v \<times> 'w, 'a) act" where
  "on_db m w = (case m (fst w) of (x, v) \<Rightarrow> (x, (v, snd w)))"

definition on_store :: "('w, 'a) act \<Rightarrow> ('v \<times> 'w, 'a) act" where
  "on_store m w = (case m (snd w) of (x, v) \<Rightarrow> (x, (fst w, v)))"

lemma on_db_iff: "on_db m w = (x, v) \<longleftrightarrow> m (fst w) = (x, fst v) \<and> snd v = snd w"
  by (cases v) (auto simp: on_db_def split: prod.splits)

lemma on_store_iff: "on_store m w = (x, v) \<longleftrightarrow> m (snd w) = (x, snd v) \<and> fst v = fst w"
  by (cases v) (auto simp: on_store_def split: prod.splits)

end
