(* ===== verification/VerifyResults.thy ===== *)
theory VerifyResults
  imports Paging PurgeResults Scenario Wiring
begin

text \<open>
  The verification run over the progress database, as \<^verbatim>\<open>runVerify\<close> of \<^verbatim>\<open>cmd/limewire-purge/verify.go\<close>
  wires it: it is a session of the database, it ends, and when it reports no error every member of
  the task has a verdict of the current generation; and what the verdict on an object says of the
  store.
\<close>

section \<open>The wiring\<close>

definition task_verifier ::
  "subtask \<Rightarrow> (string \<Rightarrow> ('w, bool) act) \<Rightarrow> (world \<times> 'w, unit) act \<Rightarrow> (nat \<Rightarrow> (world \<times> 'w, unit) act) \<Rightarrow>
   bool \<Rightarrow> int \<Rightarrow> int \<Rightarrow> (world \<times> 'w) verifier" where
  "task_verifier s em lim pause qps retries timeout =
     \<lparr>vf_empty = \<lambda>p. on_store (em p), vf_pending = \<lambda>after limit. on_db (verify_pending LockCtx s after limit),
      vf_record = \<lambda>oid status detail. on_db (record_verify LockCtx s oid status detail),
      vf_check = Some (on_db (check_lock LockCtx)), vf_wait = lim, vf_backoff = pause,
      vf_ctx_err = ctx_err LockCtx \<circ> fst, vf_qps_positive = qps, vf_max_retry = retries, vf_timeout = timeout\<rparr>"

text \<open>The limiter and the timer do not touch the tables.\<close>

definition same_db :: "world \<times> 'w \<Rightarrow> world \<times> 'w \<Rightarrow> bool" where
  "same_db w v \<longleftrightarrow> w_db (fst v) = w_db (fst w)"

lemma same_db_order: "reflp same_db" "transp same_db"
  by (auto simp: same_db_def intro!: reflpI transpI)

lemma on_db_same: "(\<And>I. keeps I m) \<Longrightarrow> transits same_db (on_db m)"
  by (auto simp: transits_def on_db_def same_db_def split: prod.splits dest!: keepsE [where I = "\<lambda>d. d = w_db _", rotated 2])

lemma task_verifier_calm:
  assumes "transits same_db lim" "\<And>k. transits same_db (pause k)"
  shows "vf_calm same_db (task_verifier s em lim pause qps retries timeout)"
proof -
  have "transits same_db (on_store m)" for m :: "('w, 'b) act"
    by (auto simp: transits_def on_store_def same_db_def split: prod.splits)
  then show ?thesis
    using assms same_db_order on_db_same [OF keeps_check_lock] by (auto simp: vf_calm_def task_verifier_def)
qed

lemma pending_same: "transits same_db (on_db (verify_pending c s a n))"
  by (rule on_db_same) (auto simp: verify_pending_def intro: dbh_query)

section \<open>Any relation that the requests keep\<close>

lemma check_object_transits: "vf_calm R r \<Longrightarrow> transits R (check_object r oid)"
proof (rule transitsI)
  fix w x v assume c: "vf_calm R r" and run: "check_object r oid w = (x, v)"
  have "check_prefixes r ps w = ((res, prob), v) \<Longrightarrow> R w v" for ps res prob w v
  proof (induction ps arbitrary: w res prob v)
    case Nil
    then show ?case using vf_calmD(1) [OF c] by (auto dest: reflpD)
  next
    case (Cons p ps)
    obtain y u where rt: "retry_check r (vf_empty r p) w = (y, u)" by (cases "retry_check r (vf_empty r p) w")
    obtain res1 prob1 v1 where rest: "check_prefixes r ps u = ((res1, prob1), v1)" by (metis surj_pair)
    have "R w u" using rt unfolding retry_check_def
      by (rule transitsD [OF retry_loop_transits [OF c vf_calmD(6) [OF c]]])
    moreover have "R u v1" by (rule Cons.IH [OF rest])
    moreover have "v1 = v" using Cons.prems rt rest by (auto split: sum.splits)
    ultimately show ?case using transpD [OF vf_calmD(2) [OF c]] by blast
  qed
  then show "R w v" using run by (auto simp: check_object_def split: prod.splits)
qed

lemma verify_batch_transits:
  assumes "vf_calm R r" "\<And>k st det. transits R (vf_record r k st det)"
  shows "transits R (verify_batch r ks a)"
proof (induction ks arbitrary: a)
  case (Cons k ks)
  have "transits R (\<lambda>w. case check_object r k w of ((status, detail), w) \<Rightarrow>
       bindA (vf_live r) (\<lambda>_. bindA (vf_record r k status detail) (\<lambda>_. verify_batch r ks k)) w)" (is "transits R ?m")
  proof (rule transitsI)
    fix w x v assume run: "?m w = (x, v)"
    obtain st det u where c: "check_object r k w = ((st, det), u)" by (metis surj_pair)
    have "R w u" by (rule transitsD [OF check_object_transits [OF assms(1)] c])
    moreover have "transits R (bindA (vf_live r) (\<lambda>_. bindA (vf_record r k st det) (\<lambda>_. verify_batch r ks k)))"
      by (intro transits_bind vf_calmD(2,7) [OF assms(1)] assms(2) Cons.IH)
    then have "R u v" by (rule transitsD) (use run c in simp)
    ultimately show "R w v" using transpD [OF vf_calmD(2) [OF assms(1)]] by blast
  qed
  then show ?case by (auto intro!: transits_bind vf_calmD(2,4) [OF assms(1)])
qed (use vf_calmD(1) [OF assms(1)] in \<open>simp add: transits_ret\<close>)

lemma verify_loop_transits:
  assumes "vf_calm R r" "\<And>k st det. transits R (vf_record r k st det)" "\<And>a n. transits R (vf_pending r a n)"
    and "verify_loop r a w = Some (x, v)"
  shows "R w v"
proof -
  let ?P = "\<lambda>q (a :: u64) w (y :: (err + unit) \<times> 'a). q = r \<longrightarrow> R w (snd y)"
  have "?P r a w (x, v)"
  proof (rule verify_loop.raw_induct [where P = ?P, OF _ assms(4)], intro impI)
    fix rec q a w y
    assume IH: "\<And>q a w y. rec q a w = Some y \<Longrightarrow> ?P q a w y"
      and run: "(case bindA (vf_live q) (\<lambda>_. vf_pending q a 1000) w of (Inl e, w) \<Rightarrow> Some (Inl e, w)
        | (Inr batch, w) \<Rightarrow> if length batch = 0 then Some (Inr (), w)
            else (case verify_batch q batch a w of (Inl e, w) \<Rightarrow> Some (Inl e, w) | (Inr a, w) \<Rightarrow> rec q a w)) = Some y"
      and q: "q = r"
    note tr = transpD [OF vf_calmD(2) [OF assms(1)]]
    obtain z u where p: "bindA (vf_live r) (\<lambda>_. vf_pending r a 1000) w = (z, u)"
      by (cases "bindA (vf_live r) (\<lambda>_. vf_pending r a 1000) w")
    have wu: "R w u"
      by (rule transitsD [OF transits_bind [OF vf_calmD(2,7) [OF assms(1)] assms(3)] p])
    show "R w (snd y)"
    proof (cases z)
      case (Inl e)
      then show ?thesis using run p q wu by auto
    next
      case (Inr batch)
      obtain b u2 where vb: "verify_batch r batch a u = (b, u2)" by (cases "verify_batch r batch a u")
      have wu2: "R w u2" by (rule tr [OF wu transitsD [OF verify_batch_transits [OF assms(1,2)] vb]])
      show ?thesis
      proof (cases "batch = []")
        case True
        then show ?thesis using run p q Inr wu by auto
      next
        case False
        show ?thesis
        proof (cases b)
          case (Inl e)
          then show ?thesis using run p q Inr False vb wu2 by auto
        next
          case b: (Inr a')
          then have "rec r a' u2 = Some y" using run p q Inr False vb by simp
          then show ?thesis using tr [OF wu2] IH by blast
        qed
      qed
    qed
  qed
  then show ?thesis by simp
qed

section \<open>A session of the database\<close>

definition verifying :: "(string \<Rightarrow> string) \<Rightarrow> subtask \<Rightarrow> world \<times> 'w \<Rightarrow> world \<times> 'w \<Rightarrow> bool" where
  "verifying H s w v \<longleftrightarrow> (reachable H (Verifying s, fst w) \<longrightarrow> reachable H (Verifying s, fst v))"

lemma verifying_order: "reflp (verifying H s)" "transp (verifying H s)"
  by (auto simp: verifying_def intro!: reflpI transpI)

lemma same_db_verifying: "transits same_db m \<Longrightarrow> transits (verifying H s) m"
  unfolding transits_def same_db_def verifying_def using reachable.step [OF _ environment] by blast

lemma record_verifying: "transits (verifying H s) (on_db (record_verify c s k st det))"
proof (rule transitsI)
  fix w x v assume "on_db (record_verify c s k st det) w = (x, v)"
  then have run: "record_verify c s k st det (fst w) = (x, fst v)" by (auto simp: on_db_def split: prod.splits)
  show "verifying H s w v" unfolding verifying_def using reachable.step [OF _ verdict [OF run]] by blast
qed

section \<open>Every member is given a verdict\<close>

definition judged :: "subtask \<Rightarrow> task_object \<Rightarrow> bool" where
  "judged s o' \<longleftrightarrow> ob_gen o' = st_gen s \<and> (ob_status o' = ''PASS'' \<or> ob_status o' = ''RESIDUE'' \<or> ob_status o' = ''ERROR'')"

text \<open>Up to the key \<open>l\<close>, every undeferred member is judged or one of \<open>ks\<close>.\<close>

definition covered :: "subtask \<Rightarrow> u64 \<Rightarrow> u64 list \<Rightarrow> db \<Rightarrow> bool" where
  "covered s l ks d \<longleftrightarrow> (\<forall>o'\<in>set (objects_of d (st_id s)).
     \<not> ob_deferred o' \<longrightarrow> ob_oid o' \<noteq> 0 \<longrightarrow> ob_oid o' \<le> l \<longrightarrow> judged s o' \<or> ob_oid o' \<in> set ks)"

definition member_ids :: "subtask \<Rightarrow> db \<Rightarrow> u64 set" where
  "member_ids s d = ob_oid ` set (objects_of d (st_id s))"

lemma objects_update:
  assumes "\<And>o'. ob_task (f o') = ob_task o'"
  shows "objects_of (update_objects R f d) t = map (\<lambda>o'. if R o' then f o' else o') (objects_of d t)"
proof -
  have "ob_task (if R o' then f o' else o') = ob_task o'" for o' using assms by simp
  then show ?thesis by (simp add: objects_of_def update_objects_def filter_map comp_def)
qed

lemma ids_update:
  assumes "\<And>o'. ob_task (f o') = ob_task o'" "\<And>o'. ob_oid (f o') = ob_oid o'"
  shows "member_ids s (update_objects R f d) = member_ids s d"
proof -
  have "ob_oid (if R o' then f o' else o') = ob_oid o'" for o' using assms(2) by simp
  then show ?thesis by (simp add: member_ids_def objects_update [OF assms(1)] image_image del: if_image_distrib)
qed

lemma covers_update:
  assumes "covered s l (k # ks) d" "\<And>o'. ob_task (f o') = ob_task o'" "\<And>o'. judged s (f o')"
    and "\<And>o'. ob_task o' = st_id s \<Longrightarrow> \<not> ob_deferred o' \<Longrightarrow> ob_oid o' = k \<Longrightarrow> R o'"
  shows "covered s l ks (update_objects R f d)"
  unfolding covered_def
proof (intro ballI impI)
  fix o' assume "o' \<in> set (objects_of (update_objects R f d) (st_id s))"
    and o: "\<not> ob_deferred o'" "ob_oid o' \<noteq> 0" "ob_oid o' \<le> l"
  then obtain x where x: "x \<in> set (objects_of d (st_id s))" "o' = (if R x then f x else x)"
    unfolding objects_update [OF assms(2)] by auto
  have "ob_task x = st_id s" using x(1) by (simp add: objects_of_def)
  then show "judged s o' \<or> ob_oid o' \<in> set ks"
    using assms(1,3,4) x o by (cases "R x") (auto simp: covered_def)
qed

lemma record_covers:
  assumes "st = ''PASS'' \<or> st = ''RESIDUE'' \<or> st = ''ERROR''"
  shows "dbh (\<lambda>d. covered s l (k # ks) d) (record_verify c s k st det) (\<lambda>_. covered s l ks) (\<lambda>_ _. True)"
  unfolding record_verify_def
  apply (rule dbh_bind [where R = "\<lambda>_ d. covered s l (k # ks) d"], rule dbh_failIf, simp, simp)
  apply (rule dbh_bind [where R = "\<lambda>_ d. covered s l (k # ks) d"], rule dbh_check_lock, simp, simp)
  apply (rule dbh_update)
    apply simp
   apply (use assms in \<open>auto intro!: covers_update simp: judged_def\<close>)
  done

lemma record_ids: "keeps (\<lambda>d. member_ids s d = K) (record_verify c s k st det)"
  unfolding record_verify_def
  by (rule keeps_bind, rule dbh_failIf, simp, simp, rule keeps_bind [OF keeps_check_lock], rule dbh_update)
    (auto simp: ids_update)

lemma keep_ids: "transits same_db m \<Longrightarrow> transits (\<lambda>w v. member_ids s (w_db (fst v)) = member_ids s (w_db (fst w))) m"
  by (auto simp: transits_def same_db_def)

lemma page_covers:
  assumes "covered s a [] d" and page: "verify_page s d a n = ks" "0 < n"
  shows "ks = [] \<Longrightarrow> covered s l [] d" and "ks \<noteq> [] \<Longrightarrow> covered s (last ks) ks d"
proof -
  have j: "judged s o' \<or> ob_oid o' \<in> set (verify_pool s d)" if "o' \<in> set (objects_of d (st_id s))" "\<not> ob_deferred o'" for o'
    using that by (auto simp: judged_def verify_pool_def needs_check_def)
  show "covered s l [] d" if "ks = []"
    using members.page_none [of s d a n] assms that j unfolding covered_def
    by (metis empty_iff linorder_not_less list.set(1))
  show "covered s (last ks) ks d" if ne: "ks \<noteq> []"
    unfolding covered_def
  proof (intro ballI impI)
    fix o' assume o: "o' \<in> set (objects_of d (st_id s))" "\<not> ob_deferred o'" "ob_oid o' \<noteq> 0" "ob_oid o' \<le> last ks"
    show "judged s o' \<or> ob_oid o' \<in> set ks"
    proof (cases "ob_oid o' \<le> a \<or> ob_oid o' = last ks")
      case True
      then show ?thesis using assms(1) o ne by (auto simp: covered_def)
    next
      case False
      then have "a < ob_oid o'" "ob_oid o' < last ks" using o(4) by (auto simp: order.strict_iff_order)
      then show ?thesis
        using j [OF o(1,2)] members.page_prefix [of "last ks" s d a n "ob_oid o'"] ne page(1) by auto
    qed
  qed
qed

lemma batch_covers:
  assumes lim: "transits same_db lim" "\<And>k. transits same_db (pause k)"
    and r_def: "r = task_verifier s em lim pause qps retries timeout"
  shows "verify_batch r ks a w = (Inr a', v) \<Longrightarrow> covered s l ks (w_db (fst w)) \<Longrightarrow>
    covered s l [] (w_db (fst v)) \<and> a' = last (a # ks)"
proof (induction ks arbitrary: a w)
  case Nil
  then show ?case by (simp add: ret_def)
next
  case (Cons k ks)
  have calm: "vf_calm same_db r" unfolding r_def by (rule task_verifier_calm) (rule lim)+
  obtain u where u: "vf_checked r w = (Inr (), u)" and run: "(case check_object r k u of ((status, detail), w) \<Rightarrow>
       bindA (vf_live r) (\<lambda>_. bindA (vf_record r k status detail) (\<lambda>_. verify_batch r ks k)) w) = (Inr a', v)"
    using Cons.prems(1) by (auto simp: bindA_ok_iff)
  obtain st det u1 where c: "check_object r k u = ((st, det), u1)" by (metis surj_pair)
  obtain u2 u3 where l: "vf_live r u1 = (Inr (), u2)" and rec: "vf_record r k st det u2 = (Inr (), u3)"
      and rest: "verify_batch r ks k u3 = (Inr a', v)"
    using run c by (auto simp: bindA_ok_iff)
  have "w_db (fst u2) = w_db (fst w)"
    using transitsD [OF vf_calmD(4) [OF calm] u] transitsD [OF check_object_transits [OF calm] c]
      transitsD [OF vf_calmD(7) [OF calm] l] by (simp add: same_db_def)
  then have "covered s l (k # ks) (w_db (fst u2))" using Cons.prems(2) by simp
  moreover have "record_verify LockCtx s k st det (fst u2) = (Inr (), fst u3)"
    using rec by (auto simp: r_def task_verifier_def on_db_def split: prod.splits)
  ultimately have "covered s l ks (w_db (fst u3))"
    using dbhD_ok [OF record_covers [OF check_object_status [OF c]]] by blast
  from Cons.IH [OF rest this] show ?case by simp
qed

lemma pending_page:
  "verify_pending c s a n w = (Inr ks, u) \<Longrightarrow> ks = verify_page s (w_db w) a n \<and> w_db u = w_db w"
  unfolding verify_pending_page query_def by (auto dest!: statement_cases)

lemma batch_last: "verify_batch r ks a w = (Inr a', v) \<Longrightarrow> a' = last (a # ks)"
proof (induction ks arbitrary: a w)
  case (Cons k ks)
  obtain u where run: "(case check_object r k u of ((status, detail), w) \<Rightarrow>
       bindA (vf_live r) (\<lambda>_. bindA (vf_record r k status detail) (\<lambda>_. verify_batch r ks k)) w) = (Inr a', v)"
    using Cons.prems by (auto simp: bindA_ok_iff)
  obtain st det u1 where "check_object r k u = ((st, det), u1)" by (metis surj_pair)
  then obtain u where "verify_batch r ks k u = (Inr a', v)" using run by (auto simp: bindA_ok_iff)
  from Cons.IH [OF this] show ?case by simp
qed (simp add: ret_def)

lemma loop_covers:
  assumes lim: "transits same_db lim" "\<And>k. transits same_db (pause k)"
    and r_def: "r = task_verifier s em lim pause qps retries timeout"
  assumes run: "verify_loop r a w = Some (Inr (), v)" and cov: "covered s a [] (w_db (fst w))"
  shows "covered s l [] (w_db (fst v))"
proof -
  let ?P = "\<lambda>q a w (y :: (err + unit) \<times> (world \<times> 'a)). q = r \<longrightarrow> fst y = Inr () \<longrightarrow> covered s a [] (w_db (fst w)) \<longrightarrow>
      covered s l [] (w_db (fst (snd y)))"
  have "?P r a w (Inr (), v)"
  proof (rule verify_loop.raw_induct [where P = ?P, OF _ run], intro impI)
    fix rec q a w y
    assume IH: "\<And>q a w y. rec q a w = Some y \<Longrightarrow> ?P q a w y"
      and run: "(case bindA (vf_live q) (\<lambda>_. vf_pending q a 1000) w of (Inl e, w) \<Rightarrow> Some (Inl e, w)
        | (Inr batch, w) \<Rightarrow> if length batch = 0 then Some (Inr (), w)
            else (case verify_batch q batch a w of (Inl e, w) \<Rightarrow> Some (Inl e, w) | (Inr a, w) \<Rightarrow> rec q a w)) = Some y"
      and q: "q = r" and y: "fst y = Inr ()" and cov: "covered s a [] (w_db (fst w))"
    obtain ks u where p: "bindA (vf_live r) (\<lambda>_. vf_pending r a 1000) w = (Inr ks, u)"
      using run q y by (auto split: prod.splits sum.splits)
    then obtain u0 where u0: "vf_live r w = (Inr (), u0)" and pend: "vf_pending r a 1000 u0 = (Inr ks, u)"
      by (auto simp: bindA_ok_iff)
    have same: "w_db (fst u0) = w_db (fst w)" using u0 by (auto simp: vf_live_def split: option.splits)
    have vp: "verify_pending LockCtx s a 1000 (fst u0) = (Inr ks, fst u)"
      using pend by (auto simp: r_def task_verifier_def on_db_def split: prod.splits)
    have pg: "ks = verify_page s (w_db (fst w)) a 1000 \<and> w_db (fst u) = w_db (fst w)"
      using pending_page [OF vp] same by simp
    show "covered s l [] (w_db (fst (snd y)))"
    proof (cases "ks = []")
      case True
      then have "snd y = u" using run q p by auto
      then show ?thesis using page_covers(1) [OF cov, of 1000 ks l] pg True by simp
    next
      case False
      obtain a' v' where b: "verify_batch r ks a u = (Inr a', v')" and rec: "rec r a' v' = Some y"
        using run q p False y by (auto split: prod.splits sum.splits)
      have "covered s (last ks) ks (w_db (fst u))" using page_covers(2) [OF cov, of 1000 ks] pg False by simp
      then have "covered s a' [] (w_db (fst v'))"
        using batch_covers [OF lim r_def b] False by simp
      then show ?thesis using IH [OF rec] y by simp
    qed
  qed
  then show ?thesis using cov by simp
qed

section \<open>It ends\<close>

lemma loop_ends:
  assumes lim: "transits same_db lim" "\<And>k. transits same_db (pause k)"
    and r_def: "r = task_verifier s em lim pause qps retries timeout"
  shows "\<exists>y. verify_loop r a w = Some y"
proof -
  let ?left = "\<lambda>(a, w). {k \<in> member_ids s (w_db (fst w)). (a :: u64) < k}"
  have calm: "vf_calm same_db r" unfolding r_def by (rule task_verifier_calm) (rule lim)+
  let ?R = "\<lambda>w v :: world \<times> 'a. member_ids s (w_db (fst v)) = member_ids s (w_db (fst w))"
  have calmR: "vf_calm ?R r"
    using calm unfolding vf_calm_def by (auto intro: keep_ids intro!: reflpI transpI)
  have rec: "transits ?R (vf_record r k st det)" for k st det
    by (auto simp: r_def task_verifier_def transits_def on_db_def split: prod.splits
        dest!: keepsE [OF record_ids refl])
  have "\<exists>y. verify_loop r (fst c) (snd c) = Some y" for c
  proof (induction "card (?left c)" arbitrary: c rule: less_induct)
    case less
    obtain a w where c: "c = (a, w)" by (cases c)
    obtain z u where p: "bindA (vf_live r) (\<lambda>_. vf_pending r a 1000) w = (z, u)"
      by (cases "bindA (vf_live r) (\<lambda>_. vf_pending r a 1000) w")
    show ?case
    proof (cases "\<exists>ks. z = Inr ks \<and> ks \<noteq> []")
      case False
      then show ?thesis using p c by (subst verify_loop.simps) (auto split: sum.split)
    next
      case True
      then obtain ks where z: "z = Inr ks" "ks \<noteq> []" by blast
      obtain b v where vb: "verify_batch r ks a u = (b, v)" by (cases "verify_batch r ks a u")
      show ?thesis
      proof (cases b)
        case (Inl e)
        then show ?thesis using p c z vb by (subst verify_loop.simps) simp
      next
        case (Inr a')
        obtain u0 where u0: "vf_live r w = (Inr (), u0)" and pend: "vf_pending r a 1000 u0 = (Inr ks, u)"
          using p z by (auto simp: bindA_ok_iff)
        have "same_db u0 u"
          by (rule transitsD [of same_db "vf_pending r a 1000"]) (simp_all add: r_def task_verifier_def pending_same pend [unfolded r_def task_verifier_def, simplified])
        then have ids: "member_ids s (w_db (fst u)) = member_ids s (w_db (fst w))"
          using u0 by (auto simp: vf_live_def same_db_def split: option.splits)
        have last: "a < last ks \<and> last ks \<in> member_ids s (w_db (fst w))"
        proof -
          have "w_db (fst u0) = w_db (fst w)" using u0 by (auto simp: vf_live_def split: option.splits)
          moreover have "verify_pending LockCtx s a 1000 (fst u0) = (Inr ks, fst u)"
            using pend by (auto simp: r_def task_verifier_def on_db_def split: prod.splits)
          ultimately have "ks = verify_page s (w_db (fst w)) a 1000" using pending_page by force
          then have "last ks \<in> set (verify_page s (w_db (fst w)) a 1000)" using z(2) by simp
          from members.page_beyond [OF this] show ?thesis by (auto simp: verify_pool_def member_ids_def)
        qed
        have a': "a' = last ks"
          using batch_last [OF vb [unfolded Inr]] z(2) by simp
        have idv: "member_ids s (w_db (fst v)) = member_ids s (w_db (fst w))"
          using transitsD [OF verify_batch_transits [OF calmR rec] vb] ids by simp
        have "card (?left (a', v)) < card (?left c)"
          unfolding c
        proof (rule psubset_card_mono)
          show "finite (?left (a, w))" by (simp add: member_ids_def)
          have "last ks \<in> ?left (a, w)" "last ks \<notin> ?left (a', v)" using last a' by auto
          moreover have "?left (a', v) \<subseteq> ?left (a, w)" using idv a' last by auto
          ultimately show "?left (a', v) \<subset> ?left (a, w)" by blast
        qed
        from less.hyps [OF this] show ?thesis
          using p c z vb Inr by (subst verify_loop.simps) simp
      qed
    qed
  qed
  from this [of "(a, w)"] show ?thesis by simp
qed

section \<open>A concrete run\<close>

text \<open>The task of \<open>Scenario\<close>, with a store that holds nothing.\<close>

definition ex_before :: world where
  "ex_before = ex_world (ex_ready\<lparr>t_tasks := [ex_verifying], t_progress := [ex_result]\<rparr>)"

definition ex_checked :: world where
  "ex_checked = ex_world (ex_ready\<lparr>t_tasks := [ex_verifying], t_progress := [ex_result], t_objects := [ex_pass]\<rparr>)"

definition ex_verifier :: "(string \<Rightarrow> ('w, bool) act) \<Rightarrow> (world \<times> 'w) verifier" where
  "ex_verifier em = task_verifier ex_verifying em (ret ()) (\<lambda>_. ret ()) True 3 120"

lemma ex_verifier_calm: "transits same_db (ret () :: (world \<times> 'w, unit) act)"
  by (simp add: transits_def ret_def same_db_def)

lemma ex_live: "ctx_err c ex_before = None" "ctx_err c ex_checked = None"
  by (simp_all add: ctx_err_def ex_before_def ex_checked_def ex_world_def)

lemma ex_pages: "verify_pending LockCtx ex_verifying 0 1000 ex_before = (Inr [5], ex_before)"
  "verify_pending LockCtx ex_verifying 5 1000 ex_checked = (Inr [], ex_checked)"
  by (simp_all add: verify_pending_def objects_of_def needs_check_def ex_before_def ex_checked_def run_defs ex_defs)

lemma ex_locked: "check_lock LockCtx ex_before = (Inr (), ex_before)"
  by (simp add: ex_before_def run_defs ex_defs)

lemma ex_verify_run:
  assumes em: "\<And>p. em p x = (Inr True, x)"
  shows "verify_run (ex_verifier em) (ex_before, x) = Some (Inr (), (ex_checked, x))"
proof -
  have f: "vf_empty (ex_verifier em) = (\<lambda>p. on_store (em p))" "vf_wait (ex_verifier em) = ret ()" "vf_max_retry (ex_verifier em) = 3"
    "vf_check (ex_verifier em) = Some (on_db (check_lock LockCtx))" "vf_timeout (ex_verifier em) = 120" "vf_qps_positive (ex_verifier em)"
    "vf_pending (ex_verifier em) = (\<lambda>after limit. on_db (verify_pending LockCtx ex_verifying after limit))"
    "vf_record (ex_verifier em) = (\<lambda>oid status detail. on_db (record_verify LockCtx ex_verifying oid status detail))"
    "vf_ctx_err (ex_verifier em) = ctx_err LockCtx \<circ> fst"
    by (simp_all add: ex_verifier_def task_verifier_def)
  have live: "vf_live (ex_verifier em) (ex_before, x) = (Inr (), (ex_before, x))"
    "vf_live (ex_verifier em) (ex_checked, x) = (Inr (), (ex_checked, x))"
    by (simp_all add: vf_live_def f ex_live)
  have lock: "vf_checked (ex_verifier em) (ex_before, x) = (Inr (), (ex_before, x))"
    by (simp add: vf_checked_def f on_db_def ex_locked)
  have "retry_check (ex_verifier em) (on_store (em p)) (ex_before, x) = (Inr True, (ex_before, x))" for p
    by (simp add: retry_check_def f numeral_eq_Suc act_defs lock on_store_def em)
  then have chk: "check_object (ex_verifier em) 5 (ex_before, x) = ((''PASS'', []), (ex_before, x))"
    by (simp add: check_object_def prefixes_def Let_def f)
  have rec: "record_verify LockCtx ex_verifying 5 ''PASS'' [] ex_before = (Inr (), ex_checked)"
    unfolding ex_before_def ex_checked_def by (rule ex_record)
  have 1: "bindA (vf_live (ex_verifier em)) (\<lambda>_. vf_pending (ex_verifier em) 0 1000) (ex_before, x) = (Inr [5], (ex_before, x))"
    by (simp add: bindA_def live f on_db_def ex_pages)
  have 2: "verify_batch (ex_verifier em) [5] 0 (ex_before, x) = (Inr 5, (ex_checked, x))"
    by (simp add: bindA_def lock chk live rec f on_db_def ret_def)
  have 3: "bindA (vf_live (ex_verifier em)) (\<lambda>_. vf_pending (ex_verifier em) 5 1000) (ex_checked, x) = (Inr [], (ex_checked, x))"
    by (simp add: bindA_def live f on_db_def ex_pages)
  have 4: "verify_loop (ex_verifier em) 5 (ex_checked, x) = Some (Inr (), (ex_checked, x))"
    by (subst verify_loop.simps) (simp add: 3)
  have "verify_loop (ex_verifier em) 0 (ex_before, x) = Some (Inr (), (ex_checked, x))"
    by (subst verify_loop.simps) (simp add: 1 2 4 del: verify_batch.simps)
  then show ?thesis by (simp add: verify_run_def f)
qed

lemma ex_empty_run: "verify_run (task_verifier ex_verifying (\<lambda>_. ret True) (ret ()) (\<lambda>_. ret ()) True 3 120) (ex_before, ()) =
    Some (Inr (), (ex_checked, ()))"
  by (rule ex_verify_run [unfolded ex_verifier_def]) (simp add: ret_def)

lemma ex_before_reachable: "reachable ex_hash (Verifying ex_verifying, ex_before)"
  unfolding ex_before_def by (rule ex_verifying_reachable)

definition ex_bucket_verifier :: "bucket verifier" where
  "ex_bucket_verifier = \<lparr>vf_empty = store_empty bucket_api ''piece-store'', vf_pending = \<lambda>_ _. ret [],
     vf_record = \<lambda>_ _ _. ret (), vf_check = None, vf_wait = ret (), vf_backoff = \<lambda>_. ret (), vf_ctx_err = \<lambda>_. None,
     vf_qps_positive = True, vf_max_retry = 2, vf_timeout = 1\<rparr>"

lemma ex_bucket_calm: "vf_calm (\<lambda>w v. bk_held v = bk_held w) ex_bucket_verifier"
  using mock.store_empty_held
  by (auto simp: vf_calm_def ex_bucket_verifier_def transits_def ret_def intro!: reflpI transpI)

interpretation mock_check: object_check "store_list bucket_api ''piece-store''" ex_bucket_verifier
    "store_delete bucket_api ''piece-store''" bk_held
  by (rule s3_service.s3_object_check [OF mock.s3_service_axioms _ ex_bucket_calm]) (simp add: ex_bucket_verifier_def)

section \<open>The whole run\<close>

lemma verify_run_returns:
  assumes "transits same_db lim" "\<And>k. transits same_db (pause k)"
  shows "\<exists>y. verify_run (task_verifier s em lim pause qps retries timeout) w = Some y"
proof -
  have "\<exists>y. verify_loop (task_verifier s em lim pause qps retries timeout) 0 w = Some y"
    by (rule loop_ends [OF assms refl])
  then show ?thesis by (simp add: verify_run_def)
qed

lemma verify_run_session:
  assumes "transits same_db lim" "\<And>k. transits same_db (pause k)"
    and "verify_run (task_verifier s em lim pause qps retries timeout) w = Some (x, v)"
    and "reachable H (Verifying s, fst w)"
  shows "reachable H (Verifying s, fst v)"
proof (cases "verify_loop (task_verifier s em lim pause qps retries timeout) 0 w = Some (x, v)")
  case True
  let ?r = "task_verifier s em lim pause qps retries timeout"
  have "vf_calm (verifying H s) ?r"
  proof -
    have "vf_calm same_db ?r" by (rule task_verifier_calm [OF assms(1,2)])
    then show ?thesis using verifying_order unfolding vf_calm_def by (auto intro: same_db_verifying)
  qed
  moreover have "transits (verifying H s) (vf_record ?r k st det)" for k st det
    by (simp add: task_verifier_def record_verifying)
  moreover have "transits (verifying H s) (vf_pending ?r a n)" for a n
    by (simp add: task_verifier_def same_db_verifying pending_same)
  ultimately have "verifying H s w v" by (rule verify_loop_transits [OF _ _ _ True])
  then show ?thesis using assms(4) by (simp add: verifying_def)
next
  case False
  then show ?thesis using assms(3,4) by (auto simp: verify_run_def split: if_splits)
qed

section \<open>Properties\<close>

text \<open>C21. The verdict of a verification says what the store holds. Over a service that keeps its
  documented behaviour \<^verbatim>\<open>PASS\<close> means that no key at all is left under either prefix of the object, and
  \<^verbatim>\<open>RESIDUE\<close> that there is one; a check that could not be completed is neither.\<close>

theorem verdict_sound:
  assumes "s3_service api b held" "vf_empty r = store_empty api b" "vf_calm (\<lambda>w v. held v = held w) r"
    and "check_object r oid w = ((status, detail), v)"
  shows "(status = ''PASS'' \<longrightarrow> {k \<in> held w. \<exists>p\<in>set (prefixes oid). prefix p k} = {}) \<and>
    (status = ''RESIDUE'' \<longrightarrow> {k \<in> held w. \<exists>p\<in>set (prefixes oid). prefix p k} \<noteq> {}) \<and>
    (status = ''PASS'' \<or> status = ''RESIDUE'' \<or> status = ''ERROR'')"
proof -
  have "object_check (store_list api b) r (store_delete api b) held"
    by (rule s3_service.s3_object_check [OF assms(1-3)])
  from object_check.check_object_sound(2,3) [OF this assms(4)] show ?thesis
    using check_object_status [OF assms(4)] by auto
qed

theorem verdict_sound_witness:
  "{k \<in> bk_held \<lparr>bk_keys = [(''s77_s0'', 9)], bk_script = []\<rparr>. \<exists>p\<in>set (prefixes 7). prefix p k} = {}"
proof -
  have "check_object ex_bucket_verifier 7 \<lparr>bk_keys = [(''s77_s0'', 9)], bk_script = []\<rparr> =
      ((''PASS'', []), \<lparr>bk_keys = [(''s77_s0'', 9)], bk_script = []\<rparr>)"
    by (simp add: check_object_def ex_prefixes retry_check_def ex_bucket_verifier_def vf_checked_def act_defs ex_check
        numeral_eq_Suc)
  from verdict_sound [OF mock.s3_service_axioms _ ex_bucket_calm this] show ?thesis
    by (simp add: ex_bucket_verifier_def)
qed

text \<open>C22. A verification ends: over the progress database the loop over the members that need a check
  always returns, because each page continues after the last member of the one before.\<close>

theorem verify_run_ends:
  assumes "transits same_db lim" "\<And>k. transits same_db (pause k)"
  shows "\<exists>y. verify_run (task_verifier s em lim pause qps retries timeout) w = Some y"
  by (rule verify_run_returns [OF assms])

theorem verify_run_ends_witness: "\<exists>y. verify_run (ex_verifier (\<lambda>_. ret True)) (ex_before, ()) = Some y"
  unfolding ex_verifier_def by (rule verify_run_ends) (rule ex_verifier_calm)+

text \<open>C23. A verification that reports no error has checked everything: every member of the task that is not
  deferred then has a verdict of the current generation (object identifiers start at one).\<close>

theorem verify_covers_task:
  assumes "transits same_db lim" "\<And>k. transits same_db (pause k)"
    and "verify_run (task_verifier s em lim pause qps retries timeout) w = Some (Inr (), v)"
  shows "list_all (\<lambda>o'. ob_deferred o' \<or> ob_oid o' = 0 \<or> judged s o') (objects_of (w_db (fst v)) (st_id s))"
proof -
  have "verify_loop (task_verifier s em lim pause qps retries timeout) 0 w = Some (Inr (), v)"
    using assms(3) by (simp add: verify_run_def split: if_splits)
  moreover have "covered s 0 [] (w_db (fst w))" by (auto simp: covered_def)
  ultimately have "covered s (- 1) [] (w_db (fst v))" by (rule loop_covers [OF assms(1,2) refl])
  then show ?thesis by (auto simp: covered_def list_all_iff)
qed

theorem verify_covers_task_witness:
  "list_all (\<lambda>o'. ob_deferred o' \<or> ob_oid o' = 0 \<or> judged ex_verifying o') (objects_of (w_db ex_checked) 1)"
proof -
  have "list_all (\<lambda>o'. ob_deferred o' \<or> ob_oid o' = 0 \<or> judged ex_verifying o') (objects_of (w_db (fst (ex_checked, ()))) (st_id ex_verifying))"
    by (rule verify_covers_task [OF ex_verifier_calm ex_verifier_calm ex_empty_run])
  then show ?thesis by (simp add: ex_defs)
qed

text \<open>C24. A verification refines the life of the database: whatever the store answers and whatever fails,
  it only passes through reachable states of the verification session of its task, so that all that
  holds of them, like the consistency of the tables, holds after it.\<close>

theorem verify_refines_session:
  assumes "transits same_db lim" "\<And>k. transits same_db (pause k)"
    and "verify_run (task_verifier s em lim pause qps retries timeout) w = Some (x, v)"
    and "reachable H (Verifying s, fst w)"
  shows "reachable H (Verifying s, fst v)"
  by (rule verify_run_session [OF assms])

theorem verify_refines_session_witness: "reachable ex_hash (Verifying ex_verifying, ex_checked)"
  using verify_refines_session [OF ex_verifier_calm ex_verifier_calm ex_empty_run, of ex_hash]
    ex_before_reachable by simp

end
