(* ===== verification/Lock.thy ===== *)
theory Lock
  imports Database
begin

text \<open>
  The life of the execution lock, \<^verbatim>\<open>internal/progress/lock.go\<close>: \<^verbatim>\<open>Acquire\<close>, the watcher, \<^verbatim>\<open>Close\<close> (the
  check itself is in \<open>Database\<close>), and the processes that compete for it. \<open>w_owner\<close> of a world is the
  session that owns the MySQL lock named \<open>lock_name\<close> after the progress database.
\<close>

section \<open>The operations\<close>

text \<open>The name: \<open>H\<close> is the hexadecimal SHA-256.\<close>

definition lock_name :: "(string \<Rightarrow> string) \<Rightarrow> string \<Rightarrow> string" where
  "lock_name H database = take 63 (''limewire-purge:'' @ H database)"

text \<open>\<^verbatim>\<open>GET_LOCK(name, 0)\<close> and \<^verbatim>\<open>RELEASE_LOCK(name)\<close> of the session \<open>k\<close>.\<close>

definition get_lock :: "i64 \<Rightarrow> (world, i64 option) act" where
  "get_lock k w =
     (if w_owner w = None \<or> w_owner w = Some k then (Inr (Some 1), w\<lparr>w_owner := Some k\<rparr>)
      else (Inr (Some 0), w))"

definition release_lock :: "i64 \<Rightarrow> (world, i64 option) act" where
  "release_lock k w =
     (if w_owner w = Some k then (Inr (Some 1), w\<lparr>w_owner := None\<rparr>)
      else (Inr (if w_owner w = None then None else Some 0), w))"

text \<open>\<open>session\<close> is what \<^verbatim>\<open>SELECT DATABASE(), CONNECTION_ID()\<close> answers on the connection taken.\<close>

definition acquire :: "ctx \<Rightarrow> string \<times> i64 \<Rightarrow> string \<Rightarrow> (world, unit) act" where
  "acquire c session operation =
     bindA (getA w_lock) (\<lambda>held.
     bindA (failIf (held \<noteq> None) (Txt ''database already has an execution lock'')) (\<lambda>_.
     bindA (statement c (ret ())) (\<lambda>_.
     bindA (statement c (ret session)) (\<lambda>(database, k).
     bindA (statement c (get_lock k)) (\<lambda>got.
     bindA (failIf (got \<noteq> Some 1)
       (Txt (''another command holds the execution lock for '' @ database @ ''; refusing '' @ operation))) (\<lambda>_.
     modifyA (\<lambda>w. w\<lparr>w_lock := Some \<lparr>lk_id = k, lk_lost = None\<rparr>\<rparr>)))))))"

text \<open>The watcher until its \<open>n\<close>-th tick, or until a check fails or the lock's context ends.\<close>

fun lock_watch :: "nat \<Rightarrow> world \<Rightarrow> world" where
  "lock_watch 0 w = w"
| "lock_watch (Suc n) w =
     (if ctx_err LockCtx w \<noteq> None then w
      else case check_lock LockCtx w of (Inl _, v) \<Rightarrow> v | (Inr _, v) \<Rightarrow> lock_watch n v)"

text \<open>
  \<^verbatim>\<open>Lock.Close\<close>. Only it writes \<open>Released\<close>, so that marks a second call, which does nothing. After a
  failed \<^verbatim>\<open>RELEASE_LOCK\<close> the session is thrown away and closing it again is an error.
\<close>

definition Released :: err where
  "Released = Txt ''execution lock released''"

definition ErrConnDone :: err where
  "ErrConnDone = Sentinel ''sql: connection is already closed''"

definition lock_close :: "lock_handle \<Rightarrow> world \<Rightarrow> err option \<times> world" where
  "lock_close l w =
     (if lk_lost l = Some Released then (None, w)
      else case statement Background (release_lock (lk_id l)) w of (r, w) \<Rightarrow>
        (case r of Inl e \<Rightarrow> join_err (Some e) (Some ErrConnDone) | Inr _ \<Rightarrow> None,
         cancel_ctx LockCtx (w\<lparr>w_lock := Some (l\<lparr>lk_lost := Some Released\<rparr>)\<rparr>)))"

text \<open>\<^verbatim>\<open>DB.Close\<close> of \<^verbatim>\<open>progress.go\<close>; \<open>pool\<close> is the error of closing the connection pool.\<close>

definition db_close :: "err option \<Rightarrow> world \<Rightarrow> err option \<times> world" where
  "db_close pool w =
     (case w_lock w of
        None \<Rightarrow> (pool, w)
      | Some l \<Rightarrow> (case lock_close l w of (e, w) \<Rightarrow> (join_err e pool, w)))"

lemma lock_name_fits: "length (lock_name H database) \<le> 63"
  by (simp add: lock_name_def)

section \<open>What an operation does to the owner\<close>

text \<open>A script in which the server does not hand the lock to somebody else.\<close>

definition honest :: "world \<Rightarrow> bool" where
  "honest w \<longleftrightarrow> (\<forall>x. OwnerIs x \<notin> set (w_script w))"

definition beside :: "world \<Rightarrow> world \<Rightarrow> bool" where
  "beside w u \<longleftrightarrow> w_owner u = w_owner w \<and> w_lock u = w_lock w \<and> honest u"

lemma statement_beside:
  assumes "statement c f w = (r, v)" "honest w"
  obtains u where "beside w u" "v = u \<and> (\<exists>e. r = Inl e) \<or> f u = (r, v) \<or> (\<exists>e r'. r = Inl e \<and> f u = (r', v))"
proof (cases "ctx_err c w")
  case (Some e)
  then show ?thesis using assms by (intro that [of w]) (auto simp: beside_def statement_def)
next
  case live: None
  show ?thesis
  proof (cases "w_script w")
    case Nil
    then show ?thesis using assms live by (intro that [of w]) (auto simp: beside_def statement_def)
  next
    case (Cons ev evs)
    let ?w = "w\<lparr>w_script := evs\<rparr>"
    have b: "beside w ?w" "beside w (cancel_ctx OperatorCtx ?w)"
      using assms(2) Cons by (auto simp: beside_def honest_def)
    have run: "(case ev of Answer \<Rightarrow> f ?w | Refuse e \<Rightarrow> (Inl (Txt e), ?w) | LoseReply e \<Rightarrow> (Inl (Txt e), snd (f ?w))
        | Interrupt \<Rightarrow> (case ctx_err c (cancel_ctx OperatorCtx ?w) of Some e \<Rightarrow> (Inl e, cancel_ctx OperatorCtx ?w)
             | None \<Rightarrow> f (cancel_ctx OperatorCtx ?w))
        | OwnerIs x \<Rightarrow> f (?w\<lparr>w_owner := x\<rparr>)) = (r, v)"
      using assms(1) live Cons by (cases ev) (simp_all add: statement_def Let_def)
    show ?thesis
    proof (cases ev)
      case Interrupt
      then show ?thesis using run b(2) by (intro that [OF b(2)]) (auto split: option.splits)
    next
      case (LoseReply e)
      then show ?thesis using run by (intro that [OF b(1)]) (auto simp: prod_eq_iff)
    next
      case (OwnerIs x)
      then show ?thesis using assms(2) Cons by (auto simp: honest_def)
    qed (use run in \<open>auto intro: that [OF b(1)]\<close>)
  qed
qed

lemma statement_quiet:
  assumes "statement c f w = (r, v)" "honest w" "\<And>u. f u = (g u, u)"
  shows "beside w v"
  using statement_beside [OF assms(1,2)] assms(3) by (metis Pair_inject)

text \<open>What this process knows of its lock: with \<open>lock_sane k\<close>, an unmarked handle belongs to the owner.\<close>

definition holding :: "world \<Rightarrow> bool" where
  "holding w \<longleftrightarrow> (case w_lock w of None \<Rightarrow> False | Some l \<Rightarrow> lk_lost l = None)"

definition lock_sane :: "i64 \<Rightarrow> world \<Rightarrow> bool" where
  "lock_sane k w \<longleftrightarrow> (case w_lock w of None \<Rightarrow> True | Some l \<Rightarrow> lk_id l = k)"

text \<open>The owner changes only in favour of \<open>k\<close> when the lock was free, or from \<open>k\<close> to nobody.\<close>

definition fair :: "i64 \<Rightarrow> world \<Rightarrow> world \<Rightarrow> bool" where
  "fair k w v \<longleftrightarrow> w_owner v = w_owner w \<or> (w_owner w = None \<and> w_owner v = Some k) \<or>
     (w_owner w = Some k \<and> w_owner v = None \<and> \<not> holding v)"

lemma beside_fair: "beside w v \<Longrightarrow> lock_sane k v = lock_sane k w \<and> holding v = holding w \<and> fair k w v"
  by (simp add: beside_def lock_sane_def holding_def fair_def)

lemma lock_check_effect:
  assumes "lock_check l c w = (r, v)" "honest w" "w_lock w = Some l"
  shows "honest v \<and> w_owner v = w_owner w \<and>
    (case r of Inl _ \<Rightarrow> w_lock v = w_lock w \<or> (\<exists>e. w_lock v = Some (l\<lparr>lk_lost := Some e\<rparr>))
     | Inr _ \<Rightarrow> w_lock v = w_lock w \<and> w_owner v = Some (lk_id l) \<and> lk_lost l = None)"
proof (cases "lk_lost l \<noteq> None \<or> ctx_err c w \<noteq> None")
  case True
  then show ?thesis using assms by (auto simp: lock_check_def split: option.splits)
next
  case False
  obtain x u where st: "statement c (getA w_owner) w = (x, u)" by (cases "statement c (getA w_owner) w")
  have b: "beside w u" by (rule statement_quiet [OF st assms(2), where g = "\<lambda>u. Inr (w_owner u)"]) (simp add: getA_def)
  have ok: "owner = w_owner u" if "x = Inr owner" for owner
    using statement_beside [OF st assms(2)] that by (auto simp: getA_def)
  have lost: "honest (lose_lock l e u) = honest u" "w_owner (lose_lock l e u) = w_owner u"
    "\<exists>e'. w_lock (lose_lock l e u) = Some (l\<lparr>lk_lost := Some e'\<rparr>)" for e
    by (auto simp: lose_lock_def honest_def)
  show ?thesis
  proof (cases x)
    case (Inl e)
    then show ?thesis using assms(1) False st b lost by (auto simp: lock_check_def beside_def)
  next
    case (Inr owner)
    then show ?thesis
      using assms(1) False st b lost ok [OF Inr]
      by (auto simp: lock_check_def beside_def Let_def split: if_splits)
  qed
qed

text \<open>Hoare rules for worlds in which \<open>lock\<close> and \<open>owner\<close> are known.\<close>

abbreviation at_lock :: "lock_handle option \<Rightarrow> i64 option \<Rightarrow> world \<Rightarrow> bool" where
  "at_lock l owner w \<equiv> honest w \<and> w_lock w = l \<and> w_owner w = owner"

lemma hoare_quiet:
  assumes "\<And>u. f u = (Inr x, u)"
  shows "hoare (at_lock l owner) (statement c f) (\<lambda>y w. y = x \<and> at_lock l owner w) (\<lambda>_. at_lock l owner)"
proof (rule hoareI)
  fix w e v assume w: "at_lock l owner w" and run: "statement c f w = (Inl e, v)"
  show "at_lock l owner v" using statement_quiet [OF run _ assms] w by (auto simp: beside_def)
next
  fix w y v assume w: "at_lock l owner w" and run: "statement c f w = (Inr y, v)"
  have "beside w v" using statement_quiet [OF run _ assms] w by blast
  moreover have "y = x" using statement_beside [OF run] w assms by (metis Inl_Inr_False Inr_inject Pair_inject)
  ultimately show "y = x \<and> at_lock l owner v" using w by (auto simp: beside_def)
qed

definition taken :: "i64 \<Rightarrow> i64 option \<Rightarrow> i64 option" where
  "taken k owner = (if owner = None then Some k else owner)"

lemma hoare_get_lock:
  "hoare (at_lock l owner) (statement c (get_lock k))
     (\<lambda>got w. at_lock l (taken k owner) w \<and> (got = Some 1 \<longrightarrow> taken k owner = Some k))
     (\<lambda>_ w. at_lock l owner w \<or> at_lock l (taken k owner) w)"
proof -
  have eff: "honest (snd (get_lock k u)) \<and> w_lock (snd (get_lock k u)) = l \<and>
      w_owner (snd (get_lock k u)) = taken k owner \<and>
      (\<exists>x. fst (get_lock k u) = Inr x \<and> (x = Some 1 \<longrightarrow> taken k owner = Some k))"
    if "beside w u" "at_lock l owner w" for w u
    using that by (auto simp: get_lock_def taken_def beside_def honest_def)
  show ?thesis
  proof (rule hoareI)
    fix w e v assume w: "at_lock l owner w" and run: "statement c (get_lock k) w = (Inl e, v)"
    obtain u where u: "beside w u" "v = u \<or> v = snd (get_lock k u)"
      using statement_beside [OF run] w by (metis snd_conv)
    then show "at_lock l owner v \<or> at_lock l (taken k owner) v"
      using eff [OF u(1) w] w by (auto simp: beside_def)
  next
    fix w got v assume w: "at_lock l owner w" and run: "statement c (get_lock k) w = (Inr got, v)"
    obtain u where u: "beside w u" "get_lock k u = (Inr got, v)"
      using statement_beside [OF run] w by (metis Inl_Inr_False)
    then show "at_lock l (taken k owner) v \<and> (got = Some 1 \<longrightarrow> taken k owner = Some k)"
      using eff [OF u(1) w] by auto
  qed
qed

lemma acquire_spec:
  "hoare (at_lock l owner) (acquire c (database, k) operation)
     (\<lambda>_ w. l = None \<and> taken k owner = Some k \<and> at_lock (Some \<lparr>lk_id = k, lk_lost = None\<rparr>) (Some k) w)
     (\<lambda>_ w. at_lock l owner w \<or> at_lock l (taken k owner) w)"
proof (cases l)
  case (Some a)
  then show ?thesis by (simp add: hoare_def acquire_def act_defs)
next
  case None
  let ?E = "\<lambda>_ w. at_lock None owner w \<or> at_lock None (taken k owner) w"
  have "hoare (at_lock None owner) (acquire c (database, k) operation)
     (\<lambda>_ w. taken k owner = Some k \<and> at_lock (Some \<lparr>lk_id = k, lk_lost = None\<rparr>) (Some k) w) ?E"
    unfolding acquire_def
  proof (rule hoare_bind [where R = "\<lambda>held w. held = None \<and> at_lock None owner w"], rule hoare_get, simp,
      rule hoare_bind [where R = "\<lambda>_ w. at_lock None owner w"], rule hoare_failIf, simp, simp,
      rule hoare_bind [where R = "\<lambda>_ w. at_lock None owner w"])
    show "hoare (at_lock None owner) (statement c (ret ())) (\<lambda>_. at_lock None owner) ?E"
      by (rule hoare_weaken [OF hoare_quiet]) (auto simp: ret_def)
    show "hoare (at_lock None owner)
        (bindA (statement c (ret (database, k))) (\<lambda>(database, k).
           bindA (statement c (get_lock k)) (\<lambda>got.
           bindA (failIf (got \<noteq> Some 1) (Txt (''another command holds the execution lock for '' @ database @ ''; refusing '' @ operation)))
             (\<lambda>_. modifyA (\<lambda>w. w\<lparr>w_lock := Some \<lparr>lk_id = k, lk_lost = None\<rparr>\<rparr>)))))
        (\<lambda>_ w. taken k owner = Some k \<and> at_lock (Some \<lparr>lk_id = k, lk_lost = None\<rparr>) (Some k) w) ?E"
    proof (rule hoare_bind [where R = "\<lambda>x w. x = (database, k) \<and> at_lock None owner w"])
      show "hoare (at_lock None owner) (statement c (ret (database, k)))
          (\<lambda>x w. x = (database, k) \<and> at_lock None owner w) ?E"
        by (rule hoare_weaken [OF hoare_quiet]) (auto simp: ret_def)
    next
      fix x :: "string \<times> i64"
      show "hoare (\<lambda>w. x = (database, k) \<and> at_lock None owner w)
        (case x of (database, k) \<Rightarrow>
           bindA (statement c (get_lock k)) (\<lambda>got.
           bindA (failIf (got \<noteq> Some 1) (Txt (''another command holds the execution lock for '' @ database @ ''; refusing '' @ operation)))
             (\<lambda>_. modifyA (\<lambda>w. w\<lparr>w_lock := Some \<lparr>lk_id = k, lk_lost = None\<rparr>\<rparr>))))
        (\<lambda>_ w. taken k owner = Some k \<and> at_lock (Some \<lparr>lk_id = k, lk_lost = None\<rparr>) (Some k) w) ?E"
      proof (cases "x = (database, k)")
        case True
        show ?thesis
          unfolding True prod.case
          by (rule hoare_pre, rule hoare_bind [OF hoare_weaken [OF hoare_get_lock [of None owner c k]]],
              (assumption | simp)+, rule hoare_bind [where R = "\<lambda>_ w. at_lock None (taken k owner) w \<and> taken k owner = Some k"],
              rule hoare_failIf, simp, simp, rule hoare_modify, auto simp: honest_def)
      qed (auto simp: hoare_def)
    qed
  qed
  then show ?thesis using None by simp
qed

lemma lock_close_effect:
  assumes "lock_close l w = (e, v)" "honest w" "w_lock w = Some l"
  shows "honest v \<and> (\<exists>l'. w_lock v = Some l' \<and> lk_id l' = lk_id l \<and> lk_lost l' \<noteq> None) \<and>
    (w_owner v = w_owner w \<or> (w_owner w = Some (lk_id l) \<and> w_owner v = None))"
proof (cases "lk_lost l = Some Released")
  case True
  then show ?thesis using assms by (auto simp: lock_close_def)
next
  case False
  obtain r u where st: "statement Background (release_lock (lk_id l)) w = (r, u)"
    by (cases "statement Background (release_lock (lk_id l)) w")
  have v: "v = cancel_ctx LockCtx (u\<lparr>w_lock := Some (l\<lparr>lk_lost := Some Released\<rparr>)\<rparr>)"
    using assms(1) False st by (simp add: lock_close_def)
  obtain x where x: "beside w x" "u = x \<or> u = snd (release_lock (lk_id l) x)"
    using statement_beside [OF st assms(2)] by (metis snd_conv)
  then have "honest u \<and> (w_owner u = w_owner w \<or> (w_owner w = Some (lk_id l) \<and> w_owner u = None))"
    by (auto simp: release_lock_def beside_def honest_def split: if_splits)
  then show ?thesis by (simp add: v honest_def)
qed

section \<open>Processes that compete\<close>

text \<open>
  Each process has a session of its own; the state is the owner of the lock at the server and the
  processes. Any of them may acquire, check (its watcher does nothing else) or close at any time,
  with any answers of a server that keeps the lock; a session may end at any time, which frees its
  lock, and from then on only refuses.
\<close>

record process =
  pc_session :: i64
  pc_world :: world
  pc_alive :: bool

type_synonym contest = "i64 option \<times> process list"

definition seen :: "contest \<Rightarrow> nat \<Rightarrow> world" where
  "seen x i = (pc_world (snd x ! i))\<lparr>w_owner := fst x\<rparr>"

definition moved :: "contest \<Rightarrow> nat \<Rightarrow> world \<Rightarrow> contest" where
  "moved x i v = (w_owner v, (snd x)[i := (snd x ! i)\<lparr>pc_world := v\<rparr>])"

definition answers :: "contest \<Rightarrow> nat \<Rightarrow> bool" where
  "answers x i \<longleftrightarrow> i < length (snd x) \<and> honest (seen x i) \<and>
     (pc_alive (snd x ! i) \<or> (\<exists>e. w_script (seen x i) = [Refuse e]))"

inductive contend :: "contest \<Rightarrow> contest \<Rightarrow> bool" where
  acquires: "answers x i \<Longrightarrow> pc_alive (snd x ! i) \<Longrightarrow>
    acquire c (database, pc_session (snd x ! i)) operation (seen x i) = (r, v) \<Longrightarrow> contend x (moved x i v)"
| checks: "answers x i \<Longrightarrow> check_lock c (seen x i) = (r, v) \<Longrightarrow> contend x (moved x i v)"
| closes: "answers x i \<Longrightarrow> db_close pool (seen x i) = (e, v) \<Longrightarrow> contend x (moved x i v)"
| works: "i < length (snd x) \<Longrightarrow> w_lock v = w_lock (seen x i) \<Longrightarrow> w_owner v = w_owner (seen x i) \<Longrightarrow>
    contend x (moved x i v)"
| dies: "i < length (snd x) \<Longrightarrow> contend x
    (if fst x = Some (pc_session (snd x ! i)) then None else fst x, (snd x)[i := (snd x ! i)\<lparr>pc_alive := False\<rparr>])"

inductive contested :: "contest \<Rightarrow> bool" where
  start: "distinct (map pc_session ps) \<Longrightarrow> list_all (\<lambda>p. w_lock (pc_world p) = None \<and> pc_alive p) ps \<Longrightarrow>
    contested (owner, ps)"
| step: "contested x \<Longrightarrow> contend x y \<Longrightarrow> contested y"

definition contest_ok :: "contest \<Rightarrow> bool" where
  "contest_ok x \<longleftrightarrow> distinct (map pc_session (snd x)) \<and>
     (\<forall>p\<in>set (snd x). lock_sane (pc_session p) (pc_world p) \<and>
        (if pc_alive p then holding (pc_world p) \<longrightarrow> fst x = Some (pc_session p)
         else fst x \<noteq> Some (pc_session p)))"

lemma holding_seen [simp]:
  "holding (w\<lparr>w_owner := x\<rparr>) = holding w" "lock_sane k (w\<lparr>w_owner := x\<rparr>) = lock_sane k w"
  by (simp_all add: holding_def lock_sane_def)

text \<open>A process that changes the owner only fairly keeps the claims of the others.\<close>

lemma contest_move:
  assumes "contest_ok x" "i < length (snd x)" "fair (pc_session (snd x ! i)) (seen x i) v"
    and "lock_sane (pc_session (snd x ! i)) v"
    and "if pc_alive (snd x ! i) then holding v \<longrightarrow> w_owner v = Some (pc_session (snd x ! i))
         else w_owner v \<noteq> Some (pc_session (snd x ! i))"
  shows "contest_ok (moved x i v)"
proof -
  let ?ps = "snd x" and ?k = "pc_session (snd x ! i)"
  have sessions: "map pc_session (?ps[i := (?ps ! i)\<lparr>pc_world := v\<rparr>]) = map pc_session ?ps"
    using assms(2) by (simp add: map_update list_update_same_conv)
  have others: "pc_session (?ps ! j) \<noteq> ?k" if "j < length ?ps" "j \<noteq> i" for j
    using assms(1,2) that by (simp add: contest_ok_def distinct_conv_nth)
  show ?thesis
    unfolding contest_ok_def
  proof (intro conjI ballI)
    show "distinct (map pc_session (snd (moved x i v)))"
      using assms(1) by (simp add: moved_def sessions contest_ok_def)
  next
    fix p assume "p \<in> set (snd (moved x i v))"
    then obtain j where j: "j < length ?ps" and p: "p = (?ps[i := (?ps ! i)\<lparr>pc_world := v\<rparr>]) ! j"
      by (auto simp: moved_def in_set_conv_nth)
    have old: "lock_sane (pc_session (?ps ! j)) (pc_world (?ps ! j))"
      "if pc_alive (?ps ! j) then holding (pc_world (?ps ! j)) \<longrightarrow> fst x = Some (pc_session (?ps ! j))
         else fst x \<noteq> Some (pc_session (?ps ! j))"
      using assms(1) j by (auto simp: contest_ok_def)
    show "lock_sane (pc_session p) (pc_world p)" using p j assms(4) old by (cases "j = i") auto
    show "if pc_alive p then holding (pc_world p) \<longrightarrow> fst (moved x i v) = Some (pc_session p)
          else fst (moved x i v) \<noteq> Some (pc_session p)"
    proof (cases "j = i")
      case True
      then show ?thesis using p j assms(5) by (simp add: moved_def)
    next
      case False
      then show ?thesis using p j others [OF j False] assms(3) old
        by (auto simp: moved_def fair_def seen_def split: if_splits)
    qed
  qed
qed

lemma check_lock_effect:
  assumes "check_lock c w = (r, v)" "honest w" "lock_sane k w"
  shows "lock_sane k v \<and> w_owner v = w_owner w \<and> (holding v \<longrightarrow> holding w) \<and>
    (\<forall>x. r = Inr x \<longrightarrow> w_owner w = Some k \<and> holding w)"
proof (cases "w_lock w")
  case None
  then show ?thesis using assms by (auto simp: check_lock_def)
next
  case (Some l)
  then have "lock_check l c w = (r, v)" using assms(1) by (simp add: check_lock_def)
  from lock_check_effect [OF this assms(2) Some] show ?thesis
    using assms(3) Some by (auto simp: lock_sane_def holding_def split: sum.splits option.splits)
qed

lemma db_close_effect:
  assumes "db_close pool w = (e, v)" "honest w" "lock_sane k w"
  shows "lock_sane k v \<and> fair k w v \<and> \<not> holding v \<and> (w_owner v = w_owner w \<or> w_owner v = None)"
proof (cases "w_lock w")
  case None
  then show ?thesis using assms by (auto simp: db_close_def holding_def fair_def)
next
  case (Some l)
  obtain e1 u where u: "lock_close l w = (e1, u)" by (cases "lock_close l w")
  then have "v = u" using assms(1) Some by (simp add: db_close_def)
  then show ?thesis
    using lock_close_effect [OF u assms(2) Some] assms(3) Some
    by (auto simp: lock_sane_def holding_def fair_def)
qed

lemma acquire_effect:
  assumes "acquire c (database, k) operation w = (r, v)" "honest w" "lock_sane k w"
  shows "lock_sane k v \<and> fair k w v \<and> (holding v \<longrightarrow> (holding w \<and> w_owner v = taken k (w_owner w)) \<or>
    (holding w \<and> w_owner v = w_owner w) \<or> w_owner v = Some k)"
proof -
  have w: "at_lock (w_lock w) (w_owner w) w" using assms(2) by simp
  show ?thesis
  proof (cases r)
    case (Inl e)
    then have "at_lock (w_lock w) (w_owner w) v \<or> at_lock (w_lock w) (taken k (w_owner w)) v"
      using hoareD_err [OF acquire_spec w] assms(1) by simp
    then show ?thesis using assms(3)
      by (auto simp: lock_sane_def fair_def holding_def taken_def split: if_splits)
  next
    case (Inr x)
    then have "w_lock w = None \<and> taken k (w_owner w) = Some k \<and> at_lock (Some \<lparr>lk_id = k, lk_lost = None\<rparr>) (Some k) v"
      using hoareD_ok [OF acquire_spec w] assms(1) by simp
    then show ?thesis by (auto simp: lock_sane_def fair_def taken_def split: if_splits)
  qed
qed

lemma contend_ok: "contend x y \<Longrightarrow> contest_ok x \<Longrightarrow> contest_ok y"
proof (induction rule: contend.induct)
  case (acquires x i c database operation r v)
  have i: "i < length (snd x)" "honest (seen x i)" using acquires(1) by (auto simp: answers_def)
  have ok: "lock_sane (pc_session (snd x ! i)) (seen x i)"
      "holding (seen x i) \<Longrightarrow> fst x = Some (pc_session (snd x ! i))"
    using acquires(2,4) i(1) by (auto simp: contest_ok_def seen_def dest: nth_mem)
  note e = acquire_effect [OF acquires(3) i(2) ok(1)]
  show ?case
  proof (rule contest_move [OF acquires(4) i(1)])
    show "if pc_alive (snd x ! i) then holding v \<longrightarrow> w_owner v = Some (pc_session (snd x ! i))
          else w_owner v \<noteq> Some (pc_session (snd x ! i))"
      using e ok(2) acquires(2) by (auto simp: seen_def taken_def)
  qed (use e in auto)
next
  case (checks x i c r v)
  have i: "i < length (snd x)" "honest (seen x i)" using checks(1) by (auto simp: answers_def)
  have p: "snd x ! i \<in> set (snd x)" using i(1) by simp
  have ok: "lock_sane (pc_session (snd x ! i)) (seen x i)"
    using checks(3) p by (auto simp: contest_ok_def seen_def)
  note e = check_lock_effect [OF checks(2) i(2) ok]
  show ?case
  proof (rule contest_move [OF checks(3) i(1)])
    show "if pc_alive (snd x ! i) then holding v \<longrightarrow> w_owner v = Some (pc_session (snd x ! i))
          else w_owner v \<noteq> Some (pc_session (snd x ! i))"
      using e checks(3) p by (auto simp: contest_ok_def seen_def)
  qed (use e in \<open>auto simp: fair_def\<close>)
next
  case (closes x i pool e v)
  have i: "i < length (snd x)" "honest (seen x i)" using closes(1) by (auto simp: answers_def)
  have p: "snd x ! i \<in> set (snd x)" using i(1) by simp
  have ok: "lock_sane (pc_session (snd x ! i)) (seen x i)"
    using closes(3) p by (auto simp: contest_ok_def seen_def)
  note e = db_close_effect [OF closes(2) i(2) ok]
  show ?case
  proof (rule contest_move [OF closes(3) i(1)])
    have "w_owner v \<noteq> Some (pc_session (snd x ! i))" if "\<not> pc_alive (snd x ! i)"
      using e that closes(3) p by (auto simp: contest_ok_def seen_def)
    then show "if pc_alive (snd x ! i) then holding v \<longrightarrow> w_owner v = Some (pc_session (snd x ! i))
          else w_owner v \<noteq> Some (pc_session (snd x ! i))"
      using e by simp
  qed (use e in auto)
next
  case (works i x v)
  have p: "snd x ! i \<in> set (snd x)" using works(1) by simp
  have same: "holding v = holding (pc_world (snd x ! i))"
      "lock_sane k v = lock_sane k (pc_world (snd x ! i))" for k
    using works(2) by (simp_all add: holding_def lock_sane_def seen_def)
  show ?case
    by (rule contest_move [OF works(4,1)])
      (use works(3,4) p same in \<open>auto simp: contest_ok_def fair_def seen_def\<close>)
next
  case (dies i x)
  let ?k = "pc_session (snd x ! i)"
  have sessions: "map pc_session ((snd x)[i := (snd x ! i)\<lparr>pc_alive := False\<rparr>]) = map pc_session (snd x)"
    using dies(1) by (simp add: map_update list_update_same_conv)
  have others: "pc_session (snd x ! j) \<noteq> ?k" if "j < length (snd x)" "j \<noteq> i" for j
    using dies that by (simp add: contest_ok_def distinct_conv_nth)
  have "lock_sane (pc_session p) (pc_world p) \<and>
      (if pc_alive p then holding (pc_world p) \<longrightarrow> (if fst x = Some ?k then None else fst x) = Some (pc_session p)
       else (if fst x = Some ?k then None else fst x) \<noteq> Some (pc_session p))"
    if mem: "p \<in> set ((snd x)[i := (snd x ! i)\<lparr>pc_alive := False\<rparr>])" for p
  proof -
    obtain j where j: "j < length (snd x)" "p = (snd x)[i := (snd x ! i)\<lparr>pc_alive := False\<rparr>] ! j"
      using mem [unfolded in_set_conv_nth] unfolding length_list_update by blast
    have old: "lock_sane (pc_session (snd x ! j)) (pc_world (snd x ! j)) \<and>
        (if pc_alive (snd x ! j) then holding (pc_world (snd x ! j)) \<longrightarrow> fst x = Some (pc_session (snd x ! j))
         else fst x \<noteq> Some (pc_session (snd x ! j)))"
      using dies(2) j(1) by (auto simp: contest_ok_def)
    show ?thesis using old j others [of j] by (cases "j = i") (auto split: if_splits)
  qed
  then show ?case using dies(2) unfolding contest_ok_def fst_conv snd_conv sessions by blast
qed

lemma contested_ok: "contested x \<Longrightarrow> contest_ok x"
proof (induction rule: contested.induct)
  case (start ps owner)
  then show ?case by (auto simp: contest_ok_def lock_sane_def holding_def list_all_iff)
qed (rule contend_ok)

section \<open>Exclusion\<close>

text \<open>C26. The execution lock excludes: while a process that competes for it passes a check, its session is
  alive and no other process with a live session has a lock that it does not know to be lost; and
  from the state it leaves, a check by any other process fails.\<close>

theorem lock_exclusive:
  assumes "contested x" "answers x i" "check_lock c (seen x i) = (Inr (), v)"
    and "j < length (snd x)" "j \<noteq> i"
  shows "pc_alive (snd x ! i) \<and> \<not> (pc_alive (snd x ! j) \<and> holding (seen x j)) \<and>
    (answers (moved x i v) j \<longrightarrow> fst (check_lock d (seen (moved x i v) j)) \<noteq> Inr ())"
proof -
  have ok: "contest_ok x" by (rule contested_ok [OF assms(1)])
  have i: "i < length (snd x)" "honest (seen x i)" using assms(2) by (auto simp: answers_def)
  have p: "snd x ! i \<in> set (snd x)" "snd x ! j \<in> set (snd x)" using i(1) assms(4) by simp_all
  have sane: "lock_sane (pc_session (snd x ! i)) (seen x i)"
    using ok p by (auto simp: contest_ok_def seen_def)
  have mine: "fst x = Some (pc_session (snd x ! i))" "w_owner v = fst x"
    using check_lock_effect [OF assms(3) i(2) sane] by (auto simp: seen_def)
  have differ: "pc_session (snd x ! j) \<noteq> pc_session (snd x ! i)"
    using ok i(1) assms(4,5) by (simp add: contest_ok_def distinct_conv_nth)
  have inv: "if pc_alive q then holding (pc_world q) \<longrightarrow> fst x = Some (pc_session q) else fst x \<noteq> Some (pc_session q)"
    if "q \<in> set (snd x)" for q
    using ok that by (simp add: contest_ok_def)
  have "pc_alive (snd x ! i) \<and> \<not> (pc_alive (snd x ! j) \<and> holding (seen x j))"
    using inv [OF p(1)] inv [OF p(2)] mine(1) differ by (auto simp: seen_def split: if_splits)
  moreover have "fst (check_lock d (seen (moved x i v) j)) \<noteq> Inr ()" if "answers (moved x i v) j"
  proof
    assume "fst (check_lock d (seen (moved x i v) j)) = Inr ()"
    then obtain u where run: "check_lock d (seen (moved x i v) j) = (Inr (), u)" by (metis surj_pair fst_conv)
    have j: "seen (moved x i v) j = (pc_world (snd x ! j))\<lparr>w_owner := w_owner v\<rparr>"
      using assms(5) by (simp add: seen_def moved_def)
    have "lock_sane (pc_session (snd x ! j)) (seen (moved x i v) j)"
      using ok p(2) by (simp add: j contest_ok_def)
    from check_lock_effect [OF run _ this] that mine differ j show False by (auto simp: answers_def)
  qed
  ultimately show ?thesis by blast
qed

text \<open>Two processes with the sessions 7 and 8; the first takes the lock, the second finds it taken.\<close>

definition ex_rival :: "i64 \<Rightarrow> process" where
  "ex_rival k = \<lparr>pc_session = k, pc_world = \<lparr>w_db = empty_db, w_now = 0, w_owner = None, w_lock = None,
     w_cancelled = [], w_script = []\<rparr>, pc_alive = True\<rparr>"

definition ex_locked :: world where
  "ex_locked = \<lparr>w_db = empty_db, w_now = 0, w_owner = Some 7, w_lock = Some \<lparr>lk_id = 7, lk_lost = None\<rparr>,
     w_cancelled = [], w_script = []\<rparr>"

lemmas ex_lock_defs = ex_rival_def ex_locked_def seen_def moved_def acquire_def act_defs statement_def
  ctx_err_def get_lock_def answers_def honest_def

lemma ex_contested: "contested (Some 7, [(ex_rival 7)\<lparr>pc_world := ex_locked\<rparr>, ex_rival 8])"
proof -
  have 1: "contested (None, [ex_rival 7, ex_rival 8])"
    by (rule contested.start) (simp_all add: ex_rival_def)
  have "contend (None, [ex_rival 7, ex_rival 8]) (moved (None, [ex_rival 7, ex_rival 8]) 0 ex_locked)"
    by (rule contend.acquires [where c = OperatorCtx and database = "''limewire_purge''" and operation = "''scan''" and r = "Inr ()"])
      (simp_all add: ex_lock_defs)
  from contested.step [OF 1 this] show ?thesis by (simp add: moved_def ex_locked_def)
qed

lemma ex_contested_check: "check_lock LockCtx ex_locked = (Inr (), ex_locked)"
  by (simp add: check_lock_def lock_check_def ex_lock_defs)

theorem lock_exclusive_witness:
  "\<not> holding (pc_world (ex_rival 8)) \<and>
   fst (check_lock LockCtx ((pc_world (ex_rival 8))\<lparr>w_owner := Some 7\<rparr>)) \<noteq> Inr ()"
proof -
  let ?x = "(Some 7, [(ex_rival 7)\<lparr>pc_world := ex_locked\<rparr>, ex_rival 8])"
  have "seen ?x 0 = ex_locked" "answers ?x 0" "answers (moved ?x 0 ex_locked) 1"
    "seen (moved ?x 0 ex_locked) 1 = (pc_world (ex_rival 8))\<lparr>w_owner := Some 7\<rparr>"
    "pc_alive (ex_rival 8)" "holding (seen ?x 1) = holding (pc_world (ex_rival 8))"
    by (simp_all add: ex_lock_defs holding_def)
  then show ?thesis
    using lock_exclusive [OF ex_contested _ _ _ one_neq_zero, where v = ex_locked and c = LockCtx and d = LockCtx] ex_contested_check
    by (simp del: seen_def)
qed

end
