(* ===== verification/Deadline.thy ===== *)
theory Deadline
  imports GoStrings
begin

text \<open>
  Calls with a deadline and their retries, \<^verbatim>\<open>internal/deadline/deadline.go\<close>. A call runs in a
  goroutine of its own, so it may be abandoned: what it does to the world is seen with the case that
  \<^verbatim>\<open>select\<close> takes. Go's pair of a value and an error is kept as a pair, since callers use the value
  beside an error.
\<close>

section \<open>One call\<close>

text \<open>\<^verbatim>\<open>ErrTimeout\<close>\<close>

definition ErrTimeout :: err where
  "ErrTimeout = Sentinel ''timed out''"

text \<open>
  What surrounds a call: the caller's \<^verbatim>\<open>ctx.Err()\<close>, whether the call's own context is past its
  deadline, the deadline printed with \<^verbatim>\<open>%s\<close>, and the pause after the \<open>i\<close>-th attempt, which returns
  the error of a cancelled context or nothing.
\<close>

record 'w timing =
  tm_err :: "'w \<Rightarrow> err option"
  tm_late :: "'w \<Rightarrow> bool"
  tm_limit :: string
  tm_pause :: "int \<Rightarrow> ('w, unit) act"

text \<open>A function run by a call: \<open>None\<close> when \<^verbatim>\<open>cctx.Done()\<close> is taken before its result.\<close>

type_synonym ('w, 'a) request = "'w \<Rightarrow> ('a \<times> err option) option \<times> 'w"
type_synonym ('w, 'a) reply = "('a \<times> err option) \<times> 'w"

definition deadline_call :: "'w timing \<Rightarrow> 'a \<Rightarrow> ('w, 'a) request \<Rightarrow> 'w \<Rightarrow> ('w, 'a) reply" where
  "deadline_call tm zero f w =
     (case f w of
        (Some (v, e), w) \<Rightarrow>
          ((case e of
              Some x \<Rightarrow>
                if tm_err tm w = None \<and> tm_late tm w
                then (zero, Some (Cat ErrTimeout (Txt ('' after '' @ tm_limit tm @ '': '' @ err_text x))))
                else (v, e)
            | None \<Rightarrow> (v, e)), w)
      | (None, w) \<Rightarrow>
          ((case tm_err tm w of
              Some e \<Rightarrow> (zero, Some e)
            | None \<Rightarrow> (zero, Some (Cat ErrTimeout (Txt ('' after '' @ tm_limit tm))))), w))"

section \<open>Retries\<close>

text \<open>The loop of \<^verbatim>\<open>RetryIf\<close> from attempt \<open>i\<close> on.\<close>

function retry_from ::
  "'w timing \<Rightarrow> 'a \<Rightarrow> (err \<Rightarrow> bool) \<Rightarrow> ('w, 'a) request \<Rightarrow> int \<Rightarrow> int \<Rightarrow> 'w \<Rightarrow> ('w, 'a) reply" where
  "retry_from tm zero retryable f attempts i w =
     (case tm_err tm w of
        Some e \<Rightarrow> ((zero, Some e), w)
      | None \<Rightarrow>
          (case deadline_call tm zero f w of
             ((v, e), w) \<Rightarrow>
               if e = None \<or> \<not> retryable (the e) \<or> i \<ge> attempts \<or> tm_err tm w \<noteq> None then ((v, e), w)
               else (case tm_pause tm i w of
                       (Inl x, w) \<Rightarrow> ((v, Some x), w)
                     | (Inr _, w) \<Rightarrow> retry_from tm zero retryable f attempts (i + 1) w)))"
  by pat_completeness auto
termination
  by (relation "measure (\<lambda>(tm, zero, retryable, f, attempts, i, w). nat (attempts - i))") auto

declare retry_from.simps [simp del]

definition retry_if :: "'w timing \<Rightarrow> 'a \<Rightarrow> int \<Rightarrow> (err \<Rightarrow> bool) \<Rightarrow> ('w, 'a) request \<Rightarrow> 'w \<Rightarrow> ('w, 'a) reply" where
  "retry_if tm zero attempts retryable f = retry_from tm zero retryable f (if attempts < 1 then 1 else attempts) 1"

text \<open>\<^verbatim>\<open>Retry\<close>\<close>

definition retry_timeouts :: "'w timing \<Rightarrow> 'a \<Rightarrow> int \<Rightarrow> ('w, 'a) request \<Rightarrow> 'w \<Rightarrow> ('w, 'a) reply" where
  "retry_timeouts tm zero attempts = retry_if tm zero attempts (\<lambda>e. err_is e ErrTimeout)"

section \<open>Lemmas\<close>

lemma deadline_call_ok:
  "deadline_call tm zero f w = ((v, None), u) \<Longrightarrow> f w = (Some (v, None), u)"
  by (auto simp: deadline_call_def split: prod.splits option.splits if_splits)

text \<open>A measure of the world that each run of \<open>f\<close> raises by at most one, such as the number of
  requests sent, is raised by at most the number of attempts.\<close>

definition costs :: "('w \<Rightarrow> nat) \<Rightarrow> nat \<Rightarrow> ('w \<Rightarrow> 'x \<times> 'w) \<Rightarrow> bool" where
  "costs n k f \<longleftrightarrow> (\<forall>w. n (snd (f w)) \<le> n w + k)"

lemma costsD: "costs n k f \<Longrightarrow> f w = (x, v) \<Longrightarrow> n v \<le> n w + k"
  by (metis costs_def snd_conv)

lemma deadline_call_world: "snd (deadline_call tm zero f w) = snd (f w)"
  by (auto simp: deadline_call_def split: prod.splits option.splits)

text \<open>What happens in one attempt: it ends the loop, or the pause leads to the next one.\<close>

lemma retry_from_step:
  assumes "retry_from tm zero retryable f attempts i w = ((v, e), u)"
  obtains (cancelled) x where "tm_err tm w = Some x" "v = zero" "e = Some x" "u = w"
  | (ended) "tm_err tm w = None" "deadline_call tm zero f w = ((v, e), u)"
      "e = None \<or> \<not> retryable (the e) \<or> i \<ge> attempts \<or> tm_err tm u \<noteq> None"
  | (interrupted) x y u' where "tm_err tm w = None" "deadline_call tm zero f w = ((v, Some y), u')" "retryable y"
      "i < attempts" "tm_pause tm i u' = (Inl x, u)" "e = Some x"
  | (again) v' y u' u'' where "tm_err tm w = None" "deadline_call tm zero f w = ((v', Some y), u')" "retryable y"
      "i < attempts" "tm_pause tm i u' = (Inr (), u'')" "retry_from tm zero retryable f attempts (i + 1) u'' = ((v, e), u)"
proof (cases "tm_err tm w")
  case (Some x)
  then show ?thesis using assms that(1) [OF Some] by (simp add: retry_from.simps [of tm zero retryable f attempts i w])
next
  case None
  obtain v' e' u' where call: "deadline_call tm zero f w = ((v', e'), u')" by (metis surj_pair)
  show ?thesis
  proof (cases "e' = None \<or> \<not> retryable (the e') \<or> i \<ge> attempts \<or> tm_err tm u' \<noteq> None")
    case True
    then show ?thesis using assms None call that(2) by (simp add: retry_from.simps [of tm zero retryable f attempts i w])
  next
    case False
    then obtain y where y: "e' = Some y" "retryable y" "i < attempts" by auto
    obtain p u'' where pause: "tm_pause tm i u' = (p, u'')" by (cases "tm_pause tm i u'")
    have run: "(case p of Inl x \<Rightarrow> ((v', Some x), u'') | Inr _ \<Rightarrow> retry_from tm zero retryable f attempts (i + 1) u'') = ((v, e), u)"
      using assms None call False pause by (auto simp: retry_from.simps [of tm zero retryable f attempts i w] split: sum.splits)
    show ?thesis
    proof (cases p)
      case (Inl x)
      then show ?thesis using run y None call pause by (intro that(3)) auto
    next
      case (Inr z)
      then show ?thesis using run y None call pause by (intro that(4)) auto
    qed
  qed
qed

lemma retry_from_costs:
  assumes "costs n k f" "\<And>i. costs n 0 (tm_pause tm i)"
  shows "i \<le> attempts \<Longrightarrow> retry_from tm zero retryable f attempts i w = ((v, e), u) \<Longrightarrow>
    n u \<le> n w + nat (attempts - i + 1) * k"
proof (induction "nat (attempts - i)" arbitrary: i w rule: less_induct)
  case less
  have call: "n z \<le> n w + k" if "deadline_call tm zero f w = (y, z)" for y z
    using costsD [OF assms(1), of w "fst (f w)" "snd (f w)"] deadline_call_world [of tm zero f w] that by simp
  have "1 \<le> nat (attempts - i + 1)" using less.prems(1) by linarith
  then have one: "k \<le> nat (attempts - i + 1) * k" by simp
  show ?case
    using less.prems(2)
  proof (cases rule: retry_from_step)
    case (interrupted x y u')
    then show ?thesis using call [OF interrupted(2)] costsD [OF assms(2) interrupted(5)] one by linarith
  next
    case (again v' y u' u'')
    have "n u \<le> n u'' + nat (attempts - (i + 1) + 1) * k"
      by (rule less.hyps [OF _ _ again(6)]) (use again(4) in auto)
    moreover have "n u'' \<le> n w + k" using call [OF again(2)] costsD [OF assms(2) again(5)] by simp
    moreover have "nat (attempts - i + 1) * k = nat (attempts - (i + 1) + 1) * k + k"
    proof -
      have "nat (attempts - i + 1) = Suc (nat (attempts - (i + 1) + 1))" using again(4) by simp
      then show ?thesis by simp
    qed
    ultimately show ?thesis by simp
  next
    case ended
    then show ?thesis using call [OF ended(2)] one by linarith
  qed (use one in simp)
qed

text \<open>A result without an error is one that the function gave.\<close>

lemma retry_from_ok:
  "i \<le> attempts \<Longrightarrow> retry_from tm zero retryable f attempts i w = ((v, None), u) \<Longrightarrow> \<exists>u'. f u' = (Some (v, None), u)"
proof (induction "nat (attempts - i)" arbitrary: i w rule: less_induct)
  case less
  show ?case
    using less.prems(2)
  proof (cases rule: retry_from_step)
    case ended
    then show ?thesis using deadline_call_ok by fast
  next
    case (again v' y u' u'')
    show ?thesis by (rule less.hyps [OF _ _ again(6)]) (use again(4) in auto)
  qed auto
qed

lemma retry_if_costs:
  assumes "costs n k f" "\<And>i. costs n 0 (tm_pause tm i)" "retry_if tm zero attempts retryable f w = ((v, e), u)"
  shows "n u \<le> n w + nat (max 1 attempts) * k"
  using retry_from_costs [OF assms(1,2) _ assms(3) [unfolded retry_if_def]] by (auto split: if_splits simp: max_def)

lemma retry_if_ok:
  "retry_if tm zero attempts retryable f w = ((v, None), u) \<Longrightarrow> \<exists>u'. f u' = (Some (v, None), u)"
  unfolding retry_if_def by (rule retry_from_ok [rotated]) auto

text \<open>An error that is not retryable ends the loop at once.\<close>

lemma retry_if_once:
  assumes "tm_err tm w = None" "deadline_call tm zero f w = ((v, Some e), u)" "\<not> retryable e"
  shows "retry_if tm zero attempts retryable f w = ((v, Some e), u)"
  using assms by (simp add: retry_if_def retry_from.simps)

end
