(* ===== verification/ChainClient.thy ===== *)
theory ChainClient
  imports Deadline PurgeObject
begin

text \<open>
  The chain lookups, \<^verbatim>\<open>internal/chain/chain.go\<close>, and the adapter by which a deletion run uses them
  (\<^verbatim>\<open>chainAdapter\<close> of \<^verbatim>\<open>cmd/limewire-purge/main.go\<close>). The SDK's query client is the record \<open>chain_node\<close>;
  which errors are \<^verbatim>\<open>net.Error\<close>s that say they are temporary is the parameter \<open>cc_net\<close>.
\<close>

section \<open>The client\<close>

record object_info =
  oi_id :: u64
  oi_bucket :: string
  oi_status :: string
  oi_version :: i64
  oi_payload :: u64

text \<open>Each query answers a response or an error; the object and the bucket may be missing in a response.\<close>

record 'w chain_node =
  cn_head_object :: "string \<Rightarrow> ('w, object_info option) request"
  cn_params :: "('w, u32 \<times> u64) request"
  cn_head_bucket :: "string \<Rightarrow> ('w, u64 option) request"

record 'w chain_client =
  cc_node :: "'w chain_node"
  cc_timing :: "'w timing"
  cc_net :: "err \<Rightarrow> bool"

record chain_head =
  ch_id :: u64
  ch_bucket :: string
  ch_status :: string
  ch_version :: i64
  ch_payload :: u64

text \<open>\<^verbatim>\<open>New\<close> completes an endpoint without a scheme.\<close>

definition rpc_url :: "string \<Rightarrow> string" where
  "rpc_url endpoint = (if \<not> contains endpoint ''://'' then ''https://'' @ endpoint else endpoint)"

section \<open>Which errors are transient\<close>

text \<open>
  \<^verbatim>\<open>strings.ToLower\<close>, exact on every text that is looked for here: the letters A to Z, and the Kelvin
  sign and the dotted capital I, the only other characters whose lower case is ASCII. Further letters
  stay what they are.
\<close>

definition lower_rune :: "string \<Rightarrow> string" where
  "lower_rune r =
     (case r of
        [c] \<Rightarrow> if 65 \<le> (of_char c :: nat) \<and> (of_char c :: nat) \<le> 90 then [char_of (of_char c + 32 :: nat)] else [c]
      | _ \<Rightarrow> if map of_char r = [226, 132, 170 :: nat] then ''k''
             else if map of_char r = [196, 176 :: nat] then ''i'' else r)"

definition go_lower :: "string \<Rightarrow> string" where
  "go_lower s = concat (map lower_rune (runes s))"

text \<open>\<^verbatim>\<open>io.EOF\<close> and \<^verbatim>\<open>io.ErrUnexpectedEOF\<close>\<close>

definition IoEOF :: err where
  "IoEOF = Sentinel ''EOF''"

definition ErrUnexpectedEOF :: err where
  "ErrUnexpectedEOF = Sentinel ''unexpected EOF''"

definition is_timeout :: "err \<Rightarrow> bool" where
  "is_timeout e \<longleftrightarrow> contains (err_text e) ''Client.Timeout exceeded'' \<or>
     contains (err_text e) ''context deadline exceeded''"

definition transient_markers :: "string list" where
  "transient_markers = [''temporary rpc http status '', ''connection refused'', ''connection reset by peer'',
     ''broken pipe'', ''unexpected eof'', ''i/o timeout'', ''temporary failure in name resolution'']"

definition is_transient :: "(err \<Rightarrow> bool) \<Rightarrow> err \<Rightarrow> bool" where
  "is_transient net e =
     (if err_is e CtxCanceled then False
      else if err_is e ErrTimeout \<or> is_timeout e \<or> err_is e IoEOF \<or> err_is e ErrUnexpectedEOF then True
      else if net e then True
      else let s = go_lower (err_text e) in
           if list_ex (contains s) transient_markers then True else suffix '': eof'' s)"

text \<open>\<^verbatim>\<open>RoundTrip\<close>: a response is its status and the rest; a bad status becomes an error.\<close>

definition round_trip :: "('w, int \<times> 'b) act \<Rightarrow> ('w, int \<times> 'b) act" where
  "round_trip base =
     bindA base (\<lambda>(status, rest).
       if status = 429 \<or> (500 \<le> status \<and> status \<le> 599)
       then throw (Txt (''temporary RPC HTTP status '' @ dec_int status))
       else ret (status, rest))"

section \<open>The lookups\<close>

definition mark_timeout :: "('w, 'a) request \<Rightarrow> ('w, 'a) request" where
  "mark_timeout f w =
     (case f w of
        (Some (v, Some e), w) \<Rightarrow>
          (Some (if is_timeout e then (v, Some (Cat ErrTimeout (Txt ('': '' @ err_text e)))) else (v, Some e)), w)
      | (r, w) \<Rightarrow> (r, w))"

definition chain_call :: "'w chain_client \<Rightarrow> 'a \<Rightarrow> ('w, 'a) request \<Rightarrow> 'w \<Rightarrow> ('w, 'a) reply" where
  "chain_call c zero f = retry_if (cc_timing c) zero 3 (is_transient (cc_net c)) (mark_timeout f)"

text \<open>A query and what is made of its response.\<close>

definition answered :: "'b \<Rightarrow> ('a \<Rightarrow> 'b \<times> err option) \<Rightarrow> ('w, 'a) request \<Rightarrow> ('w, 'b) request" where
  "answered zero g ask w =
     (case ask w of
        (None, w) \<Rightarrow> (None, w)
      | (Some (resp, Some e), w) \<Rightarrow> (Some (zero, Some e), w)
      | (Some (resp, None), w) \<Rightarrow> (Some (g resp), w))"

definition to_head :: "object_info \<Rightarrow> chain_head" where
  "to_head oi = \<lparr>ch_id = oi_id oi, ch_bucket = oi_bucket oi, ch_status = trim_prefix (oi_status oi) ''OBJECT_STATUS_'',
     ch_version = oi_version oi, ch_payload = oi_payload oi\<rparr>"

definition head_object_by_id :: "'w chain_client \<Rightarrow> u64 \<Rightarrow> 'w \<Rightarrow> ('w, chain_head option) reply" where
  "head_object_by_id c oid =
     chain_call c None (answered None
       (\<lambda>info. case info of
          None \<Rightarrow> (None, Some (Txt (''head_object_by_id '' @ dec (unat oid) @ '': empty object info'')))
        | Some oi \<Rightarrow> (Some (to_head oi), None))
       (cn_head_object (cc_node c) (dec (unat oid))))"

definition redundancy_params :: "'w chain_client \<Rightarrow> 'w \<Rightarrow> ('w, u32 \<times> u64) reply" where
  "redundancy_params c = chain_call c (0, 0) (answered (0, 0) (\<lambda>p. (p, None)) (cn_params (cc_node c)))"

definition head_bucket_id :: "'w chain_client \<Rightarrow> string \<Rightarrow> 'w \<Rightarrow> ('w, u64) reply" where
  "head_bucket_id c name =
     chain_call c 0 (answered 0
       (\<lambda>info. case info of
          None \<Rightarrow> (0, Some (Txt (''head_bucket '' @ name @ '': empty bucket info'')))
        | Some k \<Rightarrow> (k, None))
       (cn_head_bucket (cc_node c) name))"

text \<open>
  \<^verbatim>\<open>chainAdapter.HeadObject\<close>. Without an error it dereferences the head; a nil one would be a panic,
  which is shown never to happen.
\<close>

definition nil_dereference :: err where
  "nil_dereference = Txt ''runtime error: invalid memory address or nil pointer dereference''"

definition adapter_head :: "'w chain_client \<Rightarrow> u64 \<Rightarrow> ('w, object_head) act" where
  "adapter_head c oid w =
     (case head_object_by_id c oid w of
        ((_, Some e), w) \<Rightarrow> (Inl e, w)
      | ((None, None), w) \<Rightarrow> (Inl nil_dereference, w)
      | ((Some h, None), w) \<Rightarrow>
          (Inr \<lparr>oh_id = ch_id h, oh_bucket = ch_bucket h, oh_status = ch_status h, oh_version = ch_version h,
             oh_payload = ch_payload h\<rparr>, w))"

section \<open>What a lookup costs and answers\<close>

lemma answered_world: "snd (answered zero g ask w) = snd (ask w)"
  by (auto simp: answered_def split: prod.splits option.splits)

lemma mark_timeout_world: "snd (mark_timeout f w) = snd (f w)"
  by (auto simp: mark_timeout_def split: prod.splits option.splits)

lemma mark_timeout_ok: "mark_timeout f w = (Some (v, None), u) \<longleftrightarrow> f w = (Some (v, None), u)"
  by (auto simp: mark_timeout_def split: prod.splits option.splits if_splits)

lemma chain_call_costs:
  assumes "costs n 1 ask" "\<And>i. costs n 0 (tm_pause (cc_timing c) i)"
    and "chain_call c zero (answered z g ask) w = ((v, e), u)"
  shows "n u \<le> n w + 3"
proof -
  have "costs n 1 (mark_timeout (answered z g ask))"
    using assms(1) by (simp add: costs_def mark_timeout_world answered_world)
  from retry_if_costs [OF this assms(2) assms(3) [unfolded chain_call_def]] show ?thesis by simp
qed

lemma chain_call_ok:
  assumes "chain_call c zero (answered z g ask) w = ((v, None), u)"
  obtains u' resp where "ask u' = (Some (resp, None), u)" "g resp = (v, None)"
proof -
  obtain u' where "answered z g ask u' = (Some (v, None), u)"
    using retry_if_ok [OF assms [unfolded chain_call_def]] by (auto simp: mark_timeout_ok)
  then show ?thesis using that by (auto simp: answered_def split: prod.splits option.splits)
qed

lemma head_object_ok:
  assumes "head_object_by_id c oid w = ((h, None), v)"
  obtains oi u where "cn_head_object (cc_node c) (dec (unat oid)) u = (Some (Some oi, None), v)" "h = Some (to_head oi)"
proof -
  from assms [unfolded head_object_by_id_def] obtain u resp
    where "cn_head_object (cc_node c) (dec (unat oid)) u = (Some (resp, None), v)"
      and "(case resp of None \<Rightarrow> (None, Some (Txt (''head_object_by_id '' @ dec (unat oid) @ '': empty object info'')))
        | Some oi \<Rightarrow> (Some (to_head oi), None)) = (h, None)"
    by (rule chain_call_ok)
  then show ?thesis using that by (auto split: option.splits)
qed

lemma adapter_head_ok:
  assumes "adapter_head c oid w = (Inr h, v)"
  obtains oi u where "cn_head_object (cc_node c) (dec (unat oid)) u = (Some (Some oi, None), v)"
    "oh_id h = oi_id oi" "oh_bucket h = oi_bucket oi" "oh_status h = trim_prefix (oi_status oi) ''OBJECT_STATUS_''"
    "oh_version h = oi_version oi" "oh_payload h = oi_payload oi"
proof -
  obtain x e u where run: "head_object_by_id c oid w = ((x, e), u)" by (metis surj_pair)
  then have e: "e = None" "u = v" using assms by (auto simp: adapter_head_def split: option.splits)
  obtain oi u' where oi: "cn_head_object (cc_node c) (dec (unat oid)) u' = (Some (Some oi, None), v)" "x = Some (to_head oi)"
    using head_object_ok run e by metis
  show ?thesis
    by (rule that [OF oi(1)]) (use assms run e oi(2) in \<open>auto simp: adapter_head_def to_head_def\<close>)
qed

text \<open>The adapter never dereferences a nil head.\<close>

lemma adapter_head_never_nil: "head_object_by_id c oid w \<noteq> ((None, None), v)"
  by (auto elim: head_object_ok)

lemma identity_diff_none:
  "identity_diff c h bucket = [] \<longleftrightarrow> oh_id h = cl_oid c \<and> oh_bucket h = bucket \<and> oh_status h = cl_status c \<and>
     oh_version h = cl_version c \<and> oh_payload h = cl_payload c"
  by (auto simp: identity_diff_def)

section \<open>Bad statuses are transient\<close>

lemma contains_lower:
  assumes "contains s p" "p \<noteq> []" "list_all (\<lambda>c. (of_char c :: nat) < 128) p"
  shows "contains (go_lower s) (concat (map (\<lambda>c. lower_rune [c]) p))"
proof -
  obtain xs ys where s: "s = xs @ p @ ys" using assms(1) by (auto simp: contains_def sublist_def)
  obtain c q where p: "p = c # q" using assms(2) by (cases p) auto
  have "runes s = runes xs @ map (\<lambda>c. [c]) p @ runes ys"
    using runes_ascii_word [of c q xs ys] assms(3) by (simp only: s p)
  then have "go_lower s = go_lower xs @ concat (map (\<lambda>c. lower_rune [c]) p) @ go_lower ys"
    by (simp add: go_lower_def comp_def)
  then show ?thesis by (auto simp: contains_def sublist_def)
qed

lemma status_text_transient:
  assumes "contains (err_text e) ''temporary RPC HTTP status ''" "\<not> err_is e CtxCanceled"
  shows "is_transient net e"
proof -
  have "concat (map (\<lambda>c. lower_rune [c]) ''temporary RPC HTTP status '') = ''temporary rpc http status ''"
    by code_simp
  then have "contains (go_lower (err_text e)) ''temporary rpc http status ''"
    using contains_lower [OF assms(1)] by simp
  then show ?thesis using assms(2) by (simp add: is_transient_def Let_def transient_markers_def)
qed

section \<open>Properties\<close>

text \<open>C29. No lookup sends more than three requests to the chain, however it fails: counted by any measure
  that a request raises by at most one and a pause leaves alone.\<close>

theorem chain_queries_bounded:
  assumes "\<And>k. costs n 1 (cn_head_object (cc_node c) k)" "costs n 1 (cn_params (cc_node c))"
    and "\<And>k. costs n 1 (cn_head_bucket (cc_node c) k)" "\<And>i. costs n 0 (tm_pause (cc_timing c) i)"
  shows "n (snd (head_object_by_id c oid w)) \<le> n w + 3 \<and> n (snd (redundancy_params c w)) \<le> n w + 3 \<and>
    n (snd (head_bucket_id c name w)) \<le> n w + 3"
  unfolding head_object_by_id_def redundancy_params_def head_bucket_id_def
  using chain_call_costs [OF assms(1,4)] chain_call_costs [OF assms(2,4)] chain_call_costs [OF assms(3,4)]
  by (metis surj_pair snd_conv)

text \<open>C27. An object whose identity a deletion run confirms is one that the chain itself answered for: the
  node gave an object info with the claimed identifier, in the bucket of the run, with the claimed
  version and payload size and the claimed status behind its prefix; a missing info, an abandoned
  call and an error of any attempt are never taken for a confirmation.\<close>

theorem confirmed_by_node:
  assumes "rn_head r = adapter_head c" "confirm_identity r x w = (Inr (), v)"
  shows "\<exists>oi u. cn_head_object (cc_node c) (dec (unat (cl_oid x))) u = (Some (Some oi, None), v) \<and>
    oi_id oi = cl_oid x \<and> oi_bucket oi = opt_bucket (rn_opt r) \<and>
    trim_prefix (oi_status oi) ''OBJECT_STATUS_'' = cl_status x \<and> oi_version oi = cl_version x \<and>
    oi_payload oi = cl_payload x"
proof -
  obtain u h where h: "adapter_head c (cl_oid x) u = (Inr h, v)" "identity_diff x h (opt_bucket (rn_opt r)) = []"
    using assms by (auto simp: confirm_identity_def act_defs Let_def split: act_splits)
  obtain oi u' where "cn_head_object (cc_node c) (dec (unat (cl_oid x))) u' = (Some (Some oi, None), v)"
    "oh_id h = oi_id oi" "oh_bucket h = oi_bucket oi" "oh_status h = trim_prefix (oi_status oi) ''OBJECT_STATUS_''"
    "oh_version h = oi_version oi" "oh_payload h = oi_payload oi"
    by (rule adapter_head_ok [OF h(1)])
  then show ?thesis using h(2) by (auto simp: identity_diff_none)
qed

text \<open>A response with status 429 or 5xx is retried: the transport turns it into an error, and every error
  that the layers above make of it, as long as its text holds the transport's and it is not a
  cancellation, counts as transient.\<close>

lemma bad_status_retried:
  assumes "base w = (Inr (status, body), v)" "status = 429 \<or> 500 \<le> status \<and> status \<le> 599"
  shows "\<exists>e. round_trip base w = (Inl e, v) \<and>
    (\<forall>x. contains (err_text x) (err_text e) \<and> \<not> err_is x CtxCanceled \<longrightarrow> is_transient net x)"
proof (intro exI conjI allI impI)
  let ?e = "Txt (''temporary RPC HTTP status '' @ dec_int status)"
  show "round_trip base w = (Inl ?e, v)" using assms by (auto simp: round_trip_def act_defs)
  fix x assume x: "contains (err_text x) (err_text ?e) \<and> \<not> err_is x CtxCanceled"
  have "sublist ''temporary RPC HTTP status '' (err_text ?e)" by (simp add: sublist_appendI [of _ "[]", simplified])
  then have "contains (err_text x) ''temporary RPC HTTP status ''"
    using x unfolding contains_def by (blast intro: sublist_order.order_trans)
  then show "is_transient net x" using x by (intro status_text_transient) auto
qed

section \<open>An example\<close>

text \<open>A node that breaks the connection at its first request.\<close>

definition ex_info :: object_info where
  "ex_info = \<lparr>oi_id = 7, oi_bucket = ''media'', oi_status = ''OBJECT_STATUS_SEALED'', oi_version = 0, oi_payload = 5\<rparr>"

definition ex_chain :: "nat chain_client" where
  "ex_chain = \<lparr>cc_node = \<lparr>cn_head_object = \<lambda>k w. (if w = 0 then Some (None, Some IoEOF) else Some (Some ex_info, None), w + 1),
       cn_params = \<lambda>w. (Some ((4, 16), None), w + 1), cn_head_bucket = \<lambda>k w. (None, w + 1)\<rparr>,
     cc_timing = \<lparr>tm_err = \<lambda>_. None, tm_late = \<lambda>_. False, tm_limit = ''35s'', tm_pause = \<lambda>_. ret ()\<rparr>,
     cc_net = \<lambda>_. False\<rparr>"

lemma sublist_too_long: "length ys < length xs \<Longrightarrow> \<not> sublist xs ys"
  using sublist_length_le [of xs ys] by linarith

lemma ex_head: "adapter_head ex_chain 7 0 =
  (Inr \<lparr>oh_id = 7, oh_bucket = ''media'', oh_status = ''SEALED'', oh_version = 0, oh_payload = 5\<rparr>, 2)"
proof -
  have "trim_prefix ''OBJECT_STATUS_SEALED'' ''OBJECT_STATUS_'' = ''SEALED''" by code_simp
  moreover have "\<not> is_timeout IoEOF" "is_transient net IoEOF" for net
    by (simp_all add: is_timeout_def is_transient_def IoEOF_def contains_def sublist_too_long CtxCanceled_def)
  ultimately show ?thesis
    by (simp add: adapter_head_def head_object_by_id_def chain_call_def retry_if_def retry_from.simps [of _ _ _ _ _ 1]
        retry_from.simps [of _ _ _ _ _ 2] ex_chain_def deadline_call_def mark_timeout_def answered_def ret_def to_head_def ex_info_def)
qed

theorem chain_queries_bounded_witness:
  "snd (head_object_by_id ex_chain 7 0) \<le> 3 \<and> snd (redundancy_params ex_chain 0) \<le> 3 \<and> snd (head_bucket_id ex_chain ''media'' 0) \<le> 3"
  using chain_queries_bounded [of "\<lambda>w. w" ex_chain 7 0 "''media''"] by (auto simp: costs_def ex_chain_def ret_def)

definition ex_chain_runner :: "nat runner" where
  "ex_chain_runner = \<lparr>rn_list = \<lambda>_ _. ret [], rn_list_all = \<lambda>_ _ t w. Some ((t, None), w), rn_empty = \<lambda>_. ret True,
     rn_delete = \<lambda>_ _ w. (([], [], None), w), rn_head = adapter_head ex_chain, rn_check = None, rn_ctx_err = \<lambda>_. None,
     rn_limiter = None, rn_sleep = \<lambda>_. ret (), rn_opt = \<lparr>opt_bucket = ''media'', opt_concurrency = 1,
     opt_max_retry = 2, opt_dry_run = False, opt_retry_failed = False, opt_data_chunks = 4, opt_segment_size = 16\<rparr>\<rparr>"

theorem confirmed_by_node_witness:
  "\<exists>oi u. cn_head_object (cc_node ex_chain) ''7'' u = (Some (Some oi, None), 2) \<and> oi_id oi = 7"
proof -
  have "confirm_identity ex_chain_runner \<lparr>cl_oid = 7, cl_payload = 5, cl_status = ''SEALED'', cl_version = 0\<rparr> 0 = (Inr (), 2)"
    by (simp add: confirm_identity_def ex_chain_runner_def ex_head act_defs Let_def identity_diff_def)
  from confirmed_by_node [OF _ this, of ex_chain] show ?thesis
    by (auto simp: ex_chain_runner_def dec.simps [of 7] digit_chars)
qed

end
