(* ===== verification/GoUrl.thy ===== *)
theory GoUrl
  imports GoStrings
begin

text \<open>
  \<^verbatim>\<open>url.ParseRequestURI\<close> of Go's \<^verbatim>\<open>net/url\<close> (Go 1.21), as far as the program looks at the result: the
  scheme, the host and the path, and every way in which a text is rejected.
\<close>

section \<open>Cutting strings\<close>

text \<open>\<^verbatim>\<open>strings.Cut\<close> / \<^verbatim>\<open>SplitN(s, sep, 2)\<close> at the first occurrence of a text.\<close>

fun cut_at :: "string \<Rightarrow> string \<Rightarrow> (string \<times> string) option" where
  "cut_at sep [] = (if sep = [] then Some ([], []) else None)"
| "cut_at sep (c # cs) =
     (if prefix sep (c # cs) then Some ([], drop (length sep) (c # cs))
      else map_option (\<lambda>(a, b). (c # a, b)) (cut_at sep cs))"

text \<open>The parts around the last occurrence of a character, \<^verbatim>\<open>strings.LastIndex\<close>.\<close>

definition cut_last :: "char \<Rightarrow> string \<Rightarrow> (string \<times> string) option" where
  "cut_last c s =
     (if c \<in> set s
      then Some (rev (tl (dropWhile (\<lambda>x. x \<noteq> c) (rev s))), rev (takeWhile (\<lambda>x. x \<noteq> c) (rev s)))
      else None)"

text \<open>\<^verbatim>\<open>strings.Trim(s, "c")\<close>\<close>

definition trim_char :: "char \<Rightarrow> string \<Rightarrow> string" where
  "trim_char c s = rev (dropWhile (\<lambda>x. x = c) (rev (dropWhile (\<lambda>x. x = c) s)))"

section \<open>Characters\<close>

definition is_letter :: "char \<Rightarrow> bool" where
  "is_letter c \<longleftrightarrow> (65 \<le> (of_char c :: nat) \<and> (of_char c :: nat) \<le> 90) \<or> (97 \<le> (of_char c :: nat) \<and> (of_char c :: nat) \<le> 122)"

definition lower_char :: "char \<Rightarrow> char" where
  "lower_char c = (if 65 \<le> (of_char c :: nat) \<and> (of_char c :: nat) \<le> 90 then char_of (of_char c + 32 :: nat) else c)"

definition hex_val :: "char \<Rightarrow> nat option" where
  "hex_val c =
     (if is_digit c then Some (digit_val c)
      else if 97 \<le> (of_char c :: nat) \<and> (of_char c :: nat) \<le> 102 then Some (of_char c - 87)
      else if 65 \<le> (of_char c :: nat) \<and> (of_char c :: nat) \<le> 70 then Some (of_char c - 55)
      else None)"

section \<open>Percent decoding\<close>

datatype url_part = InPath | InHost | InZone | InUser

text \<open>\<^verbatim>\<open>shouldEscape\<close> for the host and the zone, the only parts in which it is asked.\<close>

definition host_char :: "char \<Rightarrow> bool" where
  "host_char c \<longleftrightarrow> is_letter c \<or> is_digit c \<or> c \<in> set ''!$&()*+,;=:[]<>-_.~'' \<or> c = CHR 0x27 \<or> c = CHR 0x22"

text \<open>\<^verbatim>\<open>unescape\<close>: the first bad character or escape is the error.\<close>

fun unescape :: "url_part \<Rightarrow> string \<Rightarrow> err + string" where
  "unescape part [] = Inr []"
| "unescape part (c # cs) =
     (if c = CHR ''%''
      then case cs of
          a # b # rest \<Rightarrow>
            (case (hex_val a, hex_val b) of
               (Some x, Some y) \<Rightarrow>
                 if (part = InHost \<and> x < 8 \<and> \<not> (x = 2 \<and> b = CHR ''5'')) \<or>
                    (part = InZone \<and> \<not> (x = 2 \<and> b = CHR ''5'') \<and> 16 * x + y \<noteq> 32 \<and> \<not> host_char (char_of (16 * x + y)))
                 then Inl (Txt (''invalid URL escape '' @ [c, a, b]))
                 else (case unescape part rest of Inl e \<Rightarrow> Inl e | Inr s \<Rightarrow> Inr (char_of (16 * x + y) # s))
             | _ \<Rightarrow> Inl (Txt (''invalid URL escape '' @ [c, a, b])))
        | _ \<Rightarrow> Inl (Txt (''invalid URL escape '' @ c # cs))
      else if (part = InHost \<or> part = InZone) \<and> (of_char c :: nat) < 128 \<and> \<not> host_char c
      then Inl (Txt (''invalid character '' @ [c] @ '' in host name''))
      else (case unescape part cs of Inl e \<Rightarrow> Inl e | Inr s \<Rightarrow> Inr (c # s)))"

section \<open>The parser\<close>

record url =
  u_scheme :: string
  u_host :: string
  u_path :: string

text \<open>\<^verbatim>\<open>getScheme\<close>: \<open>pre\<close> is the text before.\<close>

fun get_scheme :: "string \<Rightarrow> string \<Rightarrow> err + string \<times> string" where
  "get_scheme pre [] = Inr ([], pre)"
| "get_scheme pre (c # cs) =
     (if is_letter c then get_scheme (pre @ [c]) cs
      else if is_digit c \<or> c \<in> set ''+-.''
      then (if pre = [] then Inr ([], c # cs) else get_scheme (pre @ [c]) cs)
      else if c = CHR '':''
      then (if pre = [] then Inl (Txt ''missing protocol scheme'') else Inr (pre, cs))
      else Inr ([], pre @ c # cs))"

definition valid_port :: "string \<Rightarrow> bool" where
  "valid_port p \<longleftrightarrow> (case p of [] \<Rightarrow> True | c # ds \<Rightarrow> c = CHR '':'' \<and> list_all is_digit ds)"

definition parse_host :: "string \<Rightarrow> err + string" where
  "parse_host host =
     (if prefix ''['' host
      then case cut_last (CHR '']'') host of
          None \<Rightarrow> Inl (Txt ''missing ] in host'')
        | Some (inner, port) \<Rightarrow>
            if \<not> valid_port port then Inl (Txt (''invalid port '' @ port @ '' after host''))
            else (case cut_at ''%25'' inner of
                None \<Rightarrow> unescape InHost host
              | Some (addr, zone) \<Rightarrow>
                  (case unescape InHost addr of Inl e \<Rightarrow> Inl e | Inr h1 \<Rightarrow>
                  (case unescape InZone (''%25'' @ zone) of Inl e \<Rightarrow> Inl e | Inr h2 \<Rightarrow>
                  (case unescape InHost (CHR '']'' # port) of Inl e \<Rightarrow> Inl e | Inr h3 \<Rightarrow> Inr (h1 @ h2 @ h3)))))
      else case cut_last (CHR '':'') host of
          Some (name, port) \<Rightarrow>
            if \<not> valid_port (CHR '':'' # port) then Inl (Txt (''invalid port :'' @ port @ '' after host'')) else unescape InHost host
        | None \<Rightarrow> unescape InHost host)"

definition user_char :: "char \<Rightarrow> bool" where
  "user_char c \<longleftrightarrow> is_letter c \<or> is_digit c \<or> c \<in> set ''-._:~!$&()*+,;=%@'' \<or> c = CHR 0x27"

text \<open>The host of an authority; a bad user part is an error too.\<close>

definition parse_authority :: "string \<Rightarrow> err + string" where
  "parse_authority authority =
     (case cut_last (CHR ''@'') authority of
        None \<Rightarrow> parse_host authority
      | Some (user, host) \<Rightarrow>
          (case parse_host host of Inl e \<Rightarrow> Inl e | Inr h \<Rightarrow>
             if \<not> list_all user_char user then Inl (Txt ''net/url: invalid userinfo'')
             else (case cut_at '':'' user of
                 None \<Rightarrow> (case unescape InUser user of Inl e \<Rightarrow> Inl e | Inr _ \<Rightarrow> Inr h)
               | Some (name, password) \<Rightarrow>
                   (case unescape InUser name of Inl e \<Rightarrow> Inl e | Inr _ \<Rightarrow>
                   (case unescape InUser password of Inl e \<Rightarrow> Inl e | Inr _ \<Rightarrow> Inr h)))))"

definition drop_query :: "string \<Rightarrow> string" where
  "drop_query rest = (case cut_at ''?'' rest of None \<Rightarrow> rest | Some (a, _) \<Rightarrow> a)"

text \<open>What follows the scheme, without the query.\<close>

definition parse_hierarchy :: "string \<Rightarrow> string \<Rightarrow> err + url" where
  "parse_hierarchy scheme rest =
     (if \<not> prefix ''/'' rest
      then (if scheme \<noteq> [] then Inr \<lparr>u_scheme = scheme, u_host = [], u_path = []\<rparr>
            else Inl (Txt ''invalid URI for request''))
      else if scheme \<noteq> [] \<and> prefix ''//'' rest
      then (case parse_authority (takeWhile (\<lambda>c. c \<noteq> CHR ''/'') (drop 2 rest)) of Inl e \<Rightarrow> Inl e | Inr h \<Rightarrow>
            (case unescape InPath (dropWhile (\<lambda>c. c \<noteq> CHR ''/'') (drop 2 rest)) of Inl e \<Rightarrow> Inl e | Inr p \<Rightarrow>
               Inr \<lparr>u_scheme = scheme, u_host = h, u_path = p\<rparr>))
      else (case unescape InPath rest of Inl e \<Rightarrow> Inl e | Inr p \<Rightarrow>
              Inr \<lparr>u_scheme = scheme, u_host = [], u_path = p\<rparr>))"

definition parse_request_uri :: "string \<Rightarrow> err + url" where
  "parse_request_uri raw =
     (if \<not> list_all (\<lambda>c. 32 \<le> (of_char c :: nat) \<and> (of_char c :: nat) \<noteq> 127) raw
      then Inl (Txt ''net/url: invalid control character in URL'')
      else if raw = [] then Inl (Txt ''empty url'')
      else if raw = ''*'' then Inr \<lparr>u_scheme = [], u_host = [], u_path = ''*''\<rparr>
      else case get_scheme [] raw of
          Inl e \<Rightarrow> Inl e
        | Inr (scheme, rest) \<Rightarrow> parse_hierarchy (map lower_char scheme) (drop_query rest))"

section \<open>Lemmas\<close>

lemma slash_host: "\<not> host_char (CHR ''/'')"
  by (simp add: host_char_def is_letter_def is_digit_def)

lemma hex_val_bound: "hex_val c = Some x \<Longrightarrow> x < 16"
  by (auto simp: hex_val_def is_digit_def digit_val_def split: if_splits)

lemma char_of_47: "char_of (47 :: nat) = CHR ''/''"
proof -
  have "char_of (of_char (CHR ''/'') :: nat) = CHR ''/''" by (rule char_of_char)
  then show ?thesis by simp
qed

lemma char_of_slash: "n < 256 \<Longrightarrow> char_of n = CHR ''/'' \<longleftrightarrow> n = (47 :: nat)"
proof
  assume n: "n < 256" and "char_of n = CHR ''/''"
  then have "(of_char (char_of n) :: nat) = of_char (CHR ''/'')" by simp
  then show "n = 47" using n by simp
qed (simp add: char_of_47)

lemma hex_val_five: "hex_val (CHR ''5'') = Some 5"
  by (simp add: hex_val_def is_digit_def digit_val_def)

text \<open>No slash gets into a host: neither as it is nor as an escape.\<close>

lemma unescape_host: "part = InHost \<or> part = InZone \<Longrightarrow> unescape part s = Inr t \<Longrightarrow> CHR ''/'' \<notin> set t"
proof (induction part s arbitrary: t rule: unescape.induct)
  case (2 part c cs)
  show ?case
  proof (cases "c = CHR ''%''")
    case True
    then obtain a b rest x y where cs: "cs = a # b # rest" and hex: "hex_val a = Some x" "hex_val b = Some y"
      using "2.prems"(2) by (auto split: list.splits option.splits)
    let ?bad = "(part = InHost \<and> x < 8 \<and> \<not> (x = 2 \<and> b = CHR ''5'')) \<or>
        (part = InZone \<and> \<not> (x = 2 \<and> b = CHR ''5'') \<and> 16 * x + y \<noteq> 32 \<and> \<not> host_char (char_of (16 * x + y)))"
    obtain t' where ok: "\<not> ?bad" and t': "unescape part rest = Inr t'" "t = char_of (16 * x + y) # t'"
      using "2.prems"(2) True cs hex by (auto split: if_splits sum.splits)
    have "CHR ''/'' \<notin> set t'"
      using "2.IH"(1) [OF True cs refl refl hex(1,2) ok "2.prems"(1) t'(1)] "2.prems"(1) by blast
    moreover have "char_of (16 * x + y) \<noteq> CHR ''/''"
      using ok "2.prems"(1) hex_val_bound [OF hex(1)] hex_val_bound [OF hex(2)] hex(2) hex_val_five slash_host
      by (auto simp: char_of_slash char_of_47)
    ultimately show ?thesis using t'(2) by simp
  next
    case False
    then obtain t' where t': "unescape part cs = Inr t'" "t = c # t'" and ok: "(of_char c :: nat) < 128 \<Longrightarrow> host_char c"
      using "2.prems" by (auto split: if_splits sum.splits)
    have "CHR ''/'' \<notin> set t'" using "2.IH"(2) [OF False _ "2.prems"(1) t'(1)] ok by blast
    moreover have "c \<noteq> CHR ''/''" using ok slash_host by auto
    ultimately show ?thesis using t'(2) by simp
  qed
qed simp

declare unescape.simps(2) [simp del]

lemmas unescape_no_slash = unescape_host [OF disjI1 [OF refl]] unescape_host [OF disjI2 [OF refl]]

lemma parse_host_no_slash: "parse_host s = Inr h \<Longrightarrow> CHR ''/'' \<notin> set h"
  by (auto simp: parse_host_def dest: unescape_no_slash split: if_splits option.splits prod.splits sum.splits)

lemma parse_authority_no_slash: "parse_authority s = Inr h \<Longrightarrow> CHR ''/'' \<notin> set h"
  by (auto simp: parse_authority_def dest: parse_host_no_slash split: option.splits prod.splits sum.splits if_splits)

lemma not_colon: "is_letter c \<Longrightarrow> c \<noteq> CHR '':''" "is_digit c \<Longrightarrow> c \<noteq> CHR '':''"
  by (auto simp: is_letter_def is_digit_def)

lemma get_scheme_no_colon: "CHR '':'' \<notin> set pre \<Longrightarrow> get_scheme pre s = Inr (sch, rest) \<Longrightarrow> CHR '':'' \<notin> set sch"
  by (induction pre s rule: get_scheme.induct) (auto dest: not_colon split: if_splits)

lemma lower_char_colon: "lower_char c = CHR '':'' \<longleftrightarrow> c = CHR '':''"
proof
  assume l: "lower_char c = CHR '':''"
  show "c = CHR '':''"
  proof (cases "65 \<le> (of_char c :: nat) \<and> (of_char c :: nat) \<le> 90")
    case True
    then have "(of_char (char_of (of_char c + 32 :: nat)) :: nat) = of_char (CHR '':'')" using l by (simp add: lower_char_def)
    then show ?thesis using True by simp
  next
    case False
    then have "lower_char c = c" by (auto simp: lower_char_def)
    then show ?thesis using l by simp
  qed
qed (simp add: lower_char_def)

lemma parse_hierarchy_shape:
  "parse_hierarchy sch rest = Inr u \<Longrightarrow> u_scheme u = sch \<and> CHR ''/'' \<notin> set (u_host u)"
  by (auto simp: parse_hierarchy_def dest: parse_authority_no_slash split: if_splits sum.splits)

lemma parse_request_uri_shape:
  assumes "parse_request_uri raw = Inr u"
  shows "CHR ''/'' \<notin> set (u_host u) \<and> CHR '':'' \<notin> set (u_scheme u)"
proof (cases "raw = ''*''")
  case True
  then show ?thesis using assms by (auto simp: parse_request_uri_def)
next
  case False
  then obtain sch rest where g: "get_scheme [] raw = Inr (sch, rest)"
    using assms by (cases "get_scheme [] raw") (auto simp: parse_request_uri_def split: if_splits)
  have c: "CHR '':'' \<notin> set sch" by (rule get_scheme_no_colon [OF _ g]) simp
  have "CHR '':'' \<notin> set (map lower_char sch)"
  proof
    assume "CHR '':'' \<in> set (map lower_char sch)"
    then obtain x where x: "x \<in> set sch" "CHR '':'' = lower_char x" unfolding set_map by (rule imageE)
    have "x = CHR '':''" by (rule iffD1 [OF lower_char_colon]) (rule x(2) [symmetric])
    then show False using c x(1) by simp
  qed
  moreover have "parse_hierarchy (map lower_char sch) (drop_query rest) = Inr u"
    using assms False g by (auto simp: parse_request_uri_def split: if_splits)
  ultimately show ?thesis using parse_hierarchy_shape by metis
qed

end
