(* ===== verification/SpConfig.thy ===== *)
theory SpConfig
  imports GoUrl TaskMeta
begin

text \<open>
  The configuration of the storage provider, \<^verbatim>\<open>internal/spconfig/spconfig.go\<close>: its overrides from the
  environment, the data source name, the bucket behind \<^verbatim>\<open>BucketURL\<close> and its identity; and the task
  binding that the commands derive from it (\<^verbatim>\<open>common.binding\<close> of \<^verbatim>\<open>cmd/limewire-purge/main.go\<close>). The
  TOML decoder and the environment are parameters.
\<close>

section \<open>The configuration\<close>

record sql_db =
  sq_user :: string
  sq_passwd :: string
  sq_address :: string
  sq_database :: string

record object_storage =
  os_storage :: string
  os_bucket_url :: string
  os_iam_type :: string

record config =
  cf_spdb :: sql_db
  cf_bsdb :: sql_db
  cf_shards :: int
  cf_store :: object_storage
  cf_chain_id :: string
  cf_operator :: string

definition default_chain_id :: string where
  "default_chain_id = ''greenfield_9000-121''"

text \<open>\<open>env\<close> is \<^verbatim>\<open>os.LookupEnv\<close>.\<close>

definition override :: "(string \<Rightarrow> string option) \<Rightarrow> string \<Rightarrow> string \<Rightarrow> string" where
  "override env name old = (case env name of None \<Rightarrow> old | Some v \<Rightarrow> v)"

definition apply_env :: "(string \<Rightarrow> string option) \<Rightarrow> string \<Rightarrow> string \<Rightarrow> string \<Rightarrow> string \<Rightarrow> sql_db \<Rightarrow> sql_db" where
  "apply_env env user pass addr database d =
     \<lparr>sq_user = override env user (sq_user d), sq_passwd = override env pass (sq_passwd d),
      sq_address = override env addr (sq_address d), sq_database = override env database (sq_database d)\<rparr>"

text \<open>\<open>decode\<close> is \<^verbatim>\<open>toml.DecodeFile\<close>.\<close>

definition load_config :: "(string \<Rightarrow> string option) \<Rightarrow> (string \<Rightarrow> err + config) \<Rightarrow> string \<Rightarrow> err + config" where
  "load_config env decode path =
     (case decode path of
        Inl e \<Rightarrow> Inl (Cat (Txt (''parse '' @ path @ '': '')) e)
      | Inr c \<Rightarrow>
          let c = c\<lparr>cf_spdb := apply_env env ''SP_DB_USER'' ''SP_DB_PASSWORD'' ''SP_DB_ADDRESS'' ''SP_DB_DATABASE'' (cf_spdb c),
                cf_bsdb := apply_env env ''BS_DB_USER'' ''BS_DB_PASSWORD'' ''BS_DB_ADDRESS'' ''BS_DB_DATABASE'' (cf_bsdb c),
                cf_store := (cf_store c)\<lparr>os_bucket_url := override env ''BUCKET_URL'' (os_bucket_url (cf_store c))\<rparr>,
                cf_chain_id := (if cf_chain_id c = [] then default_chain_id else cf_chain_id c)\<rparr> in
          if cf_shards c > 1
          then Inl (Txt (''PieceStore.Shards='' @ dec_int (cf_shards c) @ '': sharded piece stores are not supported by this tool''))
          else if os_storage (cf_store c) \<in> set [[], ''s3'', ''minio''] then Inr c
          else Inl (Txt (''PieceStore.Store.Storage='' @ quote (os_storage (cf_store c)) @ '': only s3 / minio are supported'')))"

definition dsn :: "sql_db \<Rightarrow> string" where
  "dsn d = sq_user d @ '':'' @ sq_passwd d @ ''@tcp('' @ sq_address d @ '')/'' @ sq_database d @
     ''?parseTime=true&charset=utf8mb4&interpolateParams=true''"

section \<open>The bucket behind the URL\<close>

record s3_target =
  tg_bucket :: string
  tg_region :: string
  tg_endpoint :: string
  tg_path_style :: bool
  tg_use_ssl :: bool

definition identity :: "s3_target \<Rightarrow> string" where
  "identity t = (let place = (if tg_endpoint t = [] then ''aws:'' @ tg_region t else tg_endpoint t) in place @ ''/'' @ tg_bucket t)"

definition parse_region :: "string \<Rightarrow> string" where
  "parse_region endpoint =
     (let e = (if prefix ''s3-'' endpoint \<or> prefix ''s3.'' endpoint then drop 3 endpoint else endpoint);
          e = trim_prefix e ''dualstack.'' in
      if e = ''amazonaws.com'' then ''us-east-1''
      else let region = split_on (CHR ''.'') e ! 0 in
           if region = ''external-1'' then ''us-east-1'' else region)"

definition aws_host :: "url \<Rightarrow> bool" where
  "aws_host u \<longleftrightarrow> contains (u_host u) ''.amazonaws.com''"

text \<open>An empty region becomes \<^verbatim>\<open>us-east-1\<close>, for AWS and for any other endpoint.\<close>

definition some_region :: "string \<Rightarrow> string" where
  "some_region r = (if r = [] then ''us-east-1'' else r)"

definition parse_bucket_url :: "string \<Rightarrow> err + s3_target" where
  "parse_bucket_url text =
     (let raw = trim_char (CHR ''/'') text in
      case parse_request_uri raw of
        Inl e \<Rightarrow> Inl (Cat (Txt (''parse '' @ quote raw @ '': '')) e)
      | Inr u \<Rightarrow>
          let ssl = (u_scheme u = ''https'') in
          if u_path u \<noteq> []
          then (let parts = split_on (CHR ''/'') (u_path u) in
                if length parts < 2 \<or> parts ! 1 = []
                then Inl (Txt ''bucket name missing in BucketURL path'')
                else Inr \<lparr>tg_bucket = parts ! 1, tg_region = some_region (if aws_host u then parse_region (u_host u) else []),
                       tg_endpoint = (if aws_host u then [] else u_scheme u @ ''://'' @ u_host u), tg_path_style = True,
                       tg_use_ssl = ssl\<rparr>)
          else if \<not> aws_host u then Inl (Txt (''cannot derive bucket from '' @ quote raw))
          else case cut_at ''.s3'' (u_host u) of
              None \<Rightarrow> Inl (Txt (''unexpected virtual-hosted URL '' @ quote raw))
            | Some (bucket, rest) \<Rightarrow>
                Inr \<lparr>tg_bucket = bucket, tg_region = some_region (parse_region (''s3'' @ rest)), tg_endpoint = [],
                  tg_path_style = False, tg_use_ssl = ssl\<rparr>)"

section \<open>The binding of a task\<close>

text \<open>\<^verbatim>\<open>common\<close>: the flags that all commands share.\<close>

record common =
  co_config :: string
  co_dsn :: string
  co_bucket :: string
  co_bucket_id :: u64

definition make_binding :: "common \<Rightarrow> config \<Rightarrow> err + binding" where
  "make_binding c cfg =
     (if cf_operator cfg = [] then Inl (Txt (co_config c @ '': [SpAccount] SpOperatorAddress is empty''))
      else case parse_bucket_url (os_bucket_url (cf_store cfg)) of
        Inl e \<Rightarrow> Inl (Cat (Txt ''BucketURL: '') e)
      | Inr t \<Rightarrow> Inr \<lparr>b_chain = cf_chain_id cfg, b_operator = cf_operator cfg, b_storage = identity t,
          b_spdb = sq_address (cf_spdb cfg) @ ''/'' @ sq_database (cf_spdb cfg), b_bucket = co_bucket c,
          b_bucket_id = co_bucket_id c\<rparr>)"

section \<open>The identity of a bucket\<close>

lemma split_on_parts: "x \<in> set (split_on c s) \<Longrightarrow> c \<notin> set x \<and> set x \<subseteq> set s"
proof (induction s arbitrary: x)
  case (Cons y ys)
  show ?case
  proof (cases "split_on c ys")
    case (Cons z zs)
    then show ?thesis using Cons.prems Cons.IH by (auto split: if_splits) blast+
  qed simp
qed simp

lemma cut_at_parts: "cut_at sep s = Some (a, b) \<Longrightarrow> set a \<subseteq> set s \<and> set b \<subseteq> set s"
proof (induction s arbitrary: a)
  case (Cons c cs)
  show ?case
  proof (cases "prefix sep (c # cs)")
    case True
    then show ?thesis using Cons.prems by (auto dest: in_set_dropD)
  next
    case False
    then obtain a' where "cut_at sep cs = Some (a', b)" "a = c # a'" using Cons.prems by auto
    then show ?thesis using Cons.IH by auto
  qed
qed (auto split: if_splits)

lemma parse_region_chars: "CHR ''/'' \<notin> set e \<Longrightarrow> CHR ''/'' \<notin> set (parse_region e)"
proof -
  assume e: "CHR ''/'' \<notin> set e"
  let ?d = "trim_prefix (if prefix ''s3-'' e \<or> prefix ''s3.'' e then drop 3 e else e) ''dualstack.''"
  have d: "CHR ''/'' \<notin> set ?d" using e by (auto simp: trim_prefix_def dest: in_set_dropD)
  have "split_on (CHR ''.'') ?d ! 0 \<in> set (split_on (CHR ''.'') ?d)" by (rule nth_mem) simp
  then have "CHR ''/'' \<notin> set (split_on (CHR ''.'') ?d ! 0)" using split_on_parts d by blast
  then show ?thesis by (auto simp: parse_region_def Let_def)
qed

text \<open>What a parsed target looks like.\<close>

definition target_ok :: "s3_target \<Rightarrow> bool" where
  "target_ok t \<longleftrightarrow> CHR ''/'' \<notin> set (tg_bucket t) \<and> CHR ''/'' \<notin> set (tg_region t) \<and>
     (tg_endpoint t = [] \<or> (\<exists>scheme host. tg_endpoint t = scheme @ ''://'' @ host \<and> CHR '':'' \<notin> set scheme))"

lemma some_region_chars: "CHR ''/'' \<notin> set r \<Longrightarrow> CHR ''/'' \<notin> set (some_region r)"
  by (simp add: some_region_def)

lemma parse_bucket_url_ok:
  assumes "parse_bucket_url text = Inr t"
  shows "target_ok t"
proof -
  let ?raw = "trim_char (CHR ''/'') text"
  obtain u where u: "parse_request_uri ?raw = Inr u"
    using assms by (auto simp: parse_bucket_url_def Let_def split: sum.splits)
  note shape = parse_request_uri_shape [OF u]
  show ?thesis
  proof (cases "u_path u = []")
    case False
    let ?parts = "split_on (CHR ''/'') (u_path u)"
    have len: "2 \<le> length ?parts"
      and t: "t = \<lparr>tg_bucket = ?parts ! 1, tg_region = some_region (if aws_host u then parse_region (u_host u) else []),
         tg_endpoint = (if aws_host u then [] else u_scheme u @ ''://'' @ u_host u), tg_path_style = True,
         tg_use_ssl = (u_scheme u = ''https'')\<rparr>"
      using assms u False by (auto simp: parse_bucket_url_def Let_def split: if_split_asm)
    have "CHR ''/'' \<notin> set (?parts ! 1)" using split_on_parts nth_mem [of 1 ?parts] len by fastforce
    then show ?thesis
      using shape parse_region_chars [of "u_host u"] by (auto simp: t target_ok_def intro!: some_region_chars)
  next
    case True
    then obtain bucket rest where cut: "cut_at ''.s3'' (u_host u) = Some (bucket, rest)"
      and t: "t = \<lparr>tg_bucket = bucket, tg_region = some_region (parse_region (''s3'' @ rest)), tg_endpoint = [],
                  tg_path_style = False, tg_use_ssl = (u_scheme u = ''https'')\<rparr>"
      using assms u by (auto simp: parse_bucket_url_def Let_def split: if_splits option.splits)
    have "CHR ''/'' \<notin> set bucket" "CHR ''/'' \<notin> set (''s3'' @ rest)"
      using cut_at_parts [OF cut] shape by auto
    then show ?thesis using parse_region_chars by (simp add: t target_ok_def some_region_chars)
  qed
qed

lemma append_last_sep_eq:
  assumes "a @ c # x = b @ c # y" "c \<notin> set x" "c \<notin> set y"
  shows "a = b \<and> x = y"
proof -
  have "rev x @ c # rev a = rev y @ c # rev b" using assms(1) by (metis append_Cons append_assoc append_Nil rev.simps(2) rev_append)
  from append_sep_eq [OF this] show ?thesis using assms(2,3) by simp
qed

lemma identity_injective:
  assumes "target_ok t" "target_ok t'" "identity t = identity t'"
  shows "tg_bucket t = tg_bucket t' \<and> tg_endpoint t = tg_endpoint t' \<and> (tg_endpoint t = [] \<longrightarrow> tg_region t = tg_region t')"
proof -
  let ?place = "\<lambda>t. if tg_endpoint t = [] then ''aws:'' @ tg_region t else tg_endpoint t"
  have "?place t @ CHR ''/'' # tg_bucket t = ?place t' @ CHR ''/'' # tg_bucket t'"
    using assms(3) by (simp add: identity_def Let_def)
  from append_last_sep_eq [OF this] have eq: "?place t = ?place t'" "tg_bucket t = tg_bucket t'"
    using assms(1,2) by (simp_all add: target_ok_def)
  have differ: False if pq: "target_ok p" "tg_endpoint p = []" "target_ok q" "tg_endpoint q \<noteq> []" "?place p = ?place q" for p q
  proof -
    obtain scheme host where q: "tg_endpoint q = scheme @ ''://'' @ host" "CHR '':'' \<notin> set scheme"
      using pq(3,4) by (auto simp: target_ok_def)
    have "''aws'' @ CHR '':'' # tg_region p = scheme @ CHR '':'' # (''//'' @ host)" using pq(2,4,5) q(1) by simp
    then have "tg_region p = ''//'' @ host" using q(2) append_sep_eq [of "''aws''"] by simp
    then show False using pq(1) by (simp add: target_ok_def)
  qed
  have "tg_endpoint t = [] \<longleftrightarrow> tg_endpoint t' = []"
    using differ [of t t'] differ [of t' t] assms(1,2) eq(1) by argo
  then show ?thesis using eq by (auto split: if_splits)
qed

section \<open>Property\<close>

text \<open>C28. The binding of a progress database pins the physical storage: two configurations that give the
  same binding name the same bucket, at the same endpoint, or in the same region when it is AWS's
  own, whichever style of URL they use; and the same chain, provider and Greenfield bucket. The check
  of the binding therefore refuses every other storage.\<close>

theorem binding_pins_storage:
  assumes "make_binding c cfg = Inr b" "make_binding c' cfg' = Inr b"
  shows "\<exists>t t'. parse_bucket_url (os_bucket_url (cf_store cfg)) = Inr t \<and>
    parse_bucket_url (os_bucket_url (cf_store cfg')) = Inr t' \<and>
    tg_bucket t = tg_bucket t' \<and> tg_endpoint t = tg_endpoint t' \<and> (tg_endpoint t = [] \<longrightarrow> tg_region t = tg_region t') \<and>
    cf_chain_id cfg = cf_chain_id cfg' \<and> cf_operator cfg = cf_operator cfg' \<and>
    co_bucket c = co_bucket c' \<and> co_bucket_id c = co_bucket_id c'"
proof -
  obtain t where t: "parse_bucket_url (os_bucket_url (cf_store cfg)) = Inr t"
      "b = \<lparr>b_chain = cf_chain_id cfg, b_operator = cf_operator cfg, b_storage = identity t,
          b_spdb = sq_address (cf_spdb cfg) @ ''/'' @ sq_database (cf_spdb cfg), b_bucket = co_bucket c,
          b_bucket_id = co_bucket_id c\<rparr>"
    using assms(1) by (auto simp: make_binding_def split: if_splits sum.splits)
  obtain t' where t': "parse_bucket_url (os_bucket_url (cf_store cfg')) = Inr t'"
      "b = \<lparr>b_chain = cf_chain_id cfg', b_operator = cf_operator cfg', b_storage = identity t',
          b_spdb = sq_address (cf_spdb cfg') @ ''/'' @ sq_database (cf_spdb cfg'), b_bucket = co_bucket c',
          b_bucket_id = co_bucket_id c'\<rparr>"
    using assms(2) by (auto simp: make_binding_def split: if_splits sum.splits)
  show ?thesis
    using identity_injective [OF parse_bucket_url_ok [OF t(1)] parse_bucket_url_ok [OF t'(1)]] t t' by auto
qed

definition ex_config :: "string \<Rightarrow> config" where
  "ex_config text = \<lparr>cf_spdb = \<lparr>sq_user = ''u'', sq_passwd = ''p'', sq_address = ''db'', sq_database = ''sp''\<rparr>,
     cf_bsdb = \<lparr>sq_user = ''u'', sq_passwd = ''p'', sq_address = ''db'', sq_database = ''bs''\<rparr>, cf_shards = 0,
     cf_store = \<lparr>os_storage = ''s3'', os_bucket_url = text, os_iam_type = ''AKSK''\<rparr>, cf_chain_id = ''c1'', cf_operator = ''0x1''\<rparr>"

definition ex_common :: common where
  "ex_common = \<lparr>co_config = ''sp.toml'', co_dsn = ''dsn'', co_bucket = ''limewire'', co_bucket_id = 42268\<rparr>"

lemma ex_virtual: "parse_bucket_url ''https://m.s3.eu.amazonaws.com'' =
  Inr \<lparr>tg_bucket = ''m'', tg_region = ''eu'', tg_endpoint = [], tg_path_style = False, tg_use_ssl = True\<rparr>"
  by code_simp

lemma ex_path: "parse_bucket_url ''https://s3.eu.amazonaws.com/m/'' =
  Inr \<lparr>tg_bucket = ''m'', tg_region = ''eu'', tg_endpoint = [], tg_path_style = True, tg_use_ssl = True\<rparr>"
  by code_simp

theorem binding_pins_storage_witness:
  "make_binding ex_common (ex_config ''https://m.s3.eu.amazonaws.com'') = make_binding ex_common (ex_config ''https://s3.eu.amazonaws.com/m/'') \<and>
   (\<exists>t t'. parse_bucket_url ''https://m.s3.eu.amazonaws.com'' = Inr t \<and>
     parse_bucket_url ''https://s3.eu.amazonaws.com/m/'' = Inr t' \<and> tg_bucket t = tg_bucket t')"
proof -
  let ?b = "\<lparr>b_chain = ''c1'', b_operator = ''0x1'', b_storage = ''aws:eu/m'', b_spdb = ''db/sp'', b_bucket = ''limewire'', b_bucket_id = 42268\<rparr>"
  have 1: "make_binding ex_common (ex_config ''https://m.s3.eu.amazonaws.com'') = Inr ?b"
    by (simp add: make_binding_def ex_config_def ex_common_def ex_virtual identity_def Let_def)
  have 2: "make_binding ex_common (ex_config ''https://s3.eu.amazonaws.com/m/'') = Inr ?b"
    by (simp add: make_binding_def ex_config_def ex_common_def ex_path identity_def Let_def)
  from binding_pins_storage [OF 1 2] show ?thesis unfolding 1 2 by (auto simp: ex_config_def)
qed

end
