(* ===== verification/ReportFile.thy ===== *)
theory ReportFile
  imports SubtaskPhases
begin

text \<open>
  The report of a verification, \<^verbatim>\<open>writeReport\<close> of \<^verbatim>\<open>cmd/limewire-purge/verify.go\<close>: tab-separated lines as
  \<^verbatim>\<open>encoding/csv\<close> writes them, into a temporary file that replaces the report at the end. Each operation
  on the disk may fail, as its script says, but for the deferred removal of the temporary file. The
  buffer of the writer is left out (each line is an operation of its own), and so is a crash in the middle.
\<close>

section \<open>Lines\<close>

text \<open>\<^verbatim>\<open>fieldNeedsQuotes\<close> of \<^verbatim>\<open>encoding/csv\<close> with the comma a tab.\<close>

definition needs_quotes :: "string \<Rightarrow> bool" where
  "needs_quotes f \<longleftrightarrow>
     (if f = [] then False
      else if f = [CHR 0x5C, CHR ''.''] then True
      else if list_ex (\<lambda>c. c = newline \<or> c = CHR 0x0D \<or> c = CHR 0x22 \<or> c = tab) f then True
      else is_space_rune (hd (runes f)))"

definition csv_field :: "string \<Rightarrow> string" where
  "csv_field f =
     (if needs_quotes f
      then [CHR 0x22] @ concat (map (\<lambda>c. if c = CHR 0x22 then [c, c] else [c]) f) @ [CHR 0x22]
      else f)"

definition csv_line :: "string list \<Rightarrow> string" where
  "csv_line cells = join_on [tab] (map csv_field cells) @ [newline]"

definition report_lines :: "report_row list \<Rightarrow> string list" where
  "report_lines rows = csv_line [''oid'', ''result'', ''detail''] #
     map (\<lambda>r. csv_line [dec (unat (rr_oid r)), rr_kind r, rr_detail r]) rows"

section \<open>The disk\<close>

datatype disk_event = Works | Breaks string

record disk =
  dk_files :: "string \<Rightarrow> string option"
  dk_script :: "disk_event list"

definition disk_op :: "((string \<Rightarrow> string option) \<Rightarrow> string \<Rightarrow> string option) \<Rightarrow> (disk, unit) act" where
  "disk_op f d =
     (case dk_script d of
        [] \<Rightarrow> (Inr (), d\<lparr>dk_files := f (dk_files d)\<rparr>)
      | Works # evs \<Rightarrow> (Inr (), d\<lparr>dk_files := f (dk_files d), dk_script := evs\<rparr>)
      | Breaks e # evs \<Rightarrow> (Inl (Txt e), d\<lparr>dk_script := evs\<rparr>))"

text \<open>Run, and then what was deferred.\<close>

definition deferring :: "('w \<Rightarrow> 'w) \<Rightarrow> ('w, 'a) act \<Rightarrow> ('w, 'a) act" where
  "deferring d m w = (case m w of (r, v) \<Rightarrow> (r, d v))"

definition append_to :: "string \<Rightarrow> string \<Rightarrow> (string \<Rightarrow> string option) \<Rightarrow> string \<Rightarrow> string option" where
  "append_to name text files = files(name := Some ((case files name of None \<Rightarrow> [] | Some s \<Rightarrow> s) @ text))"

text \<open>\<open>temp\<close> is the name that \<^verbatim>\<open>os.CreateTemp\<close> chooses, one that does not exist yet.\<close>

definition write_report :: "string \<Rightarrow> string \<Rightarrow> report_row list \<Rightarrow> (disk, unit) act" where
  "write_report temp path rows =
     bindA (disk_op (\<lambda>files. files(temp := Some []))) (\<lambda>_.
     deferring (\<lambda>d. d\<lparr>dk_files := (dk_files d)(temp := None)\<rparr>) (
       bindA (forA (report_lines rows) (\<lambda>line. disk_op (append_to temp line))) (\<lambda>_.
       bindA (disk_op (\<lambda>files. files)) (\<lambda>_.
       bindA (disk_op (\<lambda>files. files)) (\<lambda>_.
       bindA (disk_op (\<lambda>files. files)) (\<lambda>_.
       disk_op (\<lambda>files. files(path := files temp, temp := None))))))))"

section \<open>All or nothing\<close>

abbreviation on_files :: "((string \<Rightarrow> string option) \<Rightarrow> bool) \<Rightarrow> disk \<Rightarrow> bool" where
  "on_files P d \<equiv> P (dk_files d)"

lemma hoare_disk_op:
  "(\<And>files. P files \<Longrightarrow> Q (f files)) \<Longrightarrow> hoare (on_files P) (disk_op f) (\<lambda>_. on_files Q) (\<lambda>_. on_files P)"
  by (auto simp: hoare_def disk_op_def split: list.splits disk_event.splits)

lemma hoare_deferring:
  "hoare P m (\<lambda>x w. Q x (d w)) (\<lambda>e w. E e (d w)) \<Longrightarrow> hoare P (deferring d m) Q E"
  by (fastforce simp: hoare_def deferring_def split: prod.splits sum.splits)

text \<open>The report while it is written: the temporary file holds \<open>text\<close>, every other file is as before.\<close>

abbreviation writing :: "string \<Rightarrow> (string \<Rightarrow> string option) \<Rightarrow> string \<Rightarrow> (string \<Rightarrow> string option) \<Rightarrow> bool" where
  "writing temp before text files \<equiv> files = before(temp := Some text)"

lemma write_lines:
  "hoare (on_files (writing temp before start)) (forA lines (\<lambda>line. disk_op (append_to temp line)))
     (\<lambda>_. on_files (writing temp before (start @ concat lines)))
     (\<lambda>_. on_files (\<lambda>files. files(temp := None) = before(temp := None)))"
proof (induction lines arbitrary: start)
  case Nil
  then show ?case by (simp add: hoare_def ret_def)
next
  case (Cons l ls)
  have "hoare (on_files (writing temp before start)) (disk_op (append_to temp l))
      (\<lambda>_. on_files (writing temp before (start @ l))) (\<lambda>_. on_files (\<lambda>files. files(temp := None) = before(temp := None)))"
    by (rule hoare_weaken [OF hoare_disk_op [where P = "writing temp before start" and Q = "writing temp before (start @ l)"]])
      (auto simp: append_to_def)
  from hoare_bind [OF this Cons.IH [of "start @ l"]] show ?case
    by (simp only: forA.simps concat.simps append_assoc)
qed

lemma write_report_spec:
  assumes "before temp = None" "path \<noteq> temp"
  shows "hoare (on_files (\<lambda>files. files = before)) (write_report temp path rows)
    (\<lambda>_. on_files (\<lambda>files. files = before(path := Some (concat (report_lines rows)))))
    (\<lambda>_. on_files (\<lambda>files. files = before))"
proof -
  let ?text = "concat (report_lines rows)" and ?E = "\<lambda>files. files(temp := None) = before(temp := None)"
  have start: "hoare (on_files (\<lambda>files. files = before)) (disk_op (\<lambda>files. files(temp := Some [])))
      (\<lambda>_. on_files (writing temp before [])) (\<lambda>_. on_files (\<lambda>files. files = before))"
    by (rule hoare_disk_op) simp
  have pause: "hoare (on_files (writing temp before ?text)) (disk_op (\<lambda>files. files))
      (\<lambda>_. on_files (writing temp before ?text)) (\<lambda>_. on_files ?E)"
    by (rule hoare_weaken [OF hoare_disk_op [where P = "writing temp before ?text" and Q = "writing temp before ?text"]]) auto
  have finish: "hoare (on_files (writing temp before ?text)) (disk_op (\<lambda>files. files(path := files temp, temp := None)))
      (\<lambda>_. on_files (\<lambda>files. files(temp := None) = before(path := Some ?text))) (\<lambda>_. on_files ?E)"
    by (rule hoare_weaken [OF hoare_disk_op [where P = "writing temp before ?text" and
          Q = "\<lambda>files. files(temp := None) = before(path := Some ?text)"]])
      (use assms in \<open>auto simp: fun_eq_iff\<close>)
  have before: "before(temp := None) = before" using assms(1) by (simp add: fun_upd_idem)
  have tail: "hoare (on_files (writing temp before []))
      (bindA (forA (report_lines rows) (\<lambda>line. disk_op (append_to temp line))) (\<lambda>_.
       bindA (disk_op (\<lambda>files. files)) (\<lambda>_. bindA (disk_op (\<lambda>files. files)) (\<lambda>_. bindA (disk_op (\<lambda>files. files)) (\<lambda>_.
       disk_op (\<lambda>files. files(path := files temp, temp := None)))))))
      (\<lambda>_. on_files (\<lambda>files. files(temp := None) = before(path := Some ?text))) (\<lambda>_. on_files ?E)"
    by (rule hoare_bind [OF write_lines [where start = "[]", unfolded append.simps]]) (rule hoare_bind [OF pause] finish)+
  show ?thesis
    unfolding write_report_def
    by (rule hoare_bind [OF start], rule hoare_deferring, rule hoare_weaken [OF tail]) (use before in auto)
qed

end
