(* ===== verification/Opening.thy ===== *)
theory Opening
  imports Lock ProgressQueries SpConfig ReportFile S3Store
begin

text \<open>
  What the commands of \<^verbatim>\<open>cmd/limewire-purge\<close> share (\<^verbatim>\<open>main.go\<close>, \<^verbatim>\<open>tasks.go\<close>): opening the progress
  database under the execution lock and bound to the task, building the object store's client, putting
  a task on hold for a cause that concerns all of it, and printing a task. Log lines are left out.
\<close>

section \<open>Opening the progress database\<close>

text \<open>
  \<^verbatim>\<open>progress.Open\<close>. \<open>parse\<close> is the driver's \<^verbatim>\<open>ParseDSN\<close>, of whose fields only these are read; \<open>connect\<close>
  is the outcome of \<^verbatim>\<open>sql.Open\<close> on the formatted DSN and of the ping. Durations are in nanoseconds.
\<close>

record dsn_config =
  dc_database :: string
  dc_timeout :: int
  dc_read :: int
  dc_write :: int

definition default_timeouts :: "dsn_config \<Rightarrow> dsn_config" where
  "default_timeouts c =
     c\<lparr>dc_timeout := (if dc_timeout c = 0 then 10 * 10 ^ 9 else dc_timeout c),
       dc_read := (if dc_read c = 0 then 30 * 10 ^ 9 else dc_read c),
       dc_write := (if dc_write c = 0 then 30 * 10 ^ 9 else dc_write c)\<rparr>"

definition progress_open ::
  "(string \<Rightarrow> err + dsn_config) \<Rightarrow> (dsn_config \<Rightarrow> err option \<times> err option) \<Rightarrow> string \<Rightarrow> err option" where
  "progress_open parse connect text =
     (case parse text of
        Inl e \<Rightarrow> Some e
      | Inr c \<Rightarrow>
          if dc_database c = [] then Some (Txt ''progress DSN must name a dedicated database'')
          else (case connect (default_timeouts c) of
                  (Some e, _) \<Rightarrow> Some e
                | (None, Some e) \<Rightarrow> Some (Cat (Txt ''progress db: '') e)
                | (None, None) \<Rightarrow> None))"

text \<open>
  What surrounds a command: the environment variables, the TOML decoder, the driver's DSN parser, the
  outcome of connecting to the progress database, the database name and connection id of the lock's
  session, the state of the schema, the error of closing the pool, and the name of the temporary
  report file.
\<close>

record surroundings =
  en_env :: "string \<Rightarrow> string option"
  en_toml :: "string \<Rightarrow> err + config"
  en_dsn :: "string \<Rightarrow> err + dsn_config"
  en_connect :: "dsn_config \<Rightarrow> err option \<times> err option"
  en_session :: "string \<times> i64"
  en_schema :: schema
  en_pool :: "err option"
  en_temp :: string

definition load :: "surroundings \<Rightarrow> common \<Rightarrow> ('w, config) act" where
  "load e c = liftE (load_config (en_env e) (en_toml e) (co_config c))"

definition close_db :: "surroundings \<Rightarrow> world \<Rightarrow> world" where
  "close_db e w = snd (db_close (en_pool e) w)"

text \<open>\<^verbatim>\<open>if err := m; err != nil { pg.Close(); return err }\<close>\<close>

definition or_close :: "surroundings \<Rightarrow> (world, 'a) act \<Rightarrow> (world, 'a) act" where
  "or_close e m = tryA m (\<lambda>x. bindA (modifyA (close_db e)) (\<lambda>_. throw x)) ret"

definition open_db :: "surroundings \<Rightarrow> common \<Rightarrow> (world, unit) act" where
  "open_db e c =
     bindA (failIf (co_dsn c = []) (Txt ''--progress-dsn is required'')) (\<lambda>_.
     case progress_open (en_dsn e) (en_connect e) (co_dsn c) of None \<Rightarrow> ret () | Some x \<Rightarrow> throw x)"

definition open_locked :: "surroundings \<Rightarrow> common \<Rightarrow> string \<Rightarrow> (world, unit) act" where
  "open_locked e c operation =
     bindA (open_db e c) (\<lambda>_.
     bindA (or_close e (acquire OperatorCtx (en_session e) operation)) (\<lambda>_.
     or_close e (ensure_schema (en_schema e) LockCtx)))"

definition open_bound :: "surroundings \<Rightarrow> common \<Rightarrow> config \<Rightarrow> (world, unit) act" where
  "open_bound e c cfg =
     bindA (liftE (make_binding c cfg)) (\<lambda>b.
     bindA (open_locked e c ''task operation'') (\<lambda>_.
     bindA (or_close e (check_binding LockCtx b)) (\<lambda>_.
     or_close e (require_complete_scan LockCtx))))"

section \<open>Flags\<close>

text \<open>A flag parser gives the values of the flags and the arguments that are left.\<close>

definition parse_flags :: "('a \<Rightarrow> err + 'f \<times> string list) \<Rightarrow> 'a \<Rightarrow> ('w, 'f) act" where
  "parse_flags parse args =
     bindA (liftE (parse args)) (\<lambda>(fl, extra).
     bindA (failIf (length extra \<noteq> 0) (Txt (''unexpected arguments: ['' @ join_on '' '' extra @ '']''))) (\<lambda>_. ret fl))"

section \<open>Errors of a task\<close>

definition with_task_error :: "u64 \<Rightarrow> ('w, 'a) act \<Rightarrow> ('w, 'a) act" where
  "with_task_error k m = tryA m (\<lambda>x. throw (Cat (Txt (''task='' @ dec (unat k) @ '': '')) x)) ret"

definition hold_global :: "ctx \<Rightarrow> subtask \<Rightarrow> err \<Rightarrow> (world, 'a) act" where
  "hold_global c s cause =
     tryA (hold c (st_id s) None (err_text cause)) (\<lambda>x. throw (the (join_err (Some cause) (Some x)))) (\<lambda>_. throw cause)"

section \<open>Printing a task\<close>

definition null_int :: "u64 option \<Rightarrow> string" where
  "null_int v = (case v of None \<Rightarrow> ''-'' | Some x \<Rightarrow> dec_int (sint x))"

definition task_line :: "subtask \<Rightarrow> sub_counts \<Rightarrow> bool \<Rightarrow> string" where
  "task_line s n locked =
     ''task='' @ dec (unat (st_id s)) @ '' state='' @ sub_state s n locked @ '' objects='' @ dec (st_objects s) @
     '' logical_bytes='' @ dec (unat (st_logical s)) @ '' processed='' @ dec (c_processed n) @ '' pending='' @ dec (c_pending n) @
     '' failed='' @ dec (c_failed n) @ '' deferred='' @ dec (c_deferred n) @ '' verify_pass='' @ dec (c_verified n) @
     '' residue='' @ dec (c_residue n) @ '' verify_errors='' @ dec (c_errors n) @ '' generation='' @ dec (unat (st_gen s)) @
     '' deletion_completed='' @ (if st_purged s \<noteq> None then ''true'' else ''false'') @ [newline]"

definition print_subtask :: "ctx \<Rightarrow> bool \<Rightarrow> subtask \<Rightarrow> (world, string) act" where
  "print_subtask c locked s =
     bindA (sub_counts c (st_id s)) (\<lambda>n.
     ret (task_line s n locked @
       (if st_hold s \<noteq> []
        then ''  safety_hold oid='' @ null_int (st_hold_oid s) @ '' reason='' @ st_hold s @ [newline] else [])))"

section \<open>The client of the object store\<close>

text \<open>
  \<^verbatim>\<open>s3store.New\<close>: the options of the client. \<open>so_keys\<close> are static credentials, \<open>so_endpoint\<close> a base
  endpoint. \<open>build\<close> is the SDK, which may fail to load its configuration.
\<close>

record client_options =
  so_region :: string
  so_timeout :: int
  so_keys :: "(string \<times> string \<times> string) option"
  so_endpoint :: "string option"
  so_path_style :: bool

definition getenv :: "(string \<Rightarrow> string option) \<Rightarrow> string \<Rightarrow> string" where
  "getenv env name = override env name []"

definition static_keys :: "(string \<Rightarrow> string option) \<Rightarrow> object_storage \<Rightarrow> (string \<times> string \<times> string) option" where
  "static_keys env ps =
     (if os_iam_type ps = ''AKSK'' \<or> os_iam_type ps = []
      then (let ak = getenv env ''AWS_ACCESS_KEY''; sk = getenv env ''AWS_SECRET_KEY'' in
            if ak \<noteq> [] \<and> sk \<noteq> [] then Some (ak, sk, getenv env ''AWS_SESSION_TOKEN'') else None)
      else None)"

definition new_store ::
  "(string \<Rightarrow> string option) \<Rightarrow> (client_options \<Rightarrow> err + 's s3_api) \<Rightarrow> object_storage \<Rightarrow> int \<Rightarrow> err + 's s3_api \<times> string" where
  "new_store env build ps timeout =
     (case parse_bucket_url (os_bucket_url ps) of
        Inl e \<Rightarrow> Inl (Cat (Txt ''BucketURL: '') e)
      | Inr t \<Rightarrow>
          (case build \<lparr>so_region = tg_region t, so_timeout = timeout, so_keys = static_keys env ps,
                  so_endpoint = (if tg_endpoint t \<noteq> [] then Some (tg_endpoint t) else None), so_path_style = tg_path_style t\<rparr> of
             Inl e \<Rightarrow> Inl e
           | Inr api \<Rightarrow> Inr (api, tg_bucket t)))"

end
