(* ===== verification/Commands.thy ===== *)
theory Commands
  imports Opening PurgeWorld Status Wiring
begin

text \<open>
  The entry of the program (\<^verbatim>\<open>main\<close> of \<^verbatim>\<open>cmd/limewire-purge/main.go\<close>), the status command with its
  opening, and what the opening of a command, as \<open>Opening\<close> has it, does to the life of the progress database.
\<close>

section \<open>The entry\<close>

definition ErrHelp :: err where
  "ErrHelp = Sentinel ''flag: help requested''"

definition commands :: "string list" where
  "commands = [''scan'', ''purge'', ''verify'', ''status'', ''task'']"

text \<open>The exit code; \<open>run\<close> is the command with that name, applied to its arguments.\<close>

definition main_exit :: "(string \<Rightarrow> string list \<Rightarrow> 'w \<Rightarrow> err option \<times> 'w) \<Rightarrow> string list \<Rightarrow> 'w \<Rightarrow> nat \<times> 'w" where
  "main_exit run args w =
     (case args of
        [] \<Rightarrow> (2, w)
      | name # rest \<Rightarrow>
          if name \<notin> set commands then (2, w)
          else (case run name rest w of
                  (None, w) \<Rightarrow> (0, w)
                | (Some e, w) \<Rightarrow> (if err_is e ErrHelp then 0 else 1, w)))"

section \<open>The status command\<close>

record status_flags =
  sf_common :: common
  sf_failures :: int
  sf_task :: u64

text \<open>It takes no lock: all of it runs under the operator's context.\<close>

definition status_command :: "surroundings \<Rightarrow> (string list \<Rightarrow> err + status_flags \<times> string list) \<Rightarrow> string list \<Rightarrow> (world, status) act" where
  "status_command e parse args =
     bindA (parse_flags parse args) (\<lambda>fl.
     bindA (failIf (sf_failures fl < 0) (Txt ''--failures must be nonnegative'')) (\<lambda>_.
     bindA (open_db e (sf_common fl)) (\<lambda>_.
     deferring (close_db e) (
       bindA (if co_config (sf_common fl) \<noteq> []
              then bindA (load e (sf_common fl)) (\<lambda>cfg.
                   bindA (liftE (make_binding (sf_common fl) cfg)) (\<lambda>b. ret (Some b)))
              else ret None) (\<lambda>b.
       run_status OperatorCtx b (nat (sf_failures fl)) (sf_task fl))))))"

section \<open>The life of the database\<close>

definition idle :: "(string \<Rightarrow> string) \<Rightarrow> world \<Rightarrow> world \<Rightarrow> bool" where
  "idle H w v \<longleftrightarrow> (reachable H (Idle, w) \<longrightarrow> reachable H (Idle, v))"

lemma idle_order: "reflp (idle H)" "transp (idle H)"
  by (auto simp: idle_def intro!: reflpI transpI)

lemma idle_same: "w_db v = w_db w \<Longrightarrow> idle H w v"
  by (auto simp: idle_def intro: reachable.step [OF _ environment])

lemma idle_step: "session H (Idle, w) (Idle, v) \<Longrightarrow> idle H w v"
  by (auto simp: idle_def intro: reachable.step)

named_theorems idle_rules \<open>actions that keep an idle database reachable\<close>

lemma idle_keeps: "(\<And>I. keeps I m) \<Longrightarrow> transits (idle H) m"
proof (rule transitsI)
  fix w x v assume keeps: "\<And>I. keeps I m" and run: "m w = (x, v)"
  show "idle H w v" by (rule idle_same, rule keepsE [OF keeps _ run]) simp
qed

lemma idle_ret [idle_rules]: "transits (idle H) (ret x)" and idle_throw [idle_rules]: "transits (idle H) (throw e)"
  by (rule transits_ret transits_throw, rule idle_order)+

lemma idle_bind [idle_rules]:
  "transits (idle H) m \<Longrightarrow> (\<And>x. transits (idle H) (f x)) \<Longrightarrow> transits (idle H) (bindA m f)"
  by (rule transits_bind [OF idle_order(2)])

lemma idle_try [idle_rules]:
  "transits (idle H) m \<Longrightarrow> (\<And>e. transits (idle H) (h e)) \<Longrightarrow> (\<And>x. transits (idle H) (f x)) \<Longrightarrow> transits (idle H) (tryA m h f)"
  by (rule transits_try [OF idle_order(2)])

lemma idle_pure [idle_rules]: "transits (idle H) (liftE r)" "transits (idle H) (failIf b e)"
  by (simp_all add: liftE_def failIf_def transits_def idle_same throw_def ret_def)

lemma idle_option [idle_rules]:
  "transits (idle H) m \<Longrightarrow> (\<And>y. transits (idle H) (f y)) \<Longrightarrow> transits (idle H) (case x of None \<Rightarrow> m | Some y \<Rightarrow> f y)"
  by (cases x) auto

lemma idle_if [idle_rules]: "transits (idle H) m \<Longrightarrow> transits (idle H) n \<Longrightarrow> transits (idle H) (if b then m else n)"
  by simp

lemma idle_deferring [idle_rules]:
  assumes "transits (idle H) m" "\<And>w. w_db (d w) = w_db w"
  shows "transits (idle H) (deferring d m)"
proof (rule transitsI)
  fix w x v assume "deferring d m w = (x, v)"
  then obtain u where u: "m w = (x, u)" "v = d u" by (auto simp: deferring_def split: prod.splits)
  show "idle H w v"
    using transitsD [OF assms(1) u(1)] idle_same [of v u H] assms(2) u(2) transpD [OF idle_order(2)] by metis
qed

lemma idle_statement [idle_rules]:
  assumes "\<And>w. w_db (snd (f w)) = w_db w"
  shows "transits (idle H) (statement c f)"
proof (rule transitsI)
  fix w x v assume "statement c f w = (x, v)"
  then show "idle H w v" using assms by (intro idle_same) (auto dest!: statement_cases, (metis snd_conv)+)
qed

lemma idle_modify: "(\<And>w. w_db (f w) = w_db w) \<Longrightarrow> transits (idle H) (modifyA f)"
  by (rule transitsI) (auto simp: modifyA_def intro: idle_same)

lemma idle_load [idle_rules]: "transits (idle H) (load e c)" and idle_parse [idle_rules]: "transits (idle H) (parse_flags parse args)"
  unfolding load_def parse_flags_def by (auto intro!: idle_rules split: prod.split)

section \<open>Opening and closing\<close>

lemma close_db_same [simp]: "w_db (close_db e w) = w_db w"
proof -
  have "w_db (snd (lock_close l w)) = w_db w" for l
  proof (cases "statement Background (release_lock (lk_id l)) w")
    case (Pair r v)
    then have "w_db v = w_db w" by (auto dest!: statement_cases simp: release_lock_def split: if_splits)
    then show ?thesis using Pair by (auto simp: lock_close_def)
  qed
  then show ?thesis by (auto simp: close_db_def db_close_def split: option.splits prod.splits) (metis snd_conv)
qed

lemma keeps_statement:
  assumes "\<And>w. w_db (snd (f w)) = w_db w"
  shows "keeps I (statement c f)"
  by (rule dbhI) (use assms in \<open>auto dest!: statement_cases, (metis snd_conv)+\<close>)

lemma keeps_modify: "(\<And>w. w_db (f w) = w_db w) \<Longrightarrow> keeps I (modifyA f)" and keeps_get: "keeps I (getA g)"
  by (auto intro!: dbhI simp: modifyA_def getA_def)

lemma keeps_acquire: "keeps I (acquire c conn operation)"
proof (cases conn)
  case (Pair database k)
  have 1: "keeps I (statement c (get_lock k))" for k by (rule keeps_statement) (simp add: get_lock_def)
  have 2: "keeps I (statement c (ret x))" for x :: 'b by (rule keeps_statement) (simp add: ret_def)
  have 3: "keeps I (case q of (database, k) \<Rightarrow> m database k)" if "\<And>database k. keeps I (m database k)"
    for q :: "string \<times> i64" and m :: "string \<Rightarrow> i64 \<Rightarrow> (world, unit) act" using that by (cases q) simp
  show ?thesis
    unfolding acquire_def Pair by (intro keeps_bind 1 2 3 keeps_rules keeps_get keeps_modify) simp
qed

lemma idle_acquire: "transits (idle H) (acquire c conn operation)"
  by (rule idle_keeps [OF keeps_acquire])

lemma idle_or_close [idle_rules]: "transits (idle H) m \<Longrightarrow> transits (idle H) (or_close e m)"
  unfolding or_close_def by (intro idle_rules idle_modify close_db_same)

lemma idle_open [idle_rules]:
  "transits (idle H) (open_db e c)" "transits (idle H) (open_locked e c operation)" "transits (idle H) (open_bound e c cfg)"
proof -
  show 1: "transits (idle H) (open_db e c)" unfolding open_db_def by (intro idle_rules)
  have "transits (idle H) (ensure_schema sc c)" for sc c
    by (rule transitsI, rule idle_step, rule opened)
  then show 2: "transits (idle H) (open_locked e c operation)" for operation
    unfolding open_locked_def by (intro idle_rules 1 idle_acquire)
  have "transits (idle H) (check_binding c b)" "transits (idle H) (require_complete_scan c)" for c b
    by (rule idle_keeps, intro keeps_rules)+
  then show "transits (idle H) (open_bound e c cfg)"
    unfolding open_bound_def by (intro idle_rules 2)
qed

lemma idle_task_error [idle_rules]: "transits (idle H) m \<Longrightarrow> transits (idle H) (with_task_error k m)"
  unfolding with_task_error_def by (intro idle_rules)

lemma idle_hold_global [idle_rules]: "transits (idle H) (hold_global c s cause)"
proof -
  have "transits (idle H) (hold c tid oid reason)" for tid oid reason
    by (rule transitsI, rule idle_step, rule held)
  then show ?thesis unfolding hold_global_def by (intro idle_rules)
qed

lemma idle_print [idle_rules]: "transits (idle H) (print_subtask c locked s)"
  unfolding print_subtask_def by (rule idle_keeps, intro keeps_rules)

lemma idle_reads [idle_rules]:
  "transits (idle H) (resolve_purge c tid)" "transits (idle H) (resolve_verify c tid)" "transits (idle H) (resolve_admin c tid)"
  "transits (idle H) (subtask_row c tid)" "transits (idle H) (sub_counts c tid)" "transits (idle H) (check_manifest D c s)"
  "transits (idle H) (verify_report c s)" "transits (idle H) (read_all_counts c)"
  by (rule idle_keeps, (unfold read_all_counts_def)?, intro keeps_rules)+

section \<open>The same beside another world\<close>

definition idle_pair :: "(string \<Rightarrow> string) \<Rightarrow> world \<times> 'w \<Rightarrow> world \<times> 'w \<Rightarrow> bool" where
  "idle_pair H w v \<longleftrightarrow> idle H (fst w) (fst v)"

lemma pair_order: "reflp (idle_pair H)" "transp (idle_pair H)"
  using idle_order [of H] unfolding idle_pair_def by (auto intro!: reflpI transpI dest: reflpD transpD)

named_theorems pair_rules \<open>actions on a pair that keep an idle database reachable\<close>

lemma pair_db [pair_rules]: "transits (idle H) m \<Longrightarrow> transits (idle_pair H) (on_db m)"
  by (auto simp: transits_def idle_pair_def on_db_iff)

lemma pair_store [pair_rules]: "transits (idle_pair H) (on_store m)"
  by (auto simp: transits_def idle_pair_def on_store_iff idle_same)

lemma pair_ret [pair_rules]: "transits (idle_pair H) (ret x)" and pair_throw [pair_rules]: "transits (idle_pair H) (throw e)"
  by (rule transits_ret transits_throw, rule pair_order)+

lemma pair_bind [pair_rules]:
  "transits (idle_pair H) m \<Longrightarrow> (\<And>x. transits (idle_pair H) (f x)) \<Longrightarrow> transits (idle_pair H) (bindA m f)"
  by (rule transits_bind [OF pair_order(2)])

lemma pair_try [pair_rules]:
  "transits (idle_pair H) m \<Longrightarrow> (\<And>e. transits (idle_pair H) (h e)) \<Longrightarrow> (\<And>x. transits (idle_pair H) (f x)) \<Longrightarrow>
   transits (idle_pair H) (tryA m h f)"
  by (rule transits_try [OF pair_order(2)])

lemma pair_pure [pair_rules]: "transits (idle_pair H) (liftE r)" "transits (idle_pair H) (failIf b e)"
  by (simp_all add: liftE_def failIf_def transits_def idle_pair_def idle_same throw_def ret_def)

lemma pair_option [pair_rules]:
  "transits (idle_pair H) m \<Longrightarrow> (\<And>y. transits (idle_pair H) (f y)) \<Longrightarrow>
   transits (idle_pair H) (case x of None \<Rightarrow> m | Some y \<Rightarrow> f y)"
  by (cases x) auto

lemma pair_if [pair_rules]:
  "transits (idle_pair H) m \<Longrightarrow> transits (idle_pair H) n \<Longrightarrow> transits (idle_pair H) (if b then m else n)"
  by simp

lemma pair_flags [pair_rules]: "transits (idle_pair H) (load e c)" "transits (idle_pair H) (parse_flags parse args)"
  unfolding load_def parse_flags_def by (auto intro!: pair_rules split: prod.split)

lemma pair_task_error [pair_rules]: "transits (idle_pair H) m \<Longrightarrow> transits (idle_pair H) (with_task_error k m)"
  unfolding with_task_error_def by (intro pair_rules)

lemma pair_close: "idle_pair H w v \<Longrightarrow> idle_pair H w (apfst (close_db e) v)"
  using transpD [OF idle_order(2) _ idle_same [of "close_db e (fst v)" "fst v" H]]
  by (cases v) (simp add: idle_pair_def)

end
