(* ===== verification/TaskCommand.thy ===== *)
theory TaskCommand
  imports Commands Capacity
begin

text \<open>
  The task command, \<^verbatim>\<open>runTask\<close> of \<^verbatim>\<open>cmd/limewire-purge/tasks.go\<close>: it creates a task, defers an object or
  lifts a safety hold, and prints the task. The parser of the flag set of an action is a parameter.
\<close>

section \<open>The command\<close>

record task_flags =
  tf_common :: common
  tf_size :: string
  tf_max :: int
  tf_deferred :: bool
  tf_task :: u64
  tf_reason :: string
  tf_oid :: u64

definition task_create :: "(string \<Rightarrow> string) \<Rightarrow> task_flags \<Rightarrow> (world, string) act" where
  "task_create H fl =
     bindA (liftE (parse_capacity (tf_size fl))) (\<lambda>n.
     bindA (create_subtask H LockCtx n (tf_max fl) (tf_deferred fl)) (\<lambda>s.
     with_task_error (st_id s) (print_subtask LockCtx False s)))"

definition task_decide :: "string \<Rightarrow> task_flags \<Rightarrow> subtask \<Rightarrow> (world, unit) act" where
  "task_decide action fl s =
     (if action = ''defer''
      then bindA (failIf (tf_oid fl = 0) (Txt ''--oid is required'')) (\<lambda>_.
           defer_object LockCtx s (tf_oid fl) (tf_reason fl))
      else if action = ''resume'' then resume_safety LockCtx s (tf_reason fl)
      else ret ())"

definition task_administer :: "string \<Rightarrow> task_flags \<Rightarrow> (world, string) act" where
  "task_administer action fl =
     bindA (resolve_admin LockCtx (tf_task fl)) (\<lambda>s.
     with_task_error (st_id s) (
       bindA (task_decide action fl s) (\<lambda>_.
       bindA (subtask_row LockCtx (st_id s)) (\<lambda>s.
       print_subtask LockCtx False s))))"

definition run_task ::
  "(string \<Rightarrow> string) \<Rightarrow> surroundings \<Rightarrow> (string \<Rightarrow> string list \<Rightarrow> err + task_flags \<times> string list) \<Rightarrow> string list \<Rightarrow>
   (world, string) act" where
  "run_task H e parse args =
     (case args of
        [] \<Rightarrow> throw (Txt ''usage: task <create|defer|exclude|resume> [flags]'')
      | a # rest \<Rightarrow>
          let action = (if a = ''exclude'' then ''defer'' else a) in
          bindA (failIf (action \<noteq> ''create'' \<and> action \<noteq> ''defer'' \<and> action \<noteq> ''resume'')
            (Txt (''unknown task action '' @ quote action))) (\<lambda>_.
          bindA (parse_flags (parse action) rest) (\<lambda>fl.
          bindA (load e (tf_common fl)) (\<lambda>cfg.
          bindA (open_bound e (tf_common fl) cfg) (\<lambda>_.
          deferring (close_db e)
            (if action = ''create'' then task_create H fl else task_administer action fl))))))"

section \<open>The life of the database\<close>

text \<open>A decision is taken on the task just resolved.\<close>

lemma task_decide_session:
  assumes "resolve_admin LockCtx tid w = (Inr s, u)" "task_decide action fl s u = (r, v)"
  shows "session H (Idle, w) (Idle, v)"
proof -
  have same: "w_db u = w_db w" by (rule resolve_unchanged(3) [OF assms(1)])
  consider (d) "action = ''defer''" "tf_oid fl \<noteq> 0" "defer_object LockCtx s (tf_oid fl) (tf_reason fl) u = (r, v)"
    | (r) "action = ''resume''" "resume_safety LockCtx s (tf_reason fl) u = (r, v)"
    | (n) "v = u"
    using assms(2) by (auto simp: task_decide_def act_defs split: if_splits)
  then show ?thesis
  proof cases
    case d
    show ?thesis by (rule session.deferred [OF assms(1) refl d(3)])
  next
    case r
    show ?thesis by (rule resumed [OF assms(1) refl r(2)])
  next
    case n
    show ?thesis by (rule environment) (simp add: n same)
  qed
qed

lemma idle_administer: "transits (idle H) (task_administer action fl)"
proof (rule transitsI)
  fix w x v assume run: "task_administer action fl w = (x, v)"
  obtain y u where res: "resolve_admin LockCtx (tf_task fl) w = (y, u)" by (cases "resolve_admin LockCtx (tf_task fl) w")
  show "idle H w v"
  proof (cases y)
    case (Inl e)
    then have "v = u" using run res by (simp add: task_administer_def bindA_def)
    then show ?thesis using resolve_unchanged(3) [OF res] by (intro idle_same) simp
  next
    case (Inr s)
    obtain z t where dec: "task_decide action fl s u = (z, t)" by (cases "task_decide action fl s u")
    have wt: "idle H w t" by (rule idle_step [OF task_decide_session [OF res [unfolded Inr] dec]])
    let ?rest = "bindA (subtask_row LockCtx (st_id s)) (\<lambda>s. print_subtask LockCtx False s)"
    have "v = t \<or> (\<exists>q. ?rest t = (q, v))"
      using run res Inr dec by (auto simp: task_administer_def with_task_error_def tryA_def bindA_def throw_def ret_def
          split: sum.splits prod.splits)
    moreover have "transits (idle H) ?rest" by (intro idle_rules)
    ultimately have "idle H t v" using transitsD idle_order(1) by (metis reflpD)
    then show ?thesis using wt transpD [OF idle_order(2)] by blast
  qed
qed

lemma idle_task: "transits (idle H) (run_task H e parse args)"
proof -
  have "transits (idle H) (create_subtask H c target limit retry)" for c target limit retry
    by (rule transitsI, rule idle_step, rule created)
  then have "transits (idle H) (task_create H fl)" for fl unfolding task_create_def by (intro idle_rules)
  then show ?thesis
    unfolding run_task_def Let_def
    by (cases args) (auto intro!: idle_bind idle_pure idle_throw idle_load idle_parse idle_open idle_deferring idle_administer)
qed

end
