(* ===== verification/BsdbScan.thy ===== *)
theory BsdbScan
  imports Paging Wiring
begin

text \<open>
  Reading the object list out of the storage provider's index, \<^verbatim>\<open>internal/bsdb/scan.go\<close>: the shard of a
  bucket, the count, the scan by primary key and its reconciliation. The index is a table of the
  provider's database that may change, fail or break off under the scan, as its script says.
\<close>

section \<open>The index\<close>

text \<open>A row of \<^verbatim>\<open>objects_NN\<close>; the identifiers of buckets and objects are 32-byte numbers.\<close>

record index_row =
  ix_id :: u64
  ix_bucket_id :: "256 word"
  ix_bucket :: string
  ix_removed :: bool
  ix_object_id :: "256 word"
  ix_payload :: u64
  ix_status :: string
  ix_version :: i64

datatype index_event =
    Serve
  | NoAnswer string
  | Broken nat string
  | Unreadable nat string
  | Changed "index_row list"

record index =
  in_rows :: "index_row list"
  in_script :: "index_event list"

text \<open>\<^verbatim>\<open>TableFor\<close>, with \<open>murmur3\<close> the hash of the name.\<close>

definition table_for :: "(string \<Rightarrow> u32) \<Rightarrow> string \<Rightarrow> string" where
  "table_for murmur3 name =
     (let n = unat (murmur3 name mod 64) in ''objects_'' @ (if n < 10 then ''0'' else []) @ dec n)"

text \<open>\<^verbatim>\<open>WHERE bucket_id = UNHEX(LPAD(?, 64, '0')) AND bucket_name = ? AND removed = 0\<close>\<close>

definition live_rows :: "u64 \<Rightarrow> string \<Rightarrow> index_row list \<Rightarrow> index_row list" where
  "live_rows bid name = filter (\<lambda>r. ix_bucket_id r = ucast bid \<and> ix_bucket r = name \<and> \<not> ix_removed r)"

definition index_page :: "u64 \<Rightarrow> string \<Rightarrow> index_row list \<Rightarrow> u64 \<Rightarrow> nat \<Rightarrow> index_row list" where
  "index_page bid name rows after n =
     take n (sort_key ix_id (filter (\<lambda>r. after < ix_id r) (live_rows bid name rows)))"

interpretation indexed: keyset "index_page bid name" "live_rows bid name" ix_id for bid name
  by unfold_locales (simp add: index_page_def)

section \<open>Statements on the index\<close>

text \<open>The rows that a query serves, each readable or not, and the error that \<^verbatim>\<open>rows.Err()\<close> reports.\<close>

type_synonym served = "(err + index_row) list \<times> err option"

definition index_query :: "u64 \<Rightarrow> string \<Rightarrow> u64 \<Rightarrow> int \<Rightarrow> (index, served) act" where
  "index_query bid name after limit ix =
     (if limit < 0 then (Inl (Txt ''You have an error in your SQL syntax''), ix)
      else
        let page = (\<lambda>ix. index_page bid name (in_rows ix) after (nat limit)) in
        case in_script ix of
          [] \<Rightarrow> (Inr (map Inr (page ix), None), ix)
        | ev # evs \<Rightarrow>
            let ix = ix\<lparr>in_script := evs\<rparr> in
            (case ev of
               Serve \<Rightarrow> (Inr (map Inr (page ix), None), ix)
             | NoAnswer e \<Rightarrow> (Inl (Txt e), ix)
             | Broken k e \<Rightarrow> (Inr (map Inr (take k (page ix)), Some (Txt e)), ix)
             | Unreadable k e \<Rightarrow> (Inr (map Inr (take k (page ix)) @ [Inl (Txt e)], None), ix)
             | Changed rows \<Rightarrow> let ix = ix\<lparr>in_rows := rows\<rparr> in (Inr (map Inr (page ix), None), ix)))"

text \<open>\<^verbatim>\<open>Count\<close>: one row with one number, or an error.\<close>

definition index_count :: "u64 \<Rightarrow> string \<Rightarrow> (index, u64) act" where
  "index_count bid name ix =
     (let count = (\<lambda>ix. word_of_nat (length (live_rows bid name (in_rows ix)))) in
      case in_script ix of
        [] \<Rightarrow> (Inr (count ix), ix)
      | ev # evs \<Rightarrow>
          let ix = ix\<lparr>in_script := evs\<rparr> in
          (case ev of
             Serve \<Rightarrow> (Inr (count ix), ix)
           | NoAnswer e \<Rightarrow> (Inl (Txt e), ix)
           | Broken k e \<Rightarrow> (Inl (Txt e), ix)
           | Unreadable k e \<Rightarrow> (Inl (Txt e), ix)
           | Changed rows \<Rightarrow> let ix = ix\<lparr>in_rows := rows\<rparr> in (Inr (count ix), ix)))"

definition reconcile :: "u64 \<Rightarrow> u64 \<Rightarrow> u64 \<Rightarrow> err option" where
  "reconcile count_before count_after got =
     (if count_before \<noteq> count_after
      then Some (Txt (''bsdb count changed during the scan ('' @ dec (unat count_before) @ '' before, '' @ dec (unat count_after) @
             '' after); the bucket is not stable, re-run scan''))
      else if got \<noteq> count_before
      then Some (Txt (''scan read '' @ dec (unat got) @ '' rows but bsdb counts '' @ dec (unat count_before) @
             '' live objects; the list is incomplete, re-run scan''))
      else None)"

section \<open>The scan\<close>

text \<open>\<^verbatim>\<open>CONV(RIGHT(HEX(object_id), 16), 16, 10)\<close>: the last eight bytes as a decimal text.\<close>

definition object_text :: "index_row \<Rightarrow> string" where
  "object_text r = dec (unat (ucast (ix_object_id r) :: u64))"

definition to_scan_row :: "index_row \<Rightarrow> u64 \<Rightarrow> scan_row" where
  "to_scan_row r oid = \<lparr>sr_oid = oid, sr_payload = ix_payload r,
     sr_status = trim_prefix (ix_status r) ''OBJECT_STATUS_'', sr_version = ix_version r\<rparr>"

text \<open>The rows of one batch, and the last row id.\<close>

fun read_rows :: "(err + index_row) list \<Rightarrow> u64 \<Rightarrow> err + scan_row list \<times> u64" where
  "read_rows [] last_id = Inr ([], last_id)"
| "read_rows (Inl e # xs) last_id = Inl e"
| "read_rows (Inr r # xs) last_id =
     (case parse_uint 64 (object_text r) of
        None \<Rightarrow> Inl (Txt (''row id '' @ dec (unat (ix_id r)) @ '': bad object_id '' @ quote (object_text r)))
      | Some k \<Rightarrow>
          (case read_rows xs (ix_id r) of
             Inl e \<Rightarrow> Inl e
           | Inr (out, l) \<Rightarrow> Inr (to_scan_row r (of_nat k) # out, l)))"

partial_function (option) scan_loop ::
  "(u64 \<Rightarrow> int \<Rightarrow> ('w, served) act) \<Rightarrow> (scan_row list \<Rightarrow> ('w, unit) act) \<Rightarrow> int \<Rightarrow> u64 \<Rightarrow> u64 \<Rightarrow> 'w \<Rightarrow>
   ((u64 \<times> err option) \<times> 'w) option" where
  "scan_loop ask f batch last_id got w =
     (case ask last_id batch w of
        (Inl e, w) \<Rightarrow> Some ((got, Some e), w)
      | (Inr (served, broken), w) \<Rightarrow>
          (case read_rows served last_id of
             Inl e \<Rightarrow> Some ((got, Some e), w)
           | Inr (out, last_id) \<Rightarrow>
               (case broken of
                  Some e \<Rightarrow> Some ((got, Some (Cat (Txt (''bsdb read after row id '' @ dec (unat last_id) @ '': '')) e)), w)
                | None \<Rightarrow>
                    if length out = 0 then Some ((got, None), w)
                    else (case f out w of
                            (Inl e, w) \<Rightarrow> Some ((got, Some e), w)
                          | (Inr _, w) \<Rightarrow>
                              let got = got + word_of_nat (length out) in
                              if int (length out) < batch then Some ((got, None), w)
                              else scan_loop ask f batch last_id got w))))"

declare scan_loop.simps [code]

definition index_scan ::
  "(u64 \<Rightarrow> int \<Rightarrow> ('w, served) act) \<Rightarrow> (scan_row list \<Rightarrow> ('w, unit) act) \<Rightarrow> int \<Rightarrow> 'w \<Rightarrow>
   ((u64 \<times> err option) \<times> 'w) option" where
  "index_scan ask f batch = scan_loop ask f batch 0 0"

section \<open>One batch\<close>

lemma object_text_parses [simp]: "parse_uint 64 (object_text r) = Some (unat (ucast (ix_object_id r) :: u64))"
  by (simp add: object_text_def)

text \<open>The snapshot of a row.\<close>

definition snapshot :: "index_row \<Rightarrow> scan_row" where
  "snapshot r = to_scan_row r (ucast (ix_object_id r))"

lemma read_rows_all: "read_rows (map Inr rs) l = Inr (map snapshot rs, if rs = [] then l else ix_id (last rs))"
  by (induction rs arbitrary: l) (auto simp: snapshot_def)

lemma read_rows_ok:
  "read_rows xs l = Inr (out, l') \<Longrightarrow> \<exists>rs. xs = map Inr rs \<and> out = map snapshot rs \<and> l' = (if rs = [] then l else ix_id (last rs))"
proof (induction xs l arbitrary: out l' rule: read_rows.induct)
  case (3 r xs l)
  then obtain out1 where out1: "read_rows xs (ix_id r) = Inr (out1, l')" "out = snapshot r # out1"
    by (auto simp: snapshot_def split: sum.splits)
  from "3.IH" [OF object_text_parses out1(1)] obtain rs
    where "xs = map Inr rs" "out1 = map snapshot rs" "l' = (if rs = [] then ix_id r else ix_id (last rs))" by blast
  then show ?case using out1(2) by (intro exI [of _ "r # rs"]) auto
qed auto

section \<open>The scan ends\<close>

lemma index_query_rows:
  assumes "index_query bid name a n ix = (Inr (map Inr rs, broken), ix')"
  shows "\<forall>r\<in>set rs. a < ix_id r"
proof -
  have page: "\<forall>r\<in>set (take k (index_page bid name rows a m)). a < ix_id r" for k m rows
    by (auto dest!: in_set_takeD indexed.page_beyond)
  have inj: "inj (Inr :: index_row \<Rightarrow> err + index_row)" by (simp add: inj_on_def)
  have "\<exists>k m rows. rs = take k (index_page bid name rows a m)"
  proof -
    have *: "\<exists>k m rows. rs = take k (index_page bid name rows a m)" if "rs = index_page bid name rows a m" for m rows
      using that by (metis order_refl take_all)
    have no: "map Inr rs \<noteq> xs @ [Inl e]" for xs and e :: err
      by (metis Inl_Inr_False ex_map_conv in_set_conv_decomp)
    show ?thesis
      using assms * no inj_map_eq_map [OF inj]
      by (auto simp: index_query_def Let_def split: if_splits list.splits index_event.splits) metis+
  qed
  then show ?thesis using page by auto
qed

text \<open>One turn of the loop.\<close>

lemma scan_turn:
  assumes "ask l batch w = (y, u)"
  obtains (stopped) g e v where "scan_loop ask f batch l got w = Some ((g, Some e), v)"
  | (finished) rs where "y = Inr (map Inr rs, None)" "rs = []" "scan_loop ask f batch l got w = Some ((got, None), u)"
  | (short) rs v where "y = Inr (map Inr rs, None)" "rs \<noteq> []" "f (map snapshot rs) u = (Inr (), v)" "int (length rs) < batch"
      "scan_loop ask f batch l got w = Some ((got + word_of_nat (length rs), None), v)"
  | (full) rs v where "y = Inr (map Inr rs, None)" "rs \<noteq> []" "f (map snapshot rs) u = (Inr (), v)" "batch \<le> int (length rs)"
      "scan_loop ask f batch l got w = scan_loop ask f batch (ix_id (last rs)) (got + word_of_nat (length rs)) v"
proof (cases y)
  case (Inl e)
  then show ?thesis using assms by (intro stopped) (auto simp: scan_loop.simps [of ask f batch l got w])
next
  case (Inr sb)
  obtain served broken where y: "y = Inr (served, broken)" using Inr by (cases sb) auto
  show ?thesis
  proof (cases "read_rows served l")
    case (Inl e)
    then show ?thesis using assms y by (intro stopped) (auto simp: scan_loop.simps [of ask f batch l got w])
  next
    case (Inr ol)
    then obtain out l' where read: "read_rows served l = Inr (out, l')" by (cases ol) auto
    then obtain rs where rs: "served = map Inr rs" "out = map snapshot rs" "l' = (if rs = [] then l else ix_id (last rs))"
      using read_rows_ok by blast
    show ?thesis
    proof (cases broken)
      case (Some e)
      then show ?thesis using assms y read by (intro stopped) (auto simp: scan_loop.simps [of ask f batch l got w])
    next
      case None
      show ?thesis
      proof (cases "rs = []")
        case True
        then show ?thesis using assms y read rs None
          by (intro finished) (auto simp: scan_loop.simps [of ask f batch l got w])
      next
        case False
        obtain z v where f: "f out u = (z, v)" by (cases "f out u")
        show ?thesis
        proof (cases z)
          case (Inl e)
          then show ?thesis using assms y read rs None False f
            by (intro stopped) (auto simp: scan_loop.simps [of ask f batch l got w])
        next
          case (Inr q)
          then have run: "scan_loop ask f batch l got w = (if int (length rs) < batch
              then Some ((got + word_of_nat (length rs), None), v)
              else scan_loop ask f batch (ix_id (last rs)) (got + word_of_nat (length rs)) v)"
            using assms y read rs None False f by (simp add: scan_loop.simps [of ask f batch l got w] Let_def)
          show ?thesis
            using run y rs(1,2) None False f Inr short [of rs v] full [of rs v] by (auto split: if_splits)
        qed
      qed
    qed
  qed
qed

lemma room_above: "l < m \<Longrightarrow> 2 ^ 64 - unat m < 2 ^ 64 - unat (l :: u64)"
proof -
  assume "l < m"
  then have "unat l < unat m" by (simp add: word_less_nat_alt)
  moreover have "unat m < 2 ^ 64" by simp
  ultimately show ?thesis by linarith
qed

lemma index_scan_ends:
  fixes f :: "scan_row list \<Rightarrow> ('v \<times> index, unit) act"
  shows "\<exists>y. scan_loop (\<lambda>a n. on_store (index_query bid name a n)) f batch l got w = Some y"
proof (induction "2 ^ 64 - unat l" arbitrary: l got w rule: less_induct)
  case less
  let ?ask = "\<lambda>a n. on_store (index_query bid name a n) :: ('v \<times> index, served) act"
  obtain y u where ask: "?ask l batch w = (y, u)" by (cases "?ask l batch w")
  show ?case
    using ask
  proof (cases rule: scan_turn [where f = f and got = got])
    case (full rs v)
    have "index_query bid name l batch (snd w) = (Inr (map Inr rs, None), snd u)"
      using ask full(1) by (simp add: on_store_iff)
    then have "l < ix_id (last rs)" using index_query_rows full(2) by fastforce
    then have "2 ^ 64 - unat (ix_id (last rs)) < 2 ^ 64 - unat l" by (rule room_above)
    then show ?thesis unfolding full(5) by (rule less)
  qed auto
qed

text \<open>What every query and every call of the callback keeps, the scan keeps.\<close>

lemma scan_loop_transits:
  assumes "reflp R" "transp R" "\<And>a n. transits R (ask a n)" "\<And>rows. transits R (f rows)"
    and "scan_loop ask f batch l got w = Some (y, v)"
  shows "R w v"
proof -
  let ?P = "\<lambda>ask' f' (b :: int) l (g :: u64) w (y :: (u64 \<times> err option) \<times> 'a). ask' = ask \<longrightarrow> f' = f \<longrightarrow> R w (snd y)"
  have "?P ask f batch l got w (y, v)"
  proof (rule scan_loop.raw_induct [where P = ?P, OF _ assms(5)], intro impI)
    fix rec ask' f' b l g w y
    assume IH: "\<And>ask' f' b l g w y. rec ask' f' b l g w = Some y \<Longrightarrow> ?P ask' f' b l g w y"
      and run: "(case ask' l b w of (Inl e, w) \<Rightarrow> Some ((g, Some e), w)
        | (Inr (served, broken), w) \<Rightarrow> (case read_rows served l of Inl e \<Rightarrow> Some ((g, Some e), w)
           | Inr (out, last_id) \<Rightarrow> (case broken of
                Some e \<Rightarrow> Some ((g, Some (Cat (Txt (''bsdb read after row id '' @ dec (unat last_id) @ '': '')) e)), w)
              | None \<Rightarrow> if length out = 0 then Some ((g, None), w)
                  else (case f' out w of (Inl e, w) \<Rightarrow> Some ((g, Some e), w)
                    | (Inr _, w) \<Rightarrow> let g = g + word_of_nat (length out) in
                        if int (length out) < b then Some ((g, None), w) else rec ask' f' b last_id g w)))) = Some y"
      and eq: "ask' = ask" "f' = f"
    obtain q u where ask: "ask l b w = (q, u)" by (cases "ask l b w")
    have wu: "R w u" by (rule transitsD [OF assms(3) ask])
    note tr = transpD [OF assms(2)]
    show "R w (snd y)"
    proof (cases "\<exists>served out last_id. q = Inr (served, None) \<and> read_rows served l = Inr (out, last_id) \<and> out \<noteq> []")
      case False
      then have "snd y = u" using run ask eq by (auto split: sum.splits prod.splits option.splits if_splits)
      then show ?thesis using wu by simp
    next
      case True
      then obtain served out last_id where s: "q = Inr (served, None)" "read_rows served l = Inr (out, last_id)" "out \<noteq> []"
        by blast
      obtain z t where f: "f out u = (z, t)" by (cases "f out u")
      have wt: "R w t" by (rule tr [OF wu transitsD [OF assms(4) f]])
      have "snd y = t \<or> (\<exists>g. rec ask f b last_id g t = Some y)"
        using run ask eq s f by (auto simp: Let_def split: sum.splits if_splits)
      then show ?thesis using wt tr [OF wt] IH [of ask f b last_id _ t y] by blast
    qed
  qed
  then show ?thesis by simp
qed

section \<open>What a scan reads\<close>

text \<open>An index that does not change under the scan; it may still fail.\<close>

definition steady :: "index \<Rightarrow> bool" where
  "steady ix \<longleftrightarrow> (\<forall>rows. Changed rows \<notin> set (in_script ix))"

lemma index_query_steady:
  assumes "index_query bid name a n ix = (Inr (map Inr rs, None), ix')" "steady ix"
  shows "0 \<le> n \<and> rs = index_page bid name (in_rows ix) a (nat n) \<and> in_rows ix' = in_rows ix \<and> steady ix'"
proof -
  have no: "map Inr rs \<noteq> xs @ [Inl e]" for xs and e :: err
    by (metis Inl_Inr_False ex_map_conv in_set_conv_decomp)
  have inj: "inj (Inr :: index_row \<Rightarrow> err + index_row)" by (simp add: inj_on_def)
  show ?thesis
    using assms no inj_map_eq_map [OF inj]
    by (auto simp: index_query_def steady_def Let_def split: if_splits list.splits index_event.splits) (metis no)+
qed

text \<open>The callback gets every live row beyond the start once, in the order of the primary key, in batches.\<close>

lemma scan_loop_reads:
  fixes f :: "scan_row list \<Rightarrow> ('v, unit) act"
  assumes "distinct (map ix_id rows)" "0 < batch"
  shows "in_rows (snd w) = rows \<Longrightarrow> steady (snd w) \<Longrightarrow>
    scan_loop (\<lambda>a n. on_store (index_query bid name a n)) (\<lambda>rs. on_db (f rs)) batch l got w = Some ((g, None), v) \<Longrightarrow>
    \<exists>batches. concat batches = map snapshot (sort_key ix_id (filter (\<lambda>r. l < ix_id r) (live_rows bid name rows))) \<and>
      forA batches f (fst w) = (Inr (), fst v) \<and> g = got + word_of_nat (length (concat batches)) \<and>
      in_rows (snd v) = rows \<and> steady (snd v)"
proof (induction "2 ^ 64 - unat l" arbitrary: l got w rule: less_induct)
  case less
  let ?ask = "\<lambda>a n. on_store (index_query bid name a n) :: ('v \<times> index, served) act"
  let ?S = "\<lambda>l. sort_key ix_id (filter (\<lambda>r. l < ix_id r) (live_rows bid name rows))"
  obtain y u where ask: "?ask l batch w = (y, u)" by (cases "?ask l batch w")
  have page: "rs = take (nat batch) (?S l)" "in_rows (snd u) = rows" "steady (snd u)" "fst u = fst w"
      "rs = index_page bid name rows l (nat batch)"
    if "y = Inr (map Inr rs, None)" for rs
    using index_query_steady [of bid name l batch "snd w" rs "snd u"] ask that less.prems(1,2)
    by (auto simp: on_store_iff index_page_def)
  show ?case
    using ask
  proof (cases rule: scan_turn [where f = "\<lambda>rs. on_db (f rs)" and got = got])
    case (stopped g' e v')
    then show ?thesis using less.prems(3) by simp
  next
    case (finished rs)
    have "?S l = []" using page(1) [OF finished(1)] finished(2) assms(2) by simp
    then show ?thesis using finished less.prems(3) page [OF finished(1)]
      by (intro exI [of _ "[]"]) (auto simp: ret_def)
  next
    case (short rs v')
    have "length rs < nat batch" using short(4) assms(2) by simp
    then have "length (?S l) \<le> nat batch" using page(1) [OF short(1)] by (simp add: min_def split: if_splits)
    then have "?S l = rs" using page(1) [OF short(1)] by simp
    then show ?thesis using short less.prems(3) page [OF short(1)]
      by (intro exI [of _ "[map snapshot rs]"]) (auto simp: on_db_iff act_defs)
  next
    case (full rs v')
    have ne: "index_page bid name rows l (nat batch) \<noteq> []" using page(5) [OF full(1)] full(2) by simp
    have dist: "distinct (map ix_id (live_rows bid name rows))"
      using assms(1) by (simp add: live_rows_def distinct_map_filter)
    have next_page: "?S (ix_id (last rs)) = drop (nat batch) (?S l)"
      using indexed.page_next [OF dist _ ne] assms(2) page(5) [OF full(1)] by simp
    have "l < ix_id (last rs)"
      using indexed.page_beyond [of "last rs" bid name rows l "nat batch"] page(5) [OF full(1)] full(2) by simp
    then have small: "2 ^ 64 - unat (ix_id (last rs)) < 2 ^ 64 - unat l" by (rule room_above)
    have v': "f (map snapshot rs) (fst w) = (Inr (), fst v')" "snd v' = snd u"
      using full(3) page(4) [OF full(1)] by (auto simp: on_db_iff)
    have "\<exists>batches. concat batches = map snapshot (?S (ix_id (last rs))) \<and> forA batches f (fst v') = (Inr (), fst v) \<and>
        g = got + word_of_nat (length rs) + word_of_nat (length (concat batches)) \<and> in_rows (snd v) = rows \<and> steady (snd v)"
      by (rule less.hyps [OF small]) (use less.prems(3) page(2,3) [OF full(1)] v'(2) full(5) in auto)
    then obtain batches where b: "concat batches = map snapshot (?S (ix_id (last rs)))"
        "forA batches f (fst v') = (Inr (), fst v)"
        "g = got + word_of_nat (length rs) + word_of_nat (length (concat batches))"
        "in_rows (snd v) = rows" "steady (snd v)"
      by blast
    have "rs @ drop (nat batch) (?S l) = ?S l" using page(1) [OF full(1)] by simp
    then have "concat (map snapshot rs # batches) = map snapshot (?S l)"
      using b(1) next_page by (metis concat.simps(2) map_append)
    moreover have "g = got + word_of_nat (length (concat (map snapshot rs # batches)))"
      by (simp only: b(3) concat.simps length_append length_map of_nat_add add.assoc)
    moreover have "forA (map snapshot rs # batches) f (fst w) = (Inr (), fst v)"
      using b(2) v'(1) by (simp add: act_defs)
    ultimately show ?thesis using b(4,5) by blast
  qed
qed

end
