(* ===== verification/ScanCommand.thy ===== *)
theory ScanCommand
  imports Commands BsdbScan
begin

text \<open>
  The scan command, \<^verbatim>\<open>runScan\<close> of \<^verbatim>\<open>cmd/limewire-purge/main.go\<close>: it counts the live objects in the index,
  binds the progress database, copies the list into it, reconciles and seals it. The world is that of
  the progress database and the index; \<open>dial\<close> is the error of connecting to the index.
\<close>

section \<open>The command\<close>

record scan_flags =
  cf_common :: common
  cf_batch :: int
  cf_count_only :: bool

text \<open>\<^verbatim>\<open>bsdb.Open\<close>: \<open>connect\<close> is the outcome of \<^verbatim>\<open>sql.Open\<close> and of the ping on a DSN.\<close>

definition bsdb_open :: "(string \<Rightarrow> err option \<times> err option) \<Rightarrow> string \<Rightarrow> ('w, unit) act" where
  "bsdb_open connect name =
     (case connect name of
        (Some e, _) \<Rightarrow> throw e
      | (None, Some e) \<Rightarrow> throw (Cat (Txt ''bsdb: '') e)
      | (None, None) \<Rightarrow> ret ())"

definition incomplete :: "err \<Rightarrow> err" where
  "incomplete e = Cat e (Txt ''; the list is marked incomplete, re-run scan'')"

text \<open>Before the scan, under the lock: the binding and the mark that the list is not complete.\<close>

definition scan_begin :: "binding \<Rightarrow> u64 \<Rightarrow> (world, unit) act" where
  "scan_begin b n = bindA (bind_task LockCtx b) (\<lambda>_. begin_scan LockCtx (unat n))"

text \<open>After it: the recount, the reconciliation and the seal. The counts are printed.\<close>

definition scan_seal :: "common \<Rightarrow> u64 \<Rightarrow> u64 \<Rightarrow> (world \<times> index, counts) act" where
  "scan_seal c n got =
     bindA (tryA (on_store (index_count (co_bucket_id c) (co_bucket c)))
       (\<lambda>e. throw (Cat (Txt ''recount after scan: '') (incomplete e))) ret) (\<lambda>after.
     bindA (case reconcile n after got of Some e \<Rightarrow> throw e | None \<Rightarrow> ret ()) (\<lambda>_.
     bindA (on_db (finish_scan LockCtx (unat got))) (\<lambda>_.
     on_db (read_all_counts LockCtx))))"

definition scan_copy ::
  "scan_flags \<Rightarrow> binding \<Rightarrow> u64 \<Rightarrow> world \<times> index \<Rightarrow> ((err + counts) \<times> (world \<times> index)) option" where
  "scan_copy fl b n w =
     (let c = cf_common fl in
      case on_db (scan_begin b n) w of
        (Inl e, w) \<Rightarrow> Some (Inl e, w)
      | (Inr _, w) \<Rightarrow>
          (case index_scan (\<lambda>after limit. on_store (index_query (co_bucket_id c) (co_bucket c) after limit))
                  (\<lambda>rows. on_db (insert_scan LockCtx rows)) (cf_batch fl) w of
             None \<Rightarrow> None
           | Some ((_, Some e), w) \<Rightarrow> Some (Inl (incomplete e), w)
           | Some ((got, None), w) \<Rightarrow> Some (scan_seal c n got w)))"

text \<open>What precedes the lock. \<open>None\<close> is the end of \<^verbatim>\<open>--count-only\<close>.\<close>

definition scan_open ::
  "surroundings \<Rightarrow> (string \<Rightarrow> err option \<times> err option) \<Rightarrow> (string list \<Rightarrow> err + scan_flags \<times> string list) \<Rightarrow> string list \<Rightarrow>
   (world \<times> index, (scan_flags \<times> binding \<times> u64) option) act" where
  "scan_open e connect parse args =
     bindA (parse_flags parse args) (\<lambda>fl.
     bindA (load e (cf_common fl)) (\<lambda>cfg.
     bindA (bsdb_open connect (dsn (cf_bsdb cfg))) (\<lambda>_.
     bindA (on_store (index_count (co_bucket_id (cf_common fl)) (co_bucket (cf_common fl)))) (\<lambda>n.
     if cf_count_only fl then ret None
     else
       bindA (failIf (n = 0) ErrEmptyScan) (\<lambda>_.
       bindA (liftE (make_binding (cf_common fl) cfg)) (\<lambda>b.
       bindA (on_db (open_locked e (cf_common fl) ''scan'')) (\<lambda>_.
       ret (Some (fl, b, n)))))))))"

definition run_scan ::
  "surroundings \<Rightarrow> (string \<Rightarrow> err option \<times> err option) \<Rightarrow> (string list \<Rightarrow> err + scan_flags \<times> string list) \<Rightarrow> string list \<Rightarrow>
   world \<times> index \<Rightarrow> ((err + counts option) \<times> (world \<times> index)) option" where
  "run_scan e connect parse args w =
     (case scan_open e connect parse args w of
        (Inl x, w) \<Rightarrow> Some (Inl x, w)
      | (Inr None, w) \<Rightarrow> Some (Inr None, w)
      | (Inr (Some (fl, b, n)), w) \<Rightarrow>
          (case scan_copy fl b n w of
             None \<Rightarrow> None
           | Some (Inl x, w) \<Rightarrow> Some (Inl x, apfst (close_db e) w)
           | Some (Inr cnt, w) \<Rightarrow> Some (Inr (Some cnt), apfst (close_db e) w)))"

end
