(* ===== verification/CommandScenario.thy ===== *)
theory CommandScenario
  imports Commands Scenario
begin

text \<open>
  The commands of the scenario: a process that opens the progress database of \<open>Scenario\<close> with the example
  configuration of \<open>SpConfig\<close>, and closes it. The properties of the commands are applied at it.
\<close>

definition ex_surroundings :: surroundings where
  "ex_surroundings = \<lparr>en_env = (\<lambda>_. None), en_toml = (\<lambda>_. Inr (ex_config ''https://m.s3.eu.amazonaws.com'')),
     en_dsn = (\<lambda>_. Inr \<lparr>dc_database = ''limewire_purge'', dc_timeout = 0, dc_read = 0, dc_write = 0\<rparr>),
     en_connect = (\<lambda>_. (None, None)), en_session = (''limewire_purge'', 7), en_schema = \<lparr>sc_missing = [], sc_foreign = 0\<rparr>,
     en_pool = None, en_temp = ''.purge-report-1.tmp''\<rparr>"

text \<open>Before the lock is taken, and after it was released.\<close>

definition ex_fresh :: "db \<Rightarrow> world" where
  "ex_fresh d = (ex_world d)\<lparr>w_owner := None, w_lock := None\<rparr>"

definition ex_closed :: "db \<Rightarrow> world" where
  "ex_closed d = (ex_world d)\<lparr>w_owner := None, w_lock := Some \<lparr>lk_id = 7, lk_lost = Some Released\<rparr>,
     w_cancelled := [LockCtx, RunCtx]\<rparr>"

definition settled :: "db \<Rightarrow> bool" where
  "settled d \<longleftrightarrow> list_all (\<lambda>t. st_conn t = None \<and> \<not> recoverable d t) (t_tasks d)"

lemma settled_same: "settled d \<Longrightarrow> recover_purged now (forget_owners d) = d"
proof -
  assume s: "settled d"
  have idem: "update_tasks R h d = d" if "\<forall>t\<in>set (t_tasks d). \<not> R t" for R h
    using that by (cases d) (auto simp: update_tasks_def map_idI)
  have "forget_owners d = d" using s by (auto simp: forget_owners_def settled_def list_all_iff intro!: idem)
  then show ?thesis using s by (auto simp: recover_purged_def settled_def list_all_iff intro!: idem)
qed

lemma ex_load: "load ex_surroundings ex_common w = (Inr (ex_config ''https://m.s3.eu.amazonaws.com''), w)"
  by (simp add: load_def load_config_def ex_surroundings_def ex_config_def ex_common_def act_defs apply_env_def override_def Let_def)

lemma ex_make_binding: "make_binding ex_common (ex_config ''https://m.s3.eu.amazonaws.com'') = Inr ex_binding"
  by (simp add: make_binding_def ex_config_def ex_common_def ex_virtual identity_def Let_def ex_binding_def)

lemma ex_acquire: "acquire OperatorCtx (''limewire_purge'', 7) operation (ex_fresh d) = (Inr (), ex_world d)"
  by (simp add: acquire_def get_lock_def ex_fresh_def run_defs ex_world_def)

lemma ex_schema: "settled d \<Longrightarrow> ensure_schema \<lparr>sc_missing = [], sc_foreign = 0\<rparr> LockCtx (ex_world d) = (Inr (), ex_world d)"
  by (simp add: ensure_schema_def create_table_def add_column_def table_names_def later_columns_def run_defs ex_world_def settled_same)

lemma ex_open_locked: "settled d \<Longrightarrow> open_locked ex_surroundings ex_common operation (ex_fresh d) = (Inr (), ex_world d)"
  by (simp add: open_locked_def open_db_def progress_open_def or_close_def ex_surroundings_def ex_common_def ex_acquire ex_schema act_defs)

lemma ex_close: "close_db ex_surroundings (ex_world d) = ex_closed d"
  by (simp add: close_db_def db_close_def lock_close_def release_lock_def ex_surroundings_def ex_closed_def run_defs ex_world_def
      cancel_ctx_def Released_def join_err_def)

end
