(* ===== verification/ScanResults.thy ===== *)
theory ScanResults
  imports ScanCommand CommandScenario
begin

text \<open>
  What the scan command guarantees: it returns, it is a part of the life of the progress database, and
  the list that it seals is the bucket.
\<close>

section \<open>It returns, as a part of the life of the database\<close>

lemma scan_returns: "\<exists>y. run_scan e connect parse args w = Some y"
proof -
  have copy: "\<exists>y. scan_copy fl b n w = Some y" for fl b n w
  proof -
    obtain q u where b: "on_db (scan_begin b n) w = (q, u)" by (cases "on_db (scan_begin b n) w")
    obtain y where "index_scan (\<lambda>after limit. on_store (index_query (co_bucket_id (cf_common fl)) (co_bucket (cf_common fl)) after limit))
        (\<lambda>rows. on_db (insert_scan LockCtx rows)) (cf_batch fl) u = Some y"
      unfolding index_scan_def using index_scan_ends by blast
    then show ?thesis using b by (auto simp: scan_copy_def Let_def split: sum.split option.split prod.split) (metis surj_pair)
  qed
  obtain y u where o: "scan_open e connect parse args w = (y, u)" by (cases "scan_open e connect parse args w")
  show ?thesis
  proof (cases "\<exists>fl b n. y = Inr (Some (fl, b, n))")
    case False
    then show ?thesis using o by (auto simp: run_scan_def split: sum.split option.split)
  next
    case True
    then obtain fl b n where y: "y = Inr (Some (fl, b, n))" by blast
    obtain z where "scan_copy fl b n u = Some z" using copy by blast
    then show ?thesis using o y by (cases z) (auto simp: run_scan_def split: sum.split)
  qed
qed

lemma pair_scan_copy:
  assumes "scan_copy fl b n w = Some (x, v)"
  shows "idle_pair H w v"
proof -
  have "transits (idle H) (bind_task c b)" "transits (idle H) (begin_scan c k)" "transits (idle H) (insert_scan c rows)"
    "transits (idle H) (finish_scan c k)" for c b k rows
    by (rule transitsI, rule idle_step, rule bound scan_begun scan_inserted scan_finished, assumption)+
  note ops = this
  have start: "transits (idle_pair H) (on_db (scan_begin b n) :: (world \<times> index, unit) act)"
    unfolding scan_begin_def by (intro pair_rules idle_rules ops)
  have seal: "transits (idle_pair H) (scan_seal c n got)" for c got
    unfolding scan_seal_def by (intro pair_rules idle_rules ops)
  obtain y u where b: "on_db (scan_begin b n) w = (y, u)" by (cases "on_db (scan_begin b n) w")
  have wu: "idle_pair H w u" by (rule transitsD [OF start b])
  show ?thesis
  proof (cases y)
    case (Inl e)
    then show ?thesis using assms b wu by (simp add: scan_copy_def)
  next
    case (Inr z)
    let ?scan = "index_scan (\<lambda>after limit. on_store (index_query (co_bucket_id (cf_common fl)) (co_bucket (cf_common fl)) after limit))
      (\<lambda>rows. on_db (insert_scan LockCtx rows)) (cf_batch fl) u"
    obtain got e t where s: "?scan = Some ((got, e), t)"
      using assms b Inr by (auto simp: scan_copy_def Let_def split: option.splits prod.splits)
    have "idle_pair H u t"
      by (rule scan_loop_transits [OF pair_order _ _ s [unfolded index_scan_def]]) (intro pair_rules ops)+
    then have wt: "idle_pair H w t" using wu transpD [OF pair_order(2)] by blast
    show ?thesis
    proof (cases e)
      case (Some a)
      then show ?thesis using assms b Inr s wt by (simp add: scan_copy_def Let_def)
    next
      case None
      then have "scan_seal (cf_common fl) n got t = (x, v)" using assms b Inr s by (simp add: scan_copy_def Let_def)
      from transitsD [OF seal this] show ?thesis using wt transpD [OF pair_order(2)] by blast
    qed
  qed
qed

lemma pair_scan_open: "transits (idle_pair H) (scan_open e connect parse args)"
proof -
  have "transits (idle_pair H) (bsdb_open connect name :: (world \<times> index, unit) act)" for name
    unfolding bsdb_open_def by (auto intro: pair_rules split: prod.split option.split)
  then show ?thesis unfolding scan_open_def by (intro pair_rules idle_rules)
qed

lemma pair_scan:
  assumes "run_scan e connect parse args w = Some (x, v)"
  shows "idle_pair H w v"
proof -
  obtain y u where o: "scan_open e connect parse args w = (y, u)" by (cases "scan_open e connect parse args w")
  have wu: "idle_pair H w u" by (rule transitsD [OF pair_scan_open o])
  show ?thesis
  proof (cases "\<exists>fl b n. y = Inr (Some (fl, b, n))")
    case False
    then have "v = u" using assms o by (auto simp: run_scan_def split: sum.splits option.splits)
    then show ?thesis using wu by simp
  next
    case True
    then obtain fl b n where y: "y = Inr (Some (fl, b, n))" by blast
    then obtain z t where c: "scan_copy fl b n u = Some (z, t)" "v = apfst (close_db e) t"
      using assms o by (auto simp: run_scan_def split: option.splits sum.splits)
    show ?thesis
      unfolding c(2) by (rule pair_close) (use wu pair_scan_copy [OF c(1)] transpD [OF pair_order(2)] in blast)
  qed
qed

section \<open>What is in the list\<close>

abbreviation low_id :: "index_row \<Rightarrow> u64" where
  "low_id r \<equiv> ucast (ix_object_id r)"

lemma snapshot_oid [simp]: "sr_oid (snapshot r) = low_id r"
  by (simp add: snapshot_def to_scan_row_def)

lemma insert_ignore_append: "insert_ignore stored (xs @ ys) = insert_ignore (insert_ignore stored xs) ys"
  by (induction stored xs rule: insert_ignore.induct) auto

lemma insert_ignore_fresh: "distinct (map sr_oid (stored @ rows)) \<Longrightarrow> insert_ignore stored rows = stored @ map stored_row rows"
  by (induction stored rows rule: insert_ignore.induct) auto

lemma insert_scan_exact:
  "dbh (\<lambda>d. d = d0) (insert_scan c rows) (\<lambda>_ d. d = d0\<lparr>t_scan := insert_ignore (t_scan d0) rows\<rparr>) (\<lambda>_ _. True)"
  unfolding insert_scan_def
  by (rule dbh_bind, rule dbh_check_lock [where Q = "\<lambda>_ d. d = d0"], simp, simp, rule dbh_if)
    (auto intro!: dbh_ret dbh_update)

lemma batches_inserted:
  "forA batches (insert_scan c) w = (Inr (), v) \<Longrightarrow>
   w_db v = (w_db w)\<lparr>t_scan := insert_ignore (t_scan (w_db w)) (concat batches)\<rparr>"
proof (induction batches arbitrary: w)
  case Nil
  then show ?case by (simp add: ret_def)
next
  case (Cons b bs)
  then obtain u where u: "insert_scan c b w = (Inr (), u)" "forA bs (insert_scan c) u = (Inr (), v)"
    by (auto simp: bindA_ok_iff)
  have "w_db u = (w_db w)\<lparr>t_scan := insert_ignore (t_scan (w_db w)) b\<rparr>"
    by (rule dbhD_ok [OF insert_scan_exact refl u(1)])
  then show ?case using Cons.IH [OF u(2)] by (simp add: insert_ignore_append)
qed

lemma scan_begin_ok:
  assumes "scan_begin b n w = (Inr (), v)"
  shows "t_scan (w_db v) = t_scan (w_db w) \<and> t_meta (w_db v) \<noteq> None"
proof -
  obtain u where u: "bind_task LockCtx b w = (Inr (), u)" "begin_scan LockCtx (unat n) u = (Inr (), v)"
    using assms by (auto simp: scan_begin_def bindA_ok_iff)
  have 1: "w_db u = insert_meta b (w_db w) \<and> t_meta (w_db u) \<noteq> None"
    using dbhD_ok [OF bind_task_spec refl u(1)] by auto
  have 2: "t_scan (w_db v) = t_scan (w_db u) \<and> t_meta (w_db v) = map_option (\<lambda>m. m\<lparr>m_status := ScanRunning,
      m_bsdb_count := Some (unat n), m_rows := None, m_finished := None\<rparr>) (t_meta (w_db u))"
    using dbhD_ok [OF begin_scan_spec refl u(2)] by auto
  from 1 2 show ?thesis by (auto simp: insert_meta_def split: option.splits)
qed

lemma open_locked_list:
  assumes "open_locked e c operation w = (r, v)"
  shows "t_scan (w_db v) = t_scan (w_db w)"
proof -
  let ?R = "\<lambda>w v. t_scan (w_db v) = t_scan (w_db w)"
  have o: "reflp ?R" "transp ?R" by (auto intro!: reflpI transpI)
  have db: "transits ?R m" if "\<And>w r v. m w = (r, v) \<Longrightarrow> w_db v = w_db w" for m :: "(world, 'x) act"
    using that by (auto simp: transits_def)
  have acq: "w_db v = w_db w" if run: "acquire c s oper w = (r, v)" for c s oper w r v
    by (rule keepsE [where I = "\<lambda>d. d = w_db w", OF keeps_acquire _ run]) simp
  have opn: "w_db v = w_db w" if "open_db e c w = (r, v)" for w r v
    using that by (auto simp: open_db_def act_defs split: option.splits if_splits)
  have sch: "keeps (\<lambda>d. t_scan d = s) (ensure_schema sc c)" for s sc c
    unfolding ensure_schema_def create_table_def add_column_def
    by (intro keeps_rules keeps_update) (auto simp: forget_owners_def recover_purged_def update_tasks_def)
  have sch: "transits ?R (ensure_schema sc c)" for sc c
    by (rule transitsI, rule keepsE [OF sch]) auto
  have cls: "transits ?R (or_close e m)" if "transits ?R m" for m :: "(world, unit) act"
    unfolding or_close_def by (intro transits_try transits_bind o that transits_throw transits_ret db) (simp add: modifyA_def)
  have "transits ?R (open_locked e c operation)"
    unfolding open_locked_def by (intro transits_bind o db opn cls sch acq) auto
  from transitsD [OF this assms] show ?thesis .
qed

lemma read_all_counts_same: "read_all_counts c w = (r, v) \<Longrightarrow> w_db v = w_db w"
proof -
  have "keeps (\<lambda>d. d = w_db w) (read_all_counts c)" unfolding read_all_counts_def by (intro keeps_rules)
  then show "read_all_counts c w = (r, v) \<Longrightarrow> w_db v = w_db w" by (rule keepsE) simp
qed

lemma index_count_steady:
  assumes "index_count bid name ix = (Inr n, ix')" "steady ix"
  shows "n = word_of_nat (length (live_rows bid name (in_rows ix))) \<and> in_rows ix' = in_rows ix \<and> steady ix'"
  using assms by (auto simp: index_count_def steady_def Let_def split: list.splits index_event.splits)

text \<open>The counts that a reconciled scan compares are the real ones: the identifiers are different and fit 64 bits.\<close>

lemma reconciled_all:
  assumes "distinct (map ix_id xs)" "(word_of_nat (length (filter (\<lambda>r. 0 < ix_id r) xs)) :: u64) = word_of_nat (length xs)"
    and "(word_of_nat (length xs) :: u64) \<noteq> 0"
  shows "filter (\<lambda>r. 0 < ix_id r) xs = xs" and "length xs < 2 ^ 64"
proof -
  have "length xs = card (ix_id ` set xs)" using assms(1) by (metis distinct_card length_map set_map)
  also have "\<dots> \<le> CARD(u64)" by (rule card_mono) simp_all
  finally have "length xs \<le> 2 ^ 64" by (simp add: card_word)
  moreover have "length xs \<noteq> 2 ^ 64" using assms(3) by (auto simp: word_of_nat_eq_0_iff)
  ultimately show small: "length xs < 2 ^ 64" by simp
  have "unat (word_of_nat (length (filter (\<lambda>r. 0 < ix_id r) xs)) :: u64) = length (filter (\<lambda>r. 0 < ix_id r) xs)"
    "unat (word_of_nat (length xs) :: u64) = length xs"
    using small le_less_trans [OF length_filter_le small] by (simp_all add: unat_of_nat)
  then have "length (filter (\<lambda>r. 0 < ix_id r) xs) = length xs" using assms(2) by metis
  then show "filter (\<lambda>r. 0 < ix_id r) xs = xs" by (metis filter_id_conv length_filter_less less_irrefl)
qed

text \<open>The locked part of a scan that seals its list.\<close>

lemma scan_copy_list:
  assumes run: "scan_copy fl b n w = Some (Inr cnt, v)" and n: "n \<noteq> 0"
    and live: "live = live_rows (co_bucket_id (cf_common fl)) (co_bucket (cf_common fl)) (in_rows (snd w))"
      "n = word_of_nat (length live)"
    and steady: "steady (snd w)" "distinct (map ix_id (in_rows (snd w)))" and batch: "0 < cf_batch fl"
  shows "t_scan (w_db (fst v)) = insert_ignore (t_scan (w_db (fst w))) (map snapshot (sort_key ix_id live)) \<and>
    length (t_scan (w_db (fst v))) = length live \<and> sealed (w_db (fst v))"
proof -
  let ?c = "cf_common fl"
  let ?scan = "index_scan (\<lambda>after limit. on_store (index_query (co_bucket_id ?c) (co_bucket ?c) after limit))
      (\<lambda>rows. on_db (insert_scan LockCtx rows)) (cf_batch fl)"
  obtain u where b: "on_db (scan_begin b n) w = (Inr (), u)"
    using run by (auto simp: scan_copy_def Let_def split: prod.splits sum.splits)
  obtain got t where s: "?scan u = Some ((got, None), t)" and seal: "scan_seal ?c n got t = (Inr cnt, v)"
    using run b by (auto simp: scan_copy_def Let_def split: prod.splits option.splits)
  have u: "scan_begin b n (fst w) = (Inr (), fst u)" "snd u = snd w" using b by (auto simp: on_db_iff)
  note begun = scan_begin_ok [OF u(1)]
  let ?new = "map snapshot (sort_key ix_id (filter (\<lambda>r. 0 < ix_id r) live))"
  obtain batches where bs: "concat batches = ?new" "forA batches (insert_scan LockCtx) (fst u) = (Inr (), fst t)"
      "got = word_of_nat (length (concat batches))" "in_rows (snd t) = in_rows (snd w)" "steady (snd t)"
    using scan_loop_reads [OF steady(2) batch _ _ s [unfolded index_scan_def]] u(2) steady(1) live(1) by auto
  have db: "w_db (fst t) = (w_db (fst u))\<lparr>t_scan := insert_ignore (t_scan (w_db (fst u))) ?new\<rparr>"
    using batches_inserted [OF bs(2)] bs(1) by simp
  obtain after t1 t2 where cnt: "index_count (co_bucket_id ?c) (co_bucket ?c) (snd t) = (Inr after, snd t1)" "fst t1 = fst t"
      and rec: "reconcile n after got = None"
      and fin: "finish_scan LockCtx (unat got) (fst t1) = (Inr (), fst t2)"
      and last: "read_all_counts LockCtx (fst t2) = (Inr cnt, fst v)"
    using seal by (auto simp: scan_seal_def bindA_ok_iff tryA_def throw_def ret_def on_db_iff on_store_iff
        split: option.splits sum.splits prod.splits)
  have got: "got = n" using rec by (auto simp: reconcile_def split: if_splits)
  have "(word_of_nat (length (filter (\<lambda>r. 0 < ix_id r) live)) :: u64) = word_of_nat (length live)"
    using got bs(1,3) live(2) by simp
  moreover have "distinct (map ix_id live)" using steady(2) by (simp add: live(1) live_rows_def distinct_map_filter)
  ultimately have all: "filter (\<lambda>r. 0 < ix_id r) live = live" and small: "length live < 2 ^ 64"
    using reconciled_all [of live] n live(2) by auto
  have "w_db (fst v) = w_db (fst t2)"
    using read_all_counts_same [OF last] by simp
  moreover have "length (t_scan (w_db (fst t))) = unat got \<and> t_scan (w_db (fst t2)) = t_scan (w_db (fst t)) \<and>
      (t_meta (w_db (fst t)) \<noteq> None \<longrightarrow> sealed (w_db (fst t2)))"
    using dbhD_ok [OF finish_scan_spec refl fin] cnt(2) by (auto simp: sealed_def scan_status_of_def)
  moreover have "unat got = length live" using got live(2) small by (simp add: unat_of_nat)
  ultimately show ?thesis using db begun all by simp
qed

section \<open>Property\<close>

text \<open>C5. A scan that succeeds seals exactly the bucket. When the index does not change under the scan (it
  may fail, and what an earlier scan left in the list may be there), the sealed list has one entry
  for each live object of the bucket and no other. A list that was empty before has the snapshots of the
  live objects in the order of the index, each as the columns of \<^verbatim>\<open>scan_objects\<close> hold it (a version beyond 32
  bits is clamped and a status beyond 16 characters cut, silently); when every snapshot fits its
  columns the list has exactly the snapshots. The check of the counts before and after also excludes a row that the scan by
  primary key cannot see.\<close>

theorem sealed_list_is_bucket:
  assumes "run_scan e connect parse args w = Some (Inr (Some cnt), v)" "parse args = Inr (fl, [])"
    and "live = live_rows (co_bucket_id (cf_common fl)) (co_bucket (cf_common fl)) (in_rows (snd w))"
    and "steady (snd w)" "distinct (map ix_id (in_rows (snd w)))" "inj_on low_id (set live)" "0 < cf_batch fl"
    and "reachable H (Idle, fst w)"
  shows "sr_oid ` set (t_scan (w_db (fst v))) = low_id ` set live \<and> length (t_scan (w_db (fst v))) = length live \<and>
    sealed (w_db (fst v)) \<and> (t_scan (w_db (fst w)) = [] \<longrightarrow>
      t_scan (w_db (fst v)) = map (\<lambda>r. stored_row (snapshot r)) (sort_key ix_id live) \<and>
      (list_all (\<lambda>r. fits_columns (snapshot r)) live \<longrightarrow> t_scan (w_db (fst v)) = map snapshot (sort_key ix_id live)))"
proof -
  let ?c = "cf_common fl"
  obtain fl' b n u where o: "scan_open e connect parse args w = (Inr (Some (fl', b, n)), u)"
    and copy: "\<exists>t. scan_copy fl' b n u = Some (Inr cnt, t) \<and> v = apfst (close_db e) t"
    using assms(1) by (auto simp: run_scan_def split: prod.splits sum.splits option.splits)
  from copy obtain t where t: "scan_copy fl' b n u = Some (Inr cnt, t)" "v = apfst (close_db e) t" by blast
  have "fl' = fl \<and> n \<noteq> 0 \<and> index_count (co_bucket_id ?c) (co_bucket ?c) (snd w) = (Inr n, snd u) \<and>
      open_locked e ?c ''scan'' (fst w) = (Inr (), fst u)"
    using o assms(2) by (auto simp: scan_open_def bindA_ok_iff parse_flags_def liftE_def failIf_def ret_def throw_def load_def
        bsdb_open_def on_db_iff on_store_iff split: if_splits option.splits prod.splits)
  then have fl: "fl' = fl" and n: "n \<noteq> 0" and cnt: "index_count (co_bucket_id ?c) (co_bucket ?c) (snd w) = (Inr n, snd u)"
      and locked: "open_locked e ?c ''scan'' (fst w) = (Inr (), fst u)"
    by auto
  note index = index_count_steady [OF cnt assms(4)]
  have list: "t_scan (w_db (fst v)) = insert_ignore (t_scan (w_db (fst w))) (map snapshot (sort_key ix_id live))"
    and len: "length (t_scan (w_db (fst v))) = length live" and sealed: "sealed (w_db (fst v))"
    using scan_copy_list [OF t(1) [unfolded fl] n, of live] index assms(3,5,7) open_locked_list [OF locked] t(2)
    by (auto simp: apfst_def map_prod_def split: prod.splits)
  have "idle_pair H w v" by (rule pair_scan [OF assms(1)])
  then have "session_ok (Idle, fst v)" using assms(8) by (auto simp: idle_pair_def idle_def intro: reachable_ok)
  then have "distinct (map sr_oid (t_scan (w_db (fst v))))" by (auto simp: session_ok_def keys_ok_def dest: db_okD(1))
  then have "card (sr_oid ` set (t_scan (w_db (fst v)))) = length live" using len by (metis distinct_card length_map set_map)
  moreover have "distinct live" using assms(3,5) by (auto simp: live_rows_def distinct_map)
  then have "card (low_id ` set live) = length live" using card_image [OF assms(6)] distinct_card by metis
  moreover have "low_id ` set live \<subseteq> sr_oid ` set (t_scan (w_db (fst v)))"
    unfolding list insert_ignore_oids by (auto simp: image_image)
  ultimately have "sr_oid ` set (t_scan (w_db (fst v))) = low_id ` set live" by (intro card_subset_eq [symmetric]) simp_all
  moreover have "t_scan (w_db (fst v)) = map (\<lambda>r. stored_row (snapshot r)) (sort_key ix_id live) \<and>
      (list_all (\<lambda>r. fits_columns (snapshot r)) live \<longrightarrow> t_scan (w_db (fst v)) = map snapshot (sort_key ix_id live))"
    if "t_scan (w_db (fst w)) = []"
  proof -
    have "inj_on low_id (set (sort_key ix_id live))" "distinct (sort_key ix_id live)" using assms(6) \<open>distinct live\<close> by simp_all
    then have "distinct (map sr_oid ([] @ map snapshot (sort_key ix_id live)))" by (simp add: distinct_map comp_def)
    from insert_ignore_fresh [OF this] show ?thesis using list that by (simp add: list_all_iff stored_row_fits)
  qed
  ultimately show ?thesis using len sealed by blast
qed

text \<open>The scan of the scenario.\<close>

definition ex_index_row :: index_row where
  "ex_index_row = \<lparr>ix_id = 3, ix_bucket_id = 42268, ix_bucket = ''limewire'', ix_removed = False, ix_object_id = 5,
     ix_payload = 9, ix_status = ''OBJECT_STATUS_SEALED'', ix_version = 0\<rparr>"

definition ex_index :: BsdbScan.index where
  "ex_index = \<lparr>in_rows = [ex_index_row], in_script = []\<rparr>"

definition ex_scan_flags :: scan_flags where
  "ex_scan_flags = \<lparr>cf_common = ex_common, cf_batch = 100, cf_count_only = False\<rparr>"

definition ex_counts :: counts where
  "ex_counts = \<lparr>n_total = 1, n_done = 0, n_failed = 0, n_keys = 0, n_bytes = 0, n_scan_bytes = 9, n_checked = 0, n_mismatch = 0\<rparr>"

lemma ex_live_rows: "live_rows 42268 ''limewire'' [ex_index_row] = [ex_index_row]"
  by (simp add: live_rows_def ex_index_row_def)

lemma ex_count: "index_count 42268 ''limewire'' ex_index = (Inr 1, ex_index)"
  by (simp add: index_count_def ex_index_def ex_live_rows Let_def)

lemma ex_snapshot: "snapshot ex_index_row = ex_row"
proof -
  have "trim_prefix ''OBJECT_STATUS_SEALED'' ''OBJECT_STATUS_'' = ''SEALED''" by code_simp
  then show ?thesis by (simp add: snapshot_def to_scan_row_def ex_index_row_def ex_row_def)
qed

lemma ex_page: "index_query 42268 ''limewire'' 0 100 ex_index = (Inr ([Inr ex_index_row], None), ex_index)"
  by (simp add: index_query_def ex_index_def index_page_def ex_live_rows Let_def) (simp add: ex_index_row_def)

lemma ex_scan_all: "scan_loop (\<lambda>after limit. on_store (index_query 42268 ''limewire'' after limit)) (\<lambda>rows. on_db (insert_scan LockCtx rows))
    100 0 0 (ex_world (empty_db\<lparr>t_meta := Some (ex_meta ScanRunning (Some 1) None None)\<rparr>), ex_index) =
  Some ((1, None), (ex_world (empty_db\<lparr>t_meta := Some (ex_meta ScanRunning (Some 1) None None), t_scan := [ex_row]\<rparr>), ex_index))"
proof -
  have "read_rows [Inr ex_index_row] 0 = Inr ([ex_row], 3)"
    using read_rows_all [of "[ex_index_row]" 0] ex_snapshot by (simp add: ex_index_row_def)
  then show ?thesis
    by (subst scan_loop.simps) (simp add: on_store_def on_db_def ex_page ex_insert Let_def del: One_nat_def)
qed

lemma ex_scan_copy: "scan_copy ex_scan_flags ex_binding 1 (ex_world empty_db, ex_index) = Some (Inr ex_counts, (ex_world ex_list, ex_index))"
proof -
  have c: "co_bucket_id ex_common = 42268" "co_bucket ex_common = ''limewire''" by (simp_all add: ex_common_def)
  have f: "cf_common ex_scan_flags = ex_common" "cf_batch ex_scan_flags = 100" by (simp_all add: ex_scan_flags_def)
  have 1: "on_db (scan_begin ex_binding 1) (ex_world empty_db, ex_index) =
      (Inr (), (ex_world (empty_db\<lparr>t_meta := Some (ex_meta ScanRunning (Some 1) None None)\<rparr>), ex_index))"
    by (simp add: scan_begin_def on_db_def bindA_def ex_bind ex_begin del: One_nat_def)
  have 2: "read_all_counts LockCtx (ex_world ex_list) = (Inr ex_counts, ex_world ex_list)"
    by (simp add: read_all_counts_def scan_totals_def read_totals_def progress_totals_def ex_counts_def run_defs ex_defs)
  have 3: "scan_seal ex_common 1 1 (ex_world (empty_db\<lparr>t_meta := Some (ex_meta ScanRunning (Some 1) None None), t_scan := [ex_row]\<rparr>), ex_index) =
      (Inr ex_counts, (ex_world ex_list, ex_index))"
    by (simp add: scan_seal_def bindA_def tryA_def on_store_def on_db_def c ex_count reconcile_def ret_def ex_finish 2 del: One_nat_def)
  show ?thesis by (simp add: scan_copy_def Let_def f c 1 index_scan_def ex_scan_all 3 del: One_nat_def)
qed

lemma ex_run_scan: "run_scan ex_surroundings (\<lambda>_. (None, None)) (\<lambda>_. Inr (ex_scan_flags, [])) [] (ex_fresh empty_db, ex_index) =
  Some (Inr (Some ex_counts), (ex_closed ex_list, ex_index))"
proof -
  have c: "co_bucket_id ex_common = 42268" "co_bucket ex_common = ''limewire''" by (simp_all add: ex_common_def)
  have f: "cf_common ex_scan_flags = ex_common" "\<not> cf_count_only ex_scan_flags" by (simp_all add: ex_scan_flags_def)
  have "settled empty_db" by (simp add: settled_def empty_db_def)
  then have "scan_open ex_surroundings (\<lambda>_. (None, None)) (\<lambda>_. Inr (ex_scan_flags, [])) [] (ex_fresh empty_db, ex_index) =
      (Inr (Some (ex_scan_flags, ex_binding, 1)), (ex_world empty_db, ex_index))"
    by (simp add: scan_open_def bindA_def parse_flags_def liftE_def failIf_def ret_def ex_load f bsdb_open_def on_store_def
        c ex_count ex_make_binding on_db_def ex_open_locked)
  then show ?thesis by (simp add: run_scan_def ex_scan_copy ex_close)
qed

theorem sealed_list_is_bucket_witness:
  "sr_oid ` set (t_scan (w_db (ex_closed ex_list))) = {5} \<and> sealed (w_db (ex_closed ex_list))"
proof -
  have flags: "co_bucket_id (cf_common ex_scan_flags) = 42268" "co_bucket (cf_common ex_scan_flags) = ''limewire''" "0 < cf_batch ex_scan_flags"
    by (simp_all add: ex_scan_flags_def ex_common_def)
  have "reachable ex_hash (Idle, fst (ex_fresh empty_db, ex_index))"
    by (rule new_database) (simp add: ex_fresh_def ex_world_def)
  from sealed_list_is_bucket [OF ex_run_scan refl refl _ _ _ flags(3) this] show ?thesis
    by (simp add: flags ex_index_def ex_live_rows steady_def) (simp add: ex_index_row_def)
qed

end
