(* ===== verification/VerifyCommand.thy ===== *)
theory VerifyCommand
  imports Commands VerifyResults
begin

text \<open>
  The verify command, \<^verbatim>\<open>runVerify\<close> of \<^verbatim>\<open>cmd/limewire-purge/verify.go\<close>: it chooses a task, checks its
  manifest and the store, runs the verification, writes the report and marks the task done. The world
  is that of the progress database, the store and the disk; \<open>build\<close> makes the client of the store, \<open>lim\<close>
  and \<open>pause\<close> are the limiter and the wait between two attempts.
\<close>

record verify_flags =
  vl_common :: common
  vl_task :: u64
  vl_restart :: bool
  vl_allow :: bool
  vl_out :: string
  vl_qps_positive :: bool
  vl_retries :: int
  vl_timeout :: int

text \<open>The message for the operator, in UTF-8.\<close>

definition no_task_text :: string where
  "no_task_text =
     map char_of [230, 178, 161, 230, 156, 137, 229, 190, 133, 233, 170, 140, 230, 148, 182, 231, 154, 132, 228, 187, 187, 229, 138, 161 :: nat] @
     '' (no task awaiting verification); to recheck history use --task-id N --restart: ''"

definition verify_open ::
  "surroundings \<Rightarrow> (string list \<Rightarrow> err + verify_flags \<times> string list) \<Rightarrow> string list \<Rightarrow>
   (world \<times> 'w, verify_flags \<times> config) act" where
  "verify_open e parse args =
     bindA (parse_flags parse args) (\<lambda>fl.
     bindA (failIf (\<not> vl_qps_positive fl \<or> vl_retries fl < 0 \<or> vl_timeout fl \<le> 0) (Txt ''invalid QPS/retry/timeout'')) (\<lambda>_.
     bindA (load e (vl_common fl)) (\<lambda>cfg.
     bindA (on_db (open_bound e (vl_common fl) cfg)) (\<lambda>_. ret (fl, cfg)))))"

definition verify_select :: "verify_flags \<Rightarrow> (world, subtask) act" where
  "verify_select fl =
     tryA (resolve_verify LockCtx (vl_task fl))
       (\<lambda>e. if err_is e ErrNoVerifyTask then throw (Cat (Txt no_task_text) e) else throw e) ret"

text \<open>The checks before the first write, and \<^verbatim>\<open>BeginVerify\<close>: the task as it is then, and the store.\<close>

definition manifest_or_hold :: "(string \<Rightarrow> string) \<Rightarrow> subtask \<Rightarrow> (world, unit) act" where
  "manifest_or_hold H s = tryA (check_manifest H LockCtx s) (hold_global LockCtx s) ret"

definition verify_prepare ::
  "(string \<Rightarrow> string) \<Rightarrow> surroundings \<Rightarrow> (client_options \<Rightarrow> err + 's s3_api) \<Rightarrow> verify_flags \<Rightarrow> config \<Rightarrow> subtask \<Rightarrow>
   (world \<times> ('s \<times> disk), subtask \<times> 's s3_api \<times> string) act" where
  "verify_prepare H e build fl cfg s =
     bindA (on_db (manifest_or_hold H s)) (\<lambda>_.
     bindA (liftE (new_store (en_env e) build (cf_store cfg) (vl_timeout fl))) (\<lambda>(api, bucket).
     bindA (on_store (on_db (ensure_versioning_disabled api bucket (vl_allow fl)))) (\<lambda>_.
     bindA (on_db (begin_verify H LockCtx s (vl_restart fl))) (\<lambda>s.
     ret (s, api, bucket)))))"

definition report_path :: "verify_flags \<Rightarrow> u64 \<Rightarrow> string" where
  "report_path fl k = (if vl_out fl = [] then ''residue-task-'' @ dec (unat k) @ ''.tsv'' else vl_out fl)"

definition verify_finish ::
  "surroundings \<Rightarrow> verify_flags \<Rightarrow> subtask \<Rightarrow> (world \<times> ('s \<times> disk), string) act" where
  "verify_finish e fl s =
     bindA (on_db (verify_report LockCtx s)) (\<lambda>rows.
     bindA (on_store (on_store (write_report (en_temp e) (report_path fl (st_id s)) rows))) (\<lambda>_.
     bindA (if st_done s = None then on_db (complete_verify LockCtx s) else ret ()) (\<lambda>_.
     bindA (on_db (subtask_row LockCtx (st_id s))) (\<lambda>s.
     on_db (print_subtask LockCtx False s)))))"

definition verify_task ::
  "(string \<Rightarrow> string) \<Rightarrow> surroundings \<Rightarrow> (client_options \<Rightarrow> err + 's s3_api) \<Rightarrow> (world \<times> ('s \<times> disk), unit) act \<Rightarrow>
   (nat \<Rightarrow> (world \<times> ('s \<times> disk), unit) act) \<Rightarrow> verify_flags \<Rightarrow> config \<Rightarrow> subtask \<Rightarrow> world \<times> ('s \<times> disk) \<Rightarrow>
   ((err + string) \<times> (world \<times> ('s \<times> disk))) option" where
  "verify_task H e build lim pause fl cfg s w =
     (case verify_prepare H e build fl cfg s w of
        (Inl x, w) \<Rightarrow> Some (Inl x, w)
      | (Inr (s, api, bucket), w) \<Rightarrow>
          if st_done s = None
          then (case verify_run (task_verifier s (\<lambda>p. on_db (store_empty api bucket p)) lim pause
                       (vl_qps_positive fl) (vl_retries fl) (vl_timeout fl)) w of
                  None \<Rightarrow> None
                | Some (Inl x, w) \<Rightarrow> Some (Inl x, w)
                | Some (Inr _, w) \<Rightarrow> Some (verify_finish e fl s w))
          else Some (verify_finish e fl s w))"

definition run_verify ::
  "(string \<Rightarrow> string) \<Rightarrow> surroundings \<Rightarrow> (client_options \<Rightarrow> err + 's s3_api) \<Rightarrow> (world \<times> ('s \<times> disk), unit) act \<Rightarrow>
   (nat \<Rightarrow> (world \<times> ('s \<times> disk), unit) act) \<Rightarrow> (string list \<Rightarrow> err + verify_flags \<times> string list) \<Rightarrow> string list \<Rightarrow>
   world \<times> ('s \<times> disk) \<Rightarrow> ((err + string) \<times> (world \<times> ('s \<times> disk))) option" where
  "run_verify H e build lim pause parse args w =
     (case verify_open e parse args w of
        (Inl x, w) \<Rightarrow> Some (Inl x, w)
      | (Inr (fl, cfg), w) \<Rightarrow>
          (case on_db (verify_select fl) w of
             (Inl x, w) \<Rightarrow> Some (Inl x, apfst (close_db e) w)
           | (Inr s, w) \<Rightarrow>
               map_option (\<lambda>y. apsnd (apfst (close_db e)) (with_task_error (st_id s) (\<lambda>_. y) w))
                 (verify_task H e build lim pause fl cfg s w)))"

section \<open>It returns\<close>

lemma verify_returns:
  assumes "transits same_db lim" "\<And>k. transits same_db (pause k)"
  shows "\<exists>y. run_verify H e build lim pause parse args w = Some y"
proof -
  have task: "\<exists>y. verify_task H e build lim pause fl cfg s w = Some y" for fl cfg s w
  proof -
    obtain q u where p: "verify_prepare H e build fl cfg s w = (q, u)" by (cases "verify_prepare H e build fl cfg s w")
    show ?thesis
    proof (cases q)
      case (Inl x)
      then show ?thesis using p by (cases u) (simp add: verify_task_def)
    next
      case (Inr tab)
      obtain t api bucket where t: "tab = (t, api, bucket)" by (cases tab)
      have "\<exists>y. verify_run (task_verifier t (\<lambda>p. on_db (store_empty api bucket p)) lim pause
          (vl_qps_positive fl) (vl_retries fl) (vl_timeout fl)) u = Some y"
        by (rule verify_run_returns [OF assms])
      then obtain y where "verify_run (task_verifier t (\<lambda>p. on_db (store_empty api bucket p)) lim pause
          (vl_qps_positive fl) (vl_retries fl) (vl_timeout fl)) u = Some y" by blast
      then show ?thesis using p Inr t
        by (cases "verify_finish e fl t u"; cases "verify_finish e fl t (snd y)") (auto simp: verify_task_def split: prod.split sum.split)
    qed
  qed
  obtain q u where o: "verify_open e parse args w = (q, u)" by (cases "verify_open e parse args w")
  show ?thesis
  proof (cases q)
    case (Inl x)
    then show ?thesis unfolding run_verify_def o by (cases u) simp
  next
    case (Inr fc)
    obtain fl cfg where fc: "fc = (fl, cfg)" by (cases fc)
    obtain z v where s: "on_db (verify_select fl) u = (z, v)" by (cases "on_db (verify_select fl) u")
    show ?thesis
      using task unfolding run_verify_def o Inr fc
      by (cases z; cases v) (auto simp: s split: prod.split, metis surj_pair)
  qed
qed

section \<open>A part of the life of the database\<close>

lemma pair_verify_open: "transits (idle_pair H) (verify_open e parse args)"
  unfolding verify_open_def by (auto intro!: pair_rules idle_rules)

lemma manifest_or_hold_ok: "manifest_or_hold D s w = (Inr (), v) \<Longrightarrow> w_db v = w_db w"
proof -
  assume run: "manifest_or_hold D s w = (Inr (), v)"
  have no: "hold_global c s x u \<noteq> (Inr y, v')" for c s x u y v'
    by (auto simp: hold_global_def act_defs split: prod.split sum.split)
  then have "check_manifest D LockCtx s w = (Inr (), v)"
    using run by (auto simp: manifest_or_hold_def tryA_def ret_def no [unfolded split_paired_all] split: prod.splits sum.splits)
  moreover have "keeps (\<lambda>d. d = w_db w) (check_manifest D LockCtx s)" by (intro keeps_rules)
  ultimately show ?thesis by (auto elim: keepsE)
qed

text \<open>The preparation fails before it writes, or it is \<^verbatim>\<open>BeginVerify\<close> on the tables as they were.\<close>

lemma verify_prepare_cases:
  assumes "verify_prepare D e build fl cfg s w = (r, v)"
  obtains (failed) x where "r = Inl x" "\<And>H. idle_pair H w v"
  | (started) u r' where "w_db u = w_db (fst w)" "begin_verify D LockCtx s (vl_restart fl) u = (r', fst v)" "snd (snd v) = snd (snd w)"
      "\<And>x. r = Inl x \<Longrightarrow> r' = Inl x" "\<And>t api bucket. r = Inr (t, api, bucket) \<Longrightarrow> r' = Inr t"
proof -
  have mh: "transits (idle H) (manifest_or_hold D s)" for H unfolding manifest_or_hold_def by (intro idle_rules)
  obtain y w1 where m: "on_db (manifest_or_hold D s) w = (y, w1)" by (cases "on_db (manifest_or_hold D s) w")
  have i1: "idle_pair H w w1" for H by (rule transitsD [OF pair_db [OF mh] m])
  show ?thesis
  proof (cases y)
    case (Inl x)
    then show ?thesis using assms m i1 by (intro failed [of x]) (auto simp: verify_prepare_def bindA_def)
  next
    case (Inr q)
    then have db1: "w_db (fst w1) = w_db (fst w)" "snd w1 = snd w"
      using m manifest_or_hold_ok [of D s "fst w"] by (auto simp: on_db_iff)
    show ?thesis
    proof (cases "new_store (en_env e) build (cf_store cfg) (vl_timeout fl)")
      case (Inl x)
      then show ?thesis using assms m Inr i1 \<open>y = Inr q\<close> by (intro failed [of x]) (auto simp: verify_prepare_def bindA_def liftE_def)
    next
      case (Inr ab)
      obtain api bucket where ab: "ab = (api, bucket)" by (cases ab)
      let ?ev = "on_store (on_db (ensure_versioning_disabled api bucket (vl_allow fl))) :: (world \<times> (_ \<times> disk), unit) act"
      obtain z w2 where ev: "?ev w1 = (z, w2)" by (cases "?ev w1")
      then have w2: "fst w2 = fst w1" "snd (snd w2) = snd (snd w1)" by (auto simp: on_store_iff on_db_iff)
      have run: "bindA ?ev (\<lambda>_. bindA (on_db (begin_verify D LockCtx s (vl_restart fl))) (\<lambda>s. ret (s, api, bucket))) w1 = (r, v)"
        using assms m \<open>y = Inr q\<close> Inr ab by (simp add: verify_prepare_def bindA_def liftE_def)
      show ?thesis
      proof (cases z)
        case (Inl x)
        then have "v = w2" "r = Inl x" using run ev by (auto simp: bindA_def)
        then show ?thesis using i1 w2 by (intro failed [of x]) (auto simp: idle_pair_def)
      next
        case z: (Inr q')
        obtain r' w3 where b: "begin_verify D LockCtx s (vl_restart fl) (fst w2) = (r', w3)"
          by (cases "begin_verify D LockCtx s (vl_restart fl) (fst w2)")
        then have "v = (w3, snd w2)" "r = (case r' of Inl x \<Rightarrow> Inl x | Inr t \<Rightarrow> Inr (t, api, bucket))"
          using run ev z by (auto simp: bindA_def on_db_def ret_def split: sum.splits)
        then show ?thesis using b w2 db1 by (intro started [of "fst w2" r']) (auto split: sum.splits)
      qed
    qed
  qed
qed

text \<open>What follows a verification.\<close>

lemma idle_ends: "reachable H (Verifying t, w) \<Longrightarrow> w_db v = w_db w \<Longrightarrow> reachable H (Idle, v)"
  by (erule reachable.step) (rule command_ends)

lemma on_db_reads: "(\<And>I. keeps I m) \<Longrightarrow> on_db m w = (r, v) \<Longrightarrow> w_db (fst v) = w_db (fst w) \<and> snd v = snd w"
proof -
  assume k: "\<And>I. keeps I m" and run: "on_db m w = (r, v)"
  then have m: "m (fst w) = (r, fst v)" "snd v = snd w" by (auto simp: on_db_iff)
  from keepsE [OF k _ m(1), of "\<lambda>d. d = w_db (fst w)"] m(2) show ?thesis by simp
qed

lemma finish_reads:
  "on_db (verify_report c s) w = (r, v) \<Longrightarrow> w_db (fst v) = w_db (fst w)"
  "on_db (subtask_row c k) w = (r1, v) \<Longrightarrow> w_db (fst v) = w_db (fst w)"
  "on_db (print_subtask c b s) w = (r2, v) \<Longrightarrow> w_db (fst v) = w_db (fst w)"
  using on_db_reads [of "verify_report c s" w r v] on_db_reads [of "subtask_row c k" w r1 v] on_db_reads [of "print_subtask c b s" w r2 v]
  by (auto simp: print_subtask_def intro!: keeps_rules)

lemma verify_finish_idle:
  assumes "verify_finish e fl s w = (x, v)" "reachable H ((if st_done s = None then Verifying s else Idle), fst w)"
  shows "reachable H (Idle, fst v)"
proof -
  let ?m = "if st_done s = None then Verifying s else Idle"
  have same: "reachable H (Idle, v)" if "w_db v = w_db w'" "reachable H (?m, w')" for v w'
    using that reachable.step [OF that(2) command_ends [OF that(1)]] by simp
  obtain rows u where r: "on_db (verify_report LockCtx s) w = (rows, u)" by (cases "on_db (verify_report LockCtx s) w")
  note u = finish_reads(1) [OF r]
  show ?thesis
  proof (cases rows)
    case (Inl a)
    then show ?thesis using assms r u by (intro same [OF _ assms(2)]) (auto simp: verify_finish_def bindA_def)
  next
    case (Inr rs)
    let ?wr = "on_store (on_store (write_report (en_temp e) (report_path fl (st_id s)) rs)) :: (world \<times> (_ \<times> disk), unit) act"
    obtain q t where t: "?wr u = (q, t)" by (cases "?wr u")
    then have ft: "fst t = fst u" by (simp add: on_store_iff)
    show ?thesis
    proof (cases q)
      case (Inl a)
      then show ?thesis using assms r Inr t u ft \<open>rows = Inr rs\<close>
        by (intro same [OF _ assms(2)]) (auto simp: verify_finish_def bindA_def)
    next
      case q: (Inr z)
      let ?rest = "bindA (on_db (subtask_row LockCtx (st_id s))) (\<lambda>s. on_db (print_subtask LockCtx False s)) :: (world \<times> (_ \<times> disk), string) act"
      let ?done = "if st_done s = None then on_db (complete_verify LockCtx s) else ret () :: (world \<times> (_ \<times> disk), unit) act"
      obtain r2 t2 where d: "?done t = (r2, t2)" by (cases "?done t")
      have m: "reachable H (?m, fst t)"
        using reachable.step [OF assms(2) environment [of "fst t"]] u ft by simp
      have i: "reachable H (Idle, fst t2)"
      proof (cases "st_done s = None")
        case True
        then have "complete_verify LockCtx s (fst t) = (r2, fst t2)" using d by (simp add: on_db_iff)
        from reachable.step [OF _ verify_ended [OF this]] show ?thesis using m True by simp
      next
        case False
        then show ?thesis using m d by (simp add: ret_def del: not_None_eq)
      qed
      have "v = t2 \<or> (\<exists>y. ?rest t2 = (y, v))"
        using assms(1) r Inr t q d by (auto simp: verify_finish_def bindA_def split: sum.splits)
      moreover have "transits (idle_pair H) ?rest" by (intro pair_rules idle_rules)
      ultimately have "idle_pair H t2 v" using transitsD pair_order(1) by (metis reflpD)
      then show ?thesis using i by (simp add: idle_pair_def idle_def)
    qed
  qed
qed

lemma verify_task_idle:
  assumes lim: "transits same_db lim" "\<And>k. transits same_db (pause k)"
    and res: "resolve_verify LockCtx tid w0 = (Inr s, w1)" "w_db (fst w) = w_db w1"
    and run: "verify_task H e build lim pause fl cfg s w = Some (x, v)" and r: "reachable H (Idle, w0)"
  shows "reachable H (Idle, fst v)"
proof -
  have w: "reachable H (Idle, fst w)"
    using reachable.step [OF r environment] resolve_unchanged(2) [OF res(1)] res(2) by simp
  obtain y u where p: "verify_prepare H e build fl cfg s w = (y, u)" by (cases "verify_prepare H e build fl cfg s w")
  show ?thesis
    using p
  proof (cases rule: verify_prepare_cases)
    case (failed a)
    then have "v = u" using run p by (simp add: verify_task_def)
    then show ?thesis using failed(2) [of H] w by (simp add: idle_pair_def idle_def)
  next
    case (started b y')
    have b: "w_db b = w_db w1" using started(1) res(2) by simp
    show ?thesis
    proof (cases y)
      case (Inl a)
      then have v: "v = u" using run p by (simp add: verify_task_def)
      have "session H (Idle, w0) (Idle, fst u)" by (rule verify_refused [OF res(1) b started(2)])
      then show ?thesis using reachable.step [OF r] v by simp
    next
      case (Inr tab)
      obtain t api bucket where t: "y = Inr (t, api, bucket)" using Inr by (cases tab) auto
      have beg: "begin_verify H LockCtx s (vl_restart fl) b = (Inr t, fst u)" using started(2,5) t by auto
      show ?thesis
      proof (cases "st_done t = None")
        case True
        have ver: "reachable H (Verifying t, fst u)" by (rule reachable.step [OF r verify_begun [OF res(1) b beg True]])
        let ?vf = "task_verifier t (\<lambda>p. on_db (store_empty api bucket p)) lim pause (vl_qps_positive fl) (vl_retries fl) (vl_timeout fl)"
        obtain z u2 where vr: "verify_run ?vf u = Some (z, u2)"
          using run p t True by (auto simp: verify_task_def split: option.splits)
        have ver2: "reachable H (Verifying t, fst u2)" by (rule verify_run_session [OF lim vr ver])
        show ?thesis
        proof (cases z)
          case (Inl a)
          then have "v = u2" using run p t True vr by (simp add: verify_task_def)
          then show ?thesis using idle_ends [OF ver2] by simp
        next
          case (Inr a)
          then have "verify_finish e fl t u2 = (x, v)" using run p t True vr by (simp add: verify_task_def)
          then show ?thesis by (rule verify_finish_idle) (use True ver2 in simp)
        qed
      next
        case False
        have i: "reachable H (Idle, fst u)" by (rule reachable.step [OF r verify_refused [OF res(1) b beg]])
        have "verify_finish e fl t u = (x, v)" using run p t False by (simp add: verify_task_def)
        then show ?thesis by (rule verify_finish_idle) (use False i in \<open>simp del: not_None_eq\<close>)
      qed
    qed
  qed
qed

lemma verify_select_ok: "verify_select fl w = (Inr s, v) \<Longrightarrow> resolve_verify LockCtx (vl_task fl) w = (Inr s, v)"
  by (auto simp: verify_select_def tryA_def throw_def ret_def split: prod.splits sum.splits if_splits)

lemma pair_verify:
  assumes lim: "transits same_db lim" "\<And>k. transits same_db (pause k)"
    and run: "run_verify H e build lim pause parse args w = Some (x, v)"
  shows "idle_pair H w v"
proof -
  obtain y u where o: "verify_open e parse args w = (y, u)" by (cases "verify_open e parse args w")
  have wu: "idle_pair H w u" by (rule transitsD [OF pair_verify_open o])
  note tr = transpD [OF pair_order(2)]
  show ?thesis
  proof (cases y)
    case (Inl a)
    then show ?thesis using run o wu by (simp add: run_verify_def)
  next
    case (Inr fc)
    obtain fl cfg where fc: "fc = (fl, cfg)" by (cases fc)
    obtain z t where s: "on_db (verify_select fl) u = (z, t)" by (cases "on_db (verify_select fl) u")
    have "transits (idle H) (verify_select fl)" unfolding verify_select_def by (intro idle_rules)
    then have ut: "idle_pair H u t" by (rule transitsD [OF pair_db s])
    show ?thesis
    proof (cases z)
      case (Inl a)
      then have "v = apfst (close_db e) t" using run o Inr fc s \<open>y = Inr fc\<close> by (simp add: run_verify_def)
      then show ?thesis using pair_close tr [OF wu ut] by simp
    next
      case z: (Inr s')
      have sel: "resolve_verify LockCtx (vl_task fl) (fst u) = (Inr s', fst t)"
        using verify_select_ok s z by (auto simp: on_db_iff)
      obtain q t2 where task: "verify_task H e build lim pause fl cfg s' t = Some (q, t2)"
          and v: "apsnd (apfst (close_db e)) (with_task_error (st_id s') (\<lambda>_. (q, t2)) t) = (x, v)"
        using run o Inr fc s z by (auto simp: run_verify_def)
      have "v = apfst (close_db e) t2"
        using v by (cases q) (auto simp: with_task_error_def tryA_def throw_def ret_def)
      moreover have "idle_pair H u t2"
        unfolding idle_pair_def idle_def by (intro impI verify_task_idle [OF lim sel refl task])
      ultimately show ?thesis using pair_close tr [OF wu] by blast
    qed
  qed
qed

end
