(* ===== verification/VerifyReport.thy ===== *)
theory VerifyReport
  imports VerifyCommand CommandScenario
begin

text \<open>
  What the verify command guarantees when it reports no error: the task is done and certified, and the
  report on the disk is that of the final tables.
\<close>

section \<open>What a finished verification leaves behind\<close>

lemma complete_verify_rows:
  "dbh (\<lambda>d. d = d0) (complete_verify c s)
     (\<lambda>_ d. \<exists>now. d = update_tasks (\<lambda>t. st_id t = st_id s \<and> st_hold t = [] \<and> st_phase t = ''VERIFY'' \<and> st_gen t = st_gen s)
         (\<lambda>t. t\<lparr>st_done := Some now\<rparr>) d0 \<and> (\<exists>t\<in>set (t_tasks d). st_id t = st_id s \<and> st_done t \<noteq> None)) (\<lambda>_ _. True)"
proof -
  let ?new = "\<lambda>now. update_tasks (\<lambda>t. st_id t = st_id s \<and> st_hold t = [] \<and> st_phase t = ''VERIFY'' \<and> st_gen t = st_gen s)
         (\<lambda>t. t\<lparr>st_done := Some now\<rparr>) d0"
  have reads: "dbh (\<lambda>d. d = d0) (sub_counts c k) (\<lambda>_ d. d = d0) (\<lambda>_ _. True)" for k
  proof -
    have "keeps (\<lambda>d. d = d0) (sub_counts c k)" by (intro keeps_rules)
    then show ?thesis by (rule dbh_weaken) auto
  qed
  have row: "dbh (\<lambda>d. d = d1) (subtask_row c (st_id s)) (\<lambda>t d. d = d1 \<and> t \<in> set (t_tasks d) \<and> st_id t = st_id s) (\<lambda>_ _. True)" for d1
    by (rule dbh_weaken [OF subtask_row_spec [of d1]]) auto
  have "dbh (\<lambda>d. \<exists>now. d = ?new now) (subtask_row c (st_id s)) (\<lambda>t d. (\<exists>now. d = ?new now) \<and> t \<in> set (t_tasks d) \<and> st_id t = st_id s) (\<lambda>_ _. True)"
  proof (rule dbhI)
    fix w t v assume "\<exists>now. w_db w = ?new now" and run: "subtask_row c (st_id s) w = (Inr t, v)"
    then show "(\<exists>now. w_db v = ?new now) \<and> t \<in> set (t_tasks (w_db v)) \<and> st_id t = st_id s"
      using dbhD_ok [OF row refl run] by auto
  qed simp
  note row = this
  show ?thesis
    unfolding complete_verify_def
    apply (rule dbh_bind, rule dbh_check_lock [where Q = "\<lambda>_ d. d = d0"], simp, simp)
    apply (rule dbh_bind [OF reads], rule dbh_bind, rule dbh_failIf [where Q = "\<lambda>_ d. d = d0"], simp, simp)
    apply (rule dbh_bind, rule dbh_update [where Q = "\<lambda>_ d. \<exists>now. d = ?new now"], simp, blast, simp)
    apply (rule dbh_bind [OF row], rule dbh_failIf, simp, blast)
    done
qed

text \<open>The verification run changes neither the tasks nor the files.\<close>

definition same_files :: "world \<times> ('s \<times> disk) \<Rightarrow> world \<times> ('s \<times> disk) \<Rightarrow> bool" where
  "same_files w v \<longleftrightarrow> snd (snd v) = snd (snd w)"

definition same_rows :: "world \<times> ('s \<times> disk) \<Rightarrow> world \<times> ('s \<times> disk) \<Rightarrow> bool" where
  "same_rows w v \<longleftrightarrow> t_tasks (w_db (fst v)) = t_tasks (w_db (fst w)) \<and> same_files w v"

lemma verify_run_rows:
  assumes lim: "transits same_db lim" "\<And>k. transits same_db (pause k)" "transits same_files lim" "\<And>k. transits same_files (pause k)"
    and run: "verify_run (task_verifier s (\<lambda>p. on_db (em p)) lim pause qps retries timeout) w = Some (Inr (), v)"
  shows "same_rows w v"
proof -
  let ?r = "task_verifier s (\<lambda>p. on_db (em p)) lim pause qps retries timeout"
  have o: "reflp same_rows" "transp same_rows" by (auto simp: same_rows_def same_files_def intro!: reflpI transpI)
  have both: "transits same_rows m" if "transits same_db m" "transits same_files m" for m :: "(world \<times> (_ \<times> disk), 'z) act"
    using that by (auto simp: transits_def same_rows_def same_db_def)
  have db: "transits same_rows (on_db m)" if "\<And>ts. keeps (\<lambda>d. t_tasks d = ts) m" for m :: "(world, 'z) act"
  proof (rule transitsI)
    fix w :: "world \<times> (_ \<times> disk)" and x v assume "on_db m w = (x, v)"
    then have m: "m (fst w) = (x, fst v)" "snd v = snd w" by (auto simp: on_db_iff)
    have "t_tasks (w_db (fst v)) = t_tasks (w_db (fst w))" by (rule keepsE [OF that _ m(1)]) simp
    then show "same_rows w v" using m(2) by (simp add: same_rows_def same_files_def)
  qed
  have st: "transits same_rows (on_store (on_db m) :: (world \<times> (_ \<times> disk), 'z) act)" for m
    by (auto simp: transits_def on_store_iff on_db_iff same_rows_def same_files_def)
  have fields: "vf_wait ?r = lim" "vf_check ?r = Some (on_db (check_lock LockCtx))" "vf_backoff ?r = pause"
    "vf_empty ?r = (\<lambda>p. on_store (on_db (em p)))"
    by (simp_all only: task_verifier_def verifier.simps)
  have "vf_calm same_rows ?r"
    unfolding vf_calm_def fields
  proof (intro conjI allI impI)
    show "transits same_rows lim" by (rule both [OF lim(1,3)])
    show "transits same_rows (pause k)" for k by (rule both [OF lim(2,4)])
    show "transits same_rows m" if "Some (on_db (check_lock LockCtx)) = Some m" for m
      unfolding option.inject [THEN iffD1, OF that, symmetric] by (rule db [OF keeps_check_lock])
    show "transits same_rows (on_store (on_db (em p)))" for p by (rule st)
  qed (rule o)+
  moreover have "transits same_rows (vf_record ?r k status detail)" for k status detail
    unfolding task_verifier_def record_verify_def verifier.simps
    by (intro db keeps_bind keeps_check_lock keeps_rules dbh_update) (auto simp: update_objects_def)
  moreover have "transits same_rows (vf_pending ?r a n)" for a n
    unfolding task_verifier_def verify_pending_def verifier.simps by (intro db keeps_query)
  moreover have "verify_loop ?r 0 w = Some (Inr (), v)" using run by (auto simp: verify_run_def split: if_splits)
  ultimately show ?thesis by (rule verify_loop_transits)
qed

lemma report_rows_cong:
  "t_objects d = t_objects d' \<Longrightarrow> st_id t = st_id s \<Longrightarrow> st_gen t = st_gen s \<Longrightarrow> report_rows d t = report_rows d' s"
  by (simp add: report_rows_def objects_of_def)

lemma verify_report_ok: "verify_report c s w = (Inr rows, v) \<Longrightarrow> rows = report_rows (w_db w) s \<and> w_db v = w_db w"
  unfolding verify_report_def query_def by (auto dest!: statement_cases)

lemma done_row:
  assumes "s \<in> set (t_tasks d)" "distinct (map st_id (t_tasks d))" "st_done s = None"
    and "d' = update_tasks R (\<lambda>t. t\<lparr>st_done := Some now\<rparr>) d" "t \<in> set (t_tasks d')" "st_id t = st_id s" "st_done t \<noteq> None"
  shows "st_gen t = st_gen s"
proof -
  obtain u where u: "u \<in> set (t_tasks d)" "t = (if R u then u\<lparr>st_done := Some now\<rparr> else u)"
    using assms(4,5) by (auto simp: update_tasks_def)
  then have "st_id u = st_id s" using assms(6) by (auto split: if_splits)
  then have "u = s" using u(1) assms(1,2) by (auto simp: distinct_map dest: inj_onD)
  then show ?thesis using u(2) by (auto split: if_splits)
qed

lemma verify_finish_done:
  assumes run: "verify_finish e fl s w = (Inr line, v)"
    and s: "s \<in> set (t_tasks (w_db (fst w)))" and ids: "distinct (map st_id (t_tasks (w_db (fst v))))"
    and files: "dk_files (snd (snd w)) (en_temp e) = None" "report_path fl (st_id s) \<noteq> en_temp e"
  shows "\<exists>t\<in>set (t_tasks (w_db (fst v))). st_id t = st_id s \<and> st_done t \<noteq> None \<and>
    dk_files (snd (snd v)) = (dk_files (snd (snd w)))(report_path fl (st_id t) :=
      Some (concat (report_lines (report_rows (w_db (fst v)) t))))"
proof -
  let ?path = "report_path fl (st_id s)"
  obtain rows u1 x1 u2 x2 u3 t u4 where
      r: "on_db (verify_report LockCtx s) w = (Inr rows, u1)"
    and f0: "on_store (on_store (write_report (en_temp e) ?path rows)) u1 = (Inr x1, u2)"
    and d0: "(if st_done s = None then on_db (complete_verify LockCtx s) else ret ()) u2 = (Inr x2, u3)"
    and k: "on_db (subtask_row LockCtx (st_id s)) u3 = (Inr t, u4)"
    and p: "on_db (print_subtask LockCtx False t) u4 = (Inr line, v)"
    using run unfolding verify_finish_def bindA_ok_iff by blast
  have f: "on_store (on_store (write_report (en_temp e) ?path rows)) u1 = (Inr (), u2)"
    and d: "(if st_done s = None then on_db (complete_verify LockCtx s) else ret ()) u2 = (Inr (), u3)"
    using f0 d0 by (cases x1, simp, cases x2, simp)
  have rows: "rows = report_rows (w_db (fst w)) s" "w_db (fst u1) = w_db (fst w)" "snd u1 = snd w"
    using r verify_report_ok [of LockCtx s "fst w" rows "fst u1"] by (auto simp: on_db_iff)
  have u12: "fst u2 = fst u1" using f by (simp add: on_store_iff)
  have wr: "write_report (en_temp e) ?path rows (snd (snd w)) = (Inr (), snd (snd u2))"
    using f rows(3) by (simp add: on_store_iff)
  have content: "dk_files (snd (snd u2)) = (dk_files (snd (snd w)))(?path := Some (concat (report_lines rows)))"
    by (rule hoareD_ok [OF write_report_spec [of "dk_files (snd (snd w))", OF files] _ wr]) simp
  have db4: "w_db (fst v) = w_db (fst u3)" "snd v = snd u3"
    using finish_reads(2) [OF k] finish_reads(3) [OF p] k p by (auto simp: on_db_iff)
  have fin: "(\<exists>t\<in>set (t_tasks (w_db (fst v))). st_id t = st_id s \<and> st_done t \<noteq> None \<and> st_gen t = st_gen s) \<and>
      t_objects (w_db (fst v)) = t_objects (w_db (fst w)) \<and> snd u3 = snd u2"
  proof (cases "st_done s = None")
    case False
    then have "u3 = u2" using d by (simp add: ret_def del: not_None_eq)
    then show ?thesis using False s db4 u12 rows(2) by auto
  next
    case True
    then have c: "complete_verify LockCtx s (fst u2) = (Inr (), fst u3)" "snd u3 = snd u2" using d by (auto simp: on_db_iff)
    have db: "w_db (fst u2) = w_db (fst w)" using u12 rows(2) by simp
    obtain now t where n: "w_db (fst u3) = update_tasks (\<lambda>t. st_id t = st_id s \<and> st_hold t = [] \<and> st_phase t = ''VERIFY'' \<and> st_gen t = st_gen s)
         (\<lambda>t. t\<lparr>st_done := Some now\<rparr>) (w_db (fst w))" and t: "t \<in> set (t_tasks (w_db (fst u3)))" "st_id t = st_id s" "st_done t \<noteq> None"
      using dbhD_ok [OF complete_verify_rows refl c(1)] unfolding db by blast
    have "map st_id (t_tasks (w_db (fst u3))) = map st_id (t_tasks (w_db (fst w)))"
      unfolding n by (auto simp: update_tasks_def)
    then have "distinct (map st_id (t_tasks (w_db (fst w))))" using ids db4 by simp
    then have "st_gen t = st_gen s" by (rule done_row [OF s _ True n t])
    then show ?thesis using t c(2) db4 n by (auto simp: update_tasks_def)
  qed
  then obtain t' where t': "t' \<in> set (t_tasks (w_db (fst v)))" "st_id t' = st_id s" "st_done t' \<noteq> None" "st_gen t' = st_gen s"
      "t_objects (w_db (fst v)) = t_objects (w_db (fst w))" "snd u3 = snd u2" by blast
  then have "report_rows (w_db (fst v)) t' = rows" unfolding rows(1) by (intro report_rows_cong)
  then show ?thesis using t' content db4(2) by auto
qed

lemma resolve_verify_row:
  "dbh (\<lambda>d. d = d0) (resolve_verify c tid) (\<lambda>s d. d = d0 \<and> s \<in> set (t_tasks d0)) (\<lambda>_ _. True)"
proof -
  have row: "dbh (\<lambda>d. d = d0) (subtask_row c tid) (\<lambda>s d. d = d0 \<and> s \<in> set (t_tasks d0)) (\<lambda>_ _. True)"
    by (rule dbh_weaken [OF subtask_row_spec [of d0]]) auto
  show ?thesis
    unfolding resolve_verify_def
    by (rule dbh_if, rule row, rule dbh_try, rule dbh_query [where Q = "\<lambda>s d. d = d0 \<and> s \<in> set (t_tasks d0)" and E = "\<lambda>_ _. True"])
      (auto simp: tasks_where_def dest: first_row_mem intro!: dbh_rules)
qed

lemma begin_verify_row:
  "dbh (\<lambda>d. s \<in> set (t_tasks d)) (begin_verify H c s restart) (\<lambda>t d. t \<in> set (t_tasks d)) (\<lambda>_ _. True)"
proof -
  have top: "dbh P m (\<lambda>_ _. True) (\<lambda>_ _. True)" for P and m :: "(world, 'a) act" by (rule dbhI) auto
  have row: "dbh (\<lambda>_. True) (subtask_row c k) (\<lambda>t d. t \<in> set (t_tasks d)) (\<lambda>_ _. True)" for k
  proof (rule dbhI)
    fix w t v assume "subtask_row c k w = (Inr t, v)"
    then show "t \<in> set (t_tasks (w_db v))" using dbhD_ok [OF subtask_row_spec refl, of c k w t v] by simp
  qed simp
  show ?thesis
    unfolding begin_verify_def Let_def
    apply (rule dbh_bind, rule dbh_check_lock [where Q = "\<lambda>_ d. s \<in> set (t_tasks d)"], simp, simp)
    apply (rule dbh_bind, rule dbh_failIf [where Q = "\<lambda>_ d. s \<in> set (t_tasks d)"], simp, simp)
    apply (rule dbh_if, rule dbh_ret, simp)
    apply (rule dbh_bind [OF top], rule dbh_bind [OF top], rule dbh_bind [OF top], rule dbh_bind [OF top], rule dbh_bind [OF top], rule row)
    done
qed

lemma verify_task_done:
  assumes lim: "transits same_db lim" "\<And>k. transits same_db (pause k)" "transits same_files lim" "\<And>k. transits same_files (pause k)"
    and run: "verify_task H e build lim pause fl cfg s w = Some (Inr line, v)"
    and s: "s \<in> set (t_tasks (w_db (fst w)))" and ids: "distinct (map st_id (t_tasks (w_db (fst v))))"
    and files: "dk_files (snd (snd w)) (en_temp e) = None" "\<And>k. report_path fl k \<noteq> en_temp e"
  shows "\<exists>t\<in>set (t_tasks (w_db (fst v))). st_done t \<noteq> None \<and>
    dk_files (snd (snd v)) = (dk_files (snd (snd w)))(report_path fl (st_id t) :=
      Some (concat (report_lines (report_rows (w_db (fst v)) t))))"
proof -
  obtain t api bucket u where p: "verify_prepare H e build fl cfg s w = (Inr (t, api, bucket), u)"
    using run by (auto simp: verify_task_def split: prod.splits sum.splits)
  have row: "t \<in> set (t_tasks (w_db (fst u))) \<and> snd (snd u) = snd (snd w)"
    using p
  proof (cases rule: verify_prepare_cases)
    case (started b r')
    then have "begin_verify H LockCtx s (vl_restart fl) b = (Inr t, fst u)" by auto
    from dbhD_ok [OF begin_verify_row _ this] show ?thesis using started(1,3) s by simp
  qed simp
  have "\<exists>w'. verify_finish e fl t w' = (Inr line, v) \<and> same_rows u w'"
  proof (cases "st_done t = None")
    case False
    then have "verify_finish e fl t u = (Inr line, v)" using run p by (simp add: verify_task_def del: not_None_eq)
    moreover have "same_rows u u" by (simp add: same_rows_def same_files_def)
    ultimately show ?thesis by blast
  next
    case True
    let ?vf = "task_verifier t (\<lambda>p. on_db (store_empty api bucket p)) lim pause (vl_qps_positive fl) (vl_retries fl) (vl_timeout fl)"
    obtain w' where vr: "verify_run ?vf u = Some (Inr (), w')" and fin: "verify_finish e fl t w' = (Inr line, v)"
      using run p True by (auto simp: verify_task_def split: option.splits sum.splits)
    have "same_rows u w'" by (rule verify_run_rows [OF lim vr])
    then show ?thesis using fin by blast
  qed
  then obtain w' where fin: "verify_finish e fl t w' = (Inr line, v)" and same: "same_rows u w'" by blast
  have 1: "t \<in> set (t_tasks (w_db (fst w')))" using same row by (simp add: same_rows_def)
  have 2: "dk_files (snd (snd w')) = dk_files (snd (snd w))" using same row by (simp add: same_rows_def same_files_def)
  from verify_finish_done [OF fin 1 ids] files show ?thesis unfolding 2 by blast
qed

text \<open>
  The text that a certified task must have on the disk: the heading, and a line for each deferred member
  with the operator's reason, in the order of the objects.
\<close>

definition deferral_line :: "task_object \<Rightarrow> string" where
  "deferral_line o' = csv_line [dec (unat (ob_oid o')), ''DEFERRED'', ob_reason o']"

definition deferral_report :: "db \<Rightarrow> subtask \<Rightarrow> string" where
  "deferral_report d t = csv_line [''oid'', ''result'', ''detail''] @
     concat (map deferral_line (sort_key ob_oid (filter ob_deferred (objects_of d (st_id t)))))"

lemma sort_key_map: "sort_key f (map g xs) = map g (sort_key (\<lambda>x. f (g x)) xs)"
proof (induction xs)
  case (Cons x xs)
  have "insort_key f (g x) (map g ys) = map g (insort_key (\<lambda>x. f (g x)) x ys)" for ys by (induction ys) auto
  then show ?case using Cons by simp
qed simp

lemma certified_report:
  assumes "certified d t"
  shows "concat (report_lines (report_rows d t)) = deferral_report d t"
proof -
  have "filter (\<lambda>o'. ob_deferred o' \<or> (ob_gen o' = st_gen t \<and> ob_status o' \<in> {''ERROR'', ''RESIDUE''})) (objects_of d (st_id t)) =
      filter ob_deferred (objects_of d (st_id t))"
    using assms by (intro filter_cong) (auto simp: certified_def passed_def list_all_iff)
  then have "report_rows d t = map (\<lambda>o'. \<lparr>rr_oid = ob_oid o', rr_kind = (if ob_deferred o' then ''DEFERRED'' else ob_status o'),
      rr_detail = (if ob_deferred o' then ob_reason o' else ob_detail o')\<rparr>) (sort_key ob_oid (filter ob_deferred (objects_of d (st_id t))))"
    by (simp add: report_rows_def sort_key_map)
  note rows = this
  have line: "map (\<lambda>o'. csv_line [dec (unat (ob_oid o')), if ob_deferred o' then ''DEFERRED'' else ob_status o',
      if ob_deferred o' then ob_reason o' else ob_detail o']) ys = map deferral_line ys" if "\<forall>o'\<in>set ys. ob_deferred o'" for ys
    using that by (intro map_cong) (auto simp: deferral_line_def)
  show ?thesis
    unfolding rows report_lines_def deferral_report_def
    by (simp add: comp_def) (rule arg_cong [where f = concat], rule line, simp)
qed

section \<open>Property\<close>

text \<open>C3. A verify command that reports no error has certified its task: afterwards the task is done and every
  member that is not deferred is deleted and has passed in the current generation. The report, the only
  file that changed, lists exactly the deferred members, each with its reason, after the heading. (The
  limiter and the timer touch neither the tables nor the files; the temporary name is a new one.)\<close>

theorem verify_command_certifies:
  assumes "transits same_db lim" "\<And>k. transits same_db (pause k)" "transits same_files lim" "\<And>k. transits same_files (pause k)"
    and "run_verify H e build lim pause parse args w = Some (Inr line, v)" "parse args = Inr (fl, [])"
    and "dk_files (snd (snd w)) (en_temp e) = None" "\<And>k. report_path fl k \<noteq> en_temp e"
    and "reachable H (Idle, fst w)"
  shows "\<exists>t\<in>set (t_tasks (w_db (fst v))). st_done t \<noteq> None \<and> certified (w_db (fst v)) t \<and>
    dk_files (snd (snd v)) = (dk_files (snd (snd w)))(report_path fl (st_id t) := Some (deferral_report (w_db (fst v)) t))"
proof -
  obtain cfg u where o: "verify_open e parse args w = (Inr (fl, cfg), u)"
    using assms(5,6) by (auto simp: run_verify_def verify_open_def bindA_def parse_flags_def liftE_def failIf_def ret_def throw_def
        split: prod.splits sum.splits if_splits)
  have files: "snd u = snd w"
    using o by (auto simp: verify_open_def bindA_ok_iff parse_flags_def liftE_def failIf_def ret_def throw_def load_def on_db_iff
        split: if_splits prod.splits)
  obtain s t where sel: "on_db (verify_select fl) u = (Inr s, t)"
    using assms(5) o by (auto simp: run_verify_def split: prod.splits sum.splits)
  obtain q t2 where task: "verify_task H e build lim pause fl cfg s t = Some (q, t2)"
      and v: "apsnd (apfst (close_db e)) (with_task_error (st_id s) (\<lambda>_. (q, t2)) t) = (Inr line, v)"
    using assms(5) o sel by (auto simp: run_verify_def)
  have q: "q = Inr line" "v = apfst (close_db e) t2"
    using v by (cases q; auto simp: with_task_error_def tryA_def throw_def ret_def)+
  have res: "resolve_verify LockCtx (vl_task fl) (fst u) = (Inr s, fst t)" "snd t = snd w"
    using verify_select_ok [of fl "fst u" s "fst t"] sel files by (auto simp: on_db_iff)
  have "s \<in> set (t_tasks (w_db (fst u)))" "w_db (fst t) = w_db (fst u)"
    using dbhD_ok [OF resolve_verify_row refl res(1)] by auto
  then have s: "s \<in> set (t_tasks (w_db (fst t)))" by simp
  have db: "w_db (fst v) = w_db (fst t2)" "snd v = snd t2" using q(2) by (cases t2; simp)+
  have "idle_pair H w v" by (rule pair_verify [OF assms(1,2,5)])
  then have ok: "db_ok (w_db (fst v))" using assms(9) reachable_ok by (fastforce simp: idle_pair_def idle_def session_ok_def)
  have ids: "distinct (map st_id (t_tasks (w_db (fst t2))))" using db_okD(1) [OF ok] db by (simp add: keys_ok_def)
  have temp: "dk_files (snd (snd t)) (en_temp e) = None" using assms(7) res(2) by simp
  obtain t' where t': "t' \<in> set (t_tasks (w_db (fst v)))" "st_done t' \<noteq> None"
      "dk_files (snd (snd v)) = (dk_files (snd (snd w)))(report_path fl (st_id t') :=
        Some (concat (report_lines (report_rows (w_db (fst v)) t'))))"
    using verify_task_done [OF assms(1-4) task [unfolded q(1)] s ids temp assms(8)] db res(2) by auto
  have "certified (w_db (fst v)) t'" using db_okD(2) [OF ok t'(1)] t'(2) by (auto simp: task_ok_def)
  then show ?thesis using t' by (auto simp: certified_report)
qed

text \<open>
  A task whose only member the operator deferred, over an empty bucket and an empty disk: there is
  nothing to check, and the report has the deferral.
\<close>

definition ex_deferred :: task_object where
  "ex_deferred = (new_object 1 5)\<lparr>ob_deferred := True, ob_reason := ''lost'', ob_deferred_at := Some 100\<rparr>"

definition ex_waived :: subtask where
  "ex_waived = ex_task\<lparr>st_purged := Some 100, st_phase := ''PURGE''\<rparr>"

definition ex_rechecked :: subtask where
  "ex_rechecked = ex_waived\<lparr>st_phase := ''VERIFY'', st_conn := Some 7\<rparr>"

definition ex_closing :: subtask where
  "ex_closing = ex_rechecked\<lparr>st_done := Some 100\<rparr>"

text \<open>The database with the deferral and the task as given.\<close>

definition ex_waiting :: "subtask \<Rightarrow> db" where
  "ex_waiting t = ex_ready\<lparr>t_tasks := [t], t_objects := [ex_deferred],
     t_events := [\<lparr>te_task = 1, te_oid = Some 5, te_action = ''DEFER'', te_reason = ''lost''\<rparr>]\<rparr>"

definition ex_verify_flags :: verify_flags where
  "ex_verify_flags = \<lparr>vl_common = ex_common, vl_task = 0, vl_restart = False, vl_allow = False, vl_out = ''report.tsv'',
     vl_qps_positive = True, vl_retries = 3, vl_timeout = 120\<rparr>"

definition ex_report :: string where
  "ex_report = csv_line [''oid'', ''result'', ''detail''] @ csv_line [''5'', ''DEFERRED'', ''lost'']"

definition ex_away :: "bucket \<times> disk" where
  "ex_away = (\<lparr>bk_keys = [], bk_script = []\<rparr>, \<lparr>dk_files = (\<lambda>_. None), dk_script = []\<rparr>)"

definition ex_reported :: "bucket \<times> disk" where
  "ex_reported = (\<lparr>bk_keys = [], bk_script = []\<rparr>, \<lparr>dk_files = [''report.tsv'' \<mapsto> ex_report], dk_script = []\<rparr>)"

lemmas ex_waived_defs = ex_deferred_def ex_waived_def ex_rechecked_def ex_closing_def ex_waiting_def ex_defs

lemma ex_defer: "defer_object LockCtx ex_task 5 ''lost'' (ex_world ex_ready) = (Inr (), ex_world (ex_waiting ex_waived))"
proof -
  have 1: "\<not> blank ''lost''" by code_simp
  have 2: "\<not> 3900 < length (runes ''lost'')" using runes_length [of "''lost''"] by simp
  let ?d = "ex_waiting ex_task"
  have 3: "transaction LockCtx (defer_tx LockCtx ex_task 5 ''lost'') (ex_world ex_ready) = (Inr (), ex_world ?d)"
    by (simp add: defer_tx_def defer_rows_def active_member_def update_objects_def add_event_def run_defs ex_waived_defs)
  have 4: "case sub_counts LockCtx 1 (ex_world ?d) of (Inl e, v) \<Rightarrow> False | (Inr n, v) \<Rightarrow> v = ex_world ?d \<and> c_pending n + c_failed n = 0"
    by (simp add: sub_counts_def read_counts_def objects_of_def progress_of_def has_status_def coalesce_def run_defs ex_waived_defs)
  have 5: "complete_purge LockCtx ex_task (ex_world ?d) = (Inr (), ex_world (ex_waiting ex_waived))"
    by (simp add: complete_purge_def sub_counts_def read_counts_def objects_of_def progress_of_def
        has_status_def coalesce_def update_tasks_def run_defs ex_waived_defs)
  obtain n where n: "sub_counts LockCtx 1 (ex_world ?d) = (Inr n, ex_world ?d)" "c_pending n + c_failed n = 0"
    using 4 by (cases "sub_counts LockCtx 1 (ex_world ?d)") (auto split: sum.splits)
  have lock: "check_lock LockCtx (ex_world ex_ready) = (Inr (), ex_world ex_ready)" by (simp add: run_defs ex_defs)
  have t: "st_done ex_task = None" "st_hold ex_task = []" "st_id ex_task = 1" by (simp_all add: ex_defs)
  show ?thesis
    using n by (simp add: defer_object_def bindA_def failIf_def ret_def 1 2 3 5 lock t)
qed

lemma ex_waiting_reachable: "reachable ex_hash (Idle, ex_fresh (ex_waiting ex_waived))"
proof -
  have r: "resolve_admin LockCtx 1 (ex_world ex_ready) = (Inr ex_task, ex_world ex_ready)"
    by (simp add: resolve_admin_def run_defs ex_defs)
  have "reachable ex_hash (Idle, ex_world (ex_waiting ex_waived))"
    by (rule step [OF ex_ready_reachable session.deferred [OF r refl ex_defer]])
  then show ?thesis by (rule step) (rule environment, simp add: ex_fresh_def)
qed

lemma ex_verify_open: "verify_open ex_surroundings (\<lambda>_. Inr (ex_verify_flags, [])) [] (ex_fresh (ex_waiting ex_waived), ex_away) =
    (Inr (ex_verify_flags, ex_config ''https://m.s3.eu.amazonaws.com''), (ex_world (ex_waiting ex_waived), ex_away))"
proof -
  let ?w = "ex_world (ex_waiting ex_waived)"
  have "settled (ex_waiting ex_waived)" by (simp add: settled_def recoverable_def ex_waived_defs)
  note locked = ex_open_locked [OF this]
  have m: "t_meta (w_db ?w) = Some (ex_meta ScanComplete (Some 1) (Some 1) (Some 100))" by (simp add: ex_waived_defs)
  have 1: "check_binding LockCtx ex_binding ?w = (Inr (), ?w)" "require_complete_scan LockCtx ?w = (Inr (), ?w)"
    using m by (simp_all add: check_binding_def require_complete_scan_def run_defs ex_meta_def ex_world_def)
  have f: "vl_common ex_verify_flags = ex_common" "vl_qps_positive ex_verify_flags" "vl_retries ex_verify_flags = 3"
    "vl_timeout ex_verify_flags = 120" by (simp_all add: ex_verify_flags_def)
  have "open_bound ex_surroundings ex_common (ex_config ''https://m.s3.eu.amazonaws.com'') (ex_fresh (ex_waiting ex_waived)) = (Inr (), ?w)"
    by (simp add: open_bound_def bindA_def liftE_def ex_make_binding locked or_close_def tryA_def 1 ret_def)
  then show ?thesis
    by (simp add: verify_open_def bindA_def parse_flags_def liftE_def failIf_def ret_def f ex_load on_db_def)
qed

lemma ex_prepare: "verify_prepare ex_hash ex_surroundings (\<lambda>_. Inr bucket_api) ex_verify_flags (ex_config ''https://m.s3.eu.amazonaws.com'')
    ex_waived (ex_world (ex_waiting ex_waived), ex_away) = (Inr (ex_rechecked, bucket_api, ''m''), (ex_world (ex_waiting ex_rechecked), ex_away))"
proof -
  have 1: "check_manifest ex_hash LockCtx ex_waived (ex_world (ex_waiting ex_waived)) = (Inr (), ex_world (ex_waiting ex_waived))"
    by (simp add: check_manifest_def manifest_def member_rows_def objects_of_def scan_of_def digest_rows_def List.map_filter_def
        run_defs ex_waived_defs)
  have 2: "begin_verify ex_hash LockCtx ex_waived False (ex_world (ex_waiting ex_waived)) = (Inr ex_rechecked, ex_world (ex_waiting ex_rechecked))"
    by (simp add: begin_verify_def check_manifest_def manifest_def member_rows_def objects_of_def
      scan_of_def digest_rows_def sub_counts_def read_counts_def progress_of_def has_status_def
      coalesce_def update_tasks_def List.map_filter_def run_defs ex_waived_defs)
  have 3: "new_store (en_env ex_surroundings) (\<lambda>_. Inr bucket_api) (cf_store (ex_config ''https://m.s3.eu.amazonaws.com'')) 120 = Inr (bucket_api, ''m'')"
    by (simp add: new_store_def ex_config_def ex_virtual)
  have 4: "ensure_versioning_disabled bucket_api ''m'' False w = (Inr (), w)" for w
    by (simp add: ensure_versioning_disabled_def bucket_api_def act_defs)
  have f: "vl_restart ex_verify_flags = False" "vl_allow ex_verify_flags = False" "vl_timeout ex_verify_flags = 120"
    by (simp_all add: ex_verify_flags_def)
  show ?thesis
    by (simp add: verify_prepare_def bindA_def manifest_or_hold_def tryA_def on_db_def on_store_def liftE_def ret_def f 1 2 3 4)
qed

lemma ex_nothing_to_check:
  "verify_run (task_verifier ex_rechecked em (ret ()) (\<lambda>_. ret ()) True 3 120) (ex_world (ex_waiting ex_rechecked), x) =
    Some (Inr (), (ex_world (ex_waiting ex_rechecked), x))"
proof -
  have live: "ctx_err LockCtx (ex_world (ex_waiting ex_rechecked)) = None" by (simp add: ctx_err_def ex_world_def)
  have page: "verify_pending LockCtx ex_rechecked 0 1000 (ex_world (ex_waiting ex_rechecked)) = (Inr [], ex_world (ex_waiting ex_rechecked))"
    by (simp add: verify_pending_def objects_of_def needs_check_def run_defs ex_waived_defs)
  show ?thesis
    by (simp add: verify_run_def task_verifier_def) (subst verify_loop.simps, simp add: vf_live_def live page on_db_def bindA_def)
qed

lemma ex_write_report: "write_report ''.purge-report-1.tmp'' ''report.tsv'' [\<lparr>rr_oid = 5, rr_kind = ''DEFERRED'', rr_detail = ''lost''\<rparr>] (snd ex_away) =
    (Inr (), snd ex_reported)"
proof -
  have "dec 5 = ''5''" by code_simp
  then show ?thesis
    by (simp add: report_lines_def write_report_def deferring_def disk_op_def append_to_def act_defs ex_away_def ex_reported_def ex_report_def fun_eq_iff)
qed

lemma ex_finish_report: "\<exists>line. verify_finish ex_surroundings ex_verify_flags ex_rechecked (ex_world (ex_waiting ex_rechecked), ex_away) =
    (Inr line, (ex_world (ex_waiting ex_closing), ex_reported))"
proof -
  let ?w = "ex_world (ex_waiting ex_rechecked)" and ?v = "ex_world (ex_waiting ex_closing)"
  have 1: "verify_report LockCtx ex_rechecked ?w = (Inr [\<lparr>rr_oid = 5, rr_kind = ''DEFERRED'', rr_detail = ''lost''\<rparr>], ?w)"
    by (simp add: verify_report_def report_rows_def objects_of_def run_defs ex_waived_defs)
  have 2: "complete_verify LockCtx ex_rechecked ?w = (Inr (), ?v)"
    by (simp add: complete_verify_def sub_counts_def read_counts_def objects_of_def progress_of_def
      has_status_def current_verdict_def update_tasks_def run_defs ex_waived_defs)
  have 3: "subtask_row LockCtx (st_id ex_rechecked) ?v = (Inr ex_closing, ?v)"
    by (simp add: run_defs ex_waived_defs)
  have 4: "\<exists>line. print_subtask LockCtx False ex_closing ?v = (Inr line, ?v)"
    by (simp add: print_subtask_def sub_counts_def read_counts_def objects_of_def progress_of_def has_status_def run_defs ex_waived_defs)
  have f: "en_temp ex_surroundings = ''.purge-report-1.tmp''" "report_path ex_verify_flags k = ''report.tsv''" "st_done ex_rechecked = None" for k
    by (simp_all add: ex_surroundings_def report_path_def ex_verify_flags_def ex_waived_defs)
  have 5: "fst ex_reported = fst ex_away" by (simp add: ex_away_def ex_reported_def)
  obtain line where l: "print_subtask LockCtx False ex_closing ?v = (Inr line, ?v)" using 4 by blast
  have "verify_finish ex_surroundings ex_verify_flags ex_rechecked (?w, ex_away) = (Inr line, (?v, (fst ex_away, snd ex_reported)))"
    by (simp add: verify_finish_def bindA_def on_db_def on_store_def f 1 2 3 l ex_write_report)
  then show ?thesis using 5 by (metis prod.collapse)
qed

lemma ex_run_verify: "\<exists>line. run_verify ex_hash ex_surroundings (\<lambda>_. Inr bucket_api) (ret ()) (\<lambda>_. ret ()) (\<lambda>_. Inr (ex_verify_flags, [])) []
    (ex_fresh (ex_waiting ex_waived), ex_away) = Some (Inr line, (ex_closed (ex_waiting ex_closing), ex_reported))"
proof -
  have sel: "verify_select ex_verify_flags (ex_world (ex_waiting ex_waived)) = (Inr ex_waived, ex_world (ex_waiting ex_waived))"
    by (simp add: verify_select_def resolve_verify_def ex_verify_flags_def run_defs ex_waived_defs)
  obtain line where fin: "verify_finish ex_surroundings ex_verify_flags ex_rechecked (ex_world (ex_waiting ex_rechecked), ex_away) =
      (Inr line, (ex_world (ex_waiting ex_closing), ex_reported))"
    using ex_finish_report by blast
  have f: "vl_qps_positive ex_verify_flags = True" "vl_retries ex_verify_flags = 3" "vl_timeout ex_verify_flags = 120" "st_done ex_rechecked = None"
    by (simp_all add: ex_verify_flags_def ex_waived_defs)
  have "verify_task ex_hash ex_surroundings (\<lambda>_. Inr bucket_api) (ret ()) (\<lambda>_. ret ()) ex_verify_flags (ex_config ''https://m.s3.eu.amazonaws.com'')
      ex_waived (ex_world (ex_waiting ex_waived), ex_away) = Some (Inr line, (ex_world (ex_waiting ex_closing), ex_reported))"
    by (simp add: verify_task_def ex_prepare f ex_nothing_to_check fin)
  then have "run_verify ex_hash ex_surroundings (\<lambda>_. Inr bucket_api) (ret ()) (\<lambda>_. ret ()) (\<lambda>_. Inr (ex_verify_flags, [])) []
    (ex_fresh (ex_waiting ex_waived), ex_away) = Some (Inr line, (ex_closed (ex_waiting ex_closing), ex_reported))"
    by (simp add: run_verify_def ex_verify_open on_db_def sel with_task_error_def tryA_def ret_def ex_close)
  then show ?thesis by blast
qed

theorem verify_command_certifies_witness:
  "\<exists>t\<in>set (t_tasks (ex_waiting ex_closing)). certified (ex_waiting ex_closing) t \<and>
    dk_files (snd ex_reported) ''report.tsv'' = Some (deferral_report (ex_waiting ex_closing) t) \<and>
    deferral_report (ex_waiting ex_closing) t = csv_line [''oid'', ''result'', ''detail''] @ csv_line [''5'', ''DEFERRED'', ''lost'']"
proof -
  have files: "transits same_files (ret () :: (world \<times> (bucket \<times> disk), unit) act)"
    by (simp add: transits_def ret_def same_files_def)
  have path: "report_path ex_verify_flags k = ''report.tsv''" "report_path ex_verify_flags k \<noteq> en_temp ex_surroundings" for k
    by (simp_all add: report_path_def ex_verify_flags_def ex_surroundings_def)
  have temp: "dk_files (snd (snd (ex_fresh (ex_waiting ex_waived), ex_away))) (en_temp ex_surroundings) = None" by (simp add: ex_away_def)
  have start: "reachable ex_hash (Idle, fst (ex_fresh (ex_waiting ex_waived), ex_away))" using ex_waiting_reachable by simp
  have d: "w_db (fst (ex_closed d, x)) = d" for d and x :: "bucket \<times> disk" by (simp add: ex_closed_def ex_world_def)
  obtain line where run: "run_verify ex_hash ex_surroundings (\<lambda>_. Inr bucket_api) (ret ()) (\<lambda>_. ret ()) (\<lambda>_. Inr (ex_verify_flags, [])) []
    (ex_fresh (ex_waiting ex_waived), ex_away) = Some (Inr line, (ex_closed (ex_waiting ex_closing), ex_reported))" using ex_run_verify by blast
  obtain t where t: "t \<in> set (t_tasks (ex_waiting ex_closing))" "certified (ex_waiting ex_closing) t"
    and r: "dk_files (snd ex_reported) = (dk_files (snd ex_away))(''report.tsv'' := Some (deferral_report (ex_waiting ex_closing) t))"
    using verify_command_certifies [OF ex_verifier_calm ex_verifier_calm files files run refl temp path(2) start] unfolding d path(1) by auto
  have f: "dk_files (snd ex_reported) ''report.tsv'' = Some (deferral_report (ex_waiting ex_closing) t)" using r by simp
  moreover have "dk_files (snd ex_reported) ''report.tsv'' = Some ex_report" by (simp add: ex_reported_def)
  ultimately show ?thesis using t by (auto simp: ex_report_def)
qed

end
