(* ===== verification/PurgeCommand.thy ===== *)
theory PurgeCommand
  imports VerifyCommand ChainClient PurgeRunResults
begin

text \<open>
  The purge command, \<^verbatim>\<open>runPurge\<close> of \<^verbatim>\<open>cmd/limewire-purge/main.go\<close>: the guards on its flags, the choice of
  the task, the checks of manifest, store and chain, the concurrent run of \<open>PurgeRun\<close> and its end. The
  world is that of the progress database and the one outside, in which the store and the chain are;
  \<open>build\<close> makes the client of the store, \<open>dial\<close> that of the chain. The run is not deterministic, so the
  command is a relation between the world before, the result and the world after.
\<close>

section \<open>Flags\<close>

record purge_flags =
  pf_common :: common
  pf_task :: u64
  pf_execute :: bool
  pf_chain_rpc :: string
  pf_chain_id :: string
  pf_dry_run :: bool
  pf_concurrency :: int
  pf_qps_positive :: bool
  pf_max_retry :: int
  pf_allow :: bool
  pf_data_chunks :: u64
  pf_segment_size :: u64
  pf_chain_timeout :: int
  pf_s3_timeout :: int

definition check_purge_flags :: "purge_flags \<Rightarrow> err option" where
  "check_purge_flags fl =
     (if \<not> pf_execute fl \<and> \<not> pf_dry_run fl
      then Some (Txt ''real deletion requires --execute; optional --dry-run previews only'')
      else if pf_execute fl \<and> pf_dry_run fl
      then Some (Txt ''choose --execute or --dry-run, not both'')
      else if pf_concurrency fl \<le> 0 \<or> \<not> pf_qps_positive fl \<or> pf_max_retry fl < 0 \<or> pf_chain_timeout fl \<le> 0 \<or> pf_s3_timeout fl \<le> 0
      then Some (Txt ''invalid concurrency/QPS/retry/timeout'')
      else None)"

section \<open>Before the run\<close>

definition purge_open ::
  "surroundings \<Rightarrow> (string list \<Rightarrow> err + purge_flags \<times> string list) \<Rightarrow> string list \<Rightarrow>
   (world \<times> 'w, purge_flags \<times> config) act" where
  "purge_open e parse args =
     bindA (parse_flags parse args) (\<lambda>fl.
     bindA (case check_purge_flags fl of Some x \<Rightarrow> throw x | None \<Rightarrow> ret ()) (\<lambda>_.
     bindA (load e (pf_common fl)) (\<lambda>cfg.
     bindA (failIf (pf_chain_id fl \<noteq> cf_chain_id cfg)
       (Txt (''--chain-id '' @ pf_chain_id fl @ '' does not match the SP config'' @ CHR 0x27 # ''s chain '' @ cf_chain_id cfg @ ''; refusing to run''))) (\<lambda>_.
     bindA (on_db (open_bound e (pf_common fl) cfg)) (\<lambda>_. ret (fl, cfg))))))"

text \<open>\<^verbatim>\<open>chain.New\<close>: \<open>dial\<close> is the SDK's constructor, given the completed endpoint and the chain id.\<close>

definition chain_new ::
  "(string \<Rightarrow> string \<Rightarrow> int \<Rightarrow> err + 'w chain_client) \<Rightarrow> string \<Rightarrow> string \<Rightarrow> int \<Rightarrow> err + 'w chain_client" where
  "chain_new dial chain_id endpoint timeout =
     (let url = rpc_url endpoint in
      case dial url chain_id timeout of
        Inl e \<Rightarrow> Inl (Cat (Txt (''chain client '' @ chain_id @ '' @ '' @ url @ '': '')) e)
      | Inr c \<Rightarrow> Inr c)"

text \<open>A lookup of the chain, whose error is returned.\<close>

definition asked :: "('w \<Rightarrow> ('w, 'a) reply) \<Rightarrow> ('w, 'a) act" where
  "asked f w = (case f w of ((x, None), w) \<Rightarrow> (Inr x, w) | ((x, Some e), w) \<Rightarrow> (Inl e, w))"

definition bucket_confirmed :: "'w chain_client \<Rightarrow> common \<Rightarrow> subtask \<Rightarrow> (world \<times> 'w, unit) act" where
  "bucket_confirmed ch c s =
     bindA (on_store (asked (head_bucket_id ch (co_bucket c)))) (\<lambda>k.
     if k \<noteq> co_bucket_id c
     then on_db (hold_global LockCtx s (Txt (''chain says bucket '' @ co_bucket c @ '' has id '' @ dec (unat k) @
            '', flag --bucket-id is '' @ dec (unat (co_bucket_id c)) @ ''; refusing to run'')))
     else ret ())"

text \<open>The layout for the size check; an error of the lookup is only a warning, with the parameters zero.\<close>

definition layout :: "'w chain_client \<Rightarrow> purge_flags \<Rightarrow> 'w \<Rightarrow> (u32 \<times> u64) \<times> 'w" where
  "layout ch fl w =
     (let dc = ucast (pf_data_chunks fl) :: u32; seg = pf_segment_size fl in
      if dc = 0 \<or> seg = 0
      then (case redundancy_params ch w of
              (((cdc, cseg), _), w) \<Rightarrow> ((if dc = 0 then cdc else dc, if seg = 0 then cseg else seg), w))
      else ((dc, seg), w))"

definition run_options :: "purge_flags \<Rightarrow> u32 \<times> u64 \<Rightarrow> options" where
  "run_options fl l =
     \<lparr>opt_bucket = co_bucket (pf_common fl), opt_concurrency = pf_concurrency fl, opt_max_retry = pf_max_retry fl,
      opt_dry_run = pf_dry_run fl, opt_retry_failed = False, opt_data_chunks = fst l, opt_segment_size = snd l\<rparr>"

text \<open>The checks of the task, the store and the chain, up to \<^verbatim>\<open>BeginPurge\<close>: the options of the run.\<close>

definition purge_checked ::
  "(string \<Rightarrow> string) \<Rightarrow> surroundings \<Rightarrow> (client_options \<Rightarrow> err + 'w s3_api) \<Rightarrow> (string \<Rightarrow> string \<Rightarrow> int \<Rightarrow> err + 'w chain_client) \<Rightarrow>
   purge_flags \<Rightarrow> config \<Rightarrow> subtask \<Rightarrow> (world \<times> 'w, options) act" where
  "purge_checked H e build dial fl cfg s =
     bindA (failIf (st_done s \<noteq> None \<or> st_hold s \<noteq> [])
       (Txt (''task '' @ dec (unat (st_id s)) @ '' is completed or on SAFETY_HOLD: '' @ st_hold s))) (\<lambda>_.
     bindA (on_db (manifest_or_hold H s)) (\<lambda>_.
     bindA (liftE (new_store (en_env e) build (cf_store cfg) (pf_s3_timeout fl))) (\<lambda>(api, bucket).
     bindA (on_store (ensure_versioning_disabled api bucket (pf_allow fl))) (\<lambda>_.
     bindA (liftE (chain_new dial (pf_chain_id fl) (pf_chain_rpc fl) (pf_chain_timeout fl))) (\<lambda>ch.
     bindA (bucket_confirmed ch (pf_common fl) s) (\<lambda>_.
     bindA (on_store (\<lambda>w. case layout ch fl w of (l, w) \<Rightarrow> (Inr l, w))) (\<lambda>l.
     bindA (on_db (sub_counts LockCtx (st_id s))) (\<lambda>n.
     bindA (failIf (c_total n = 0) (Txt ''scan_objects is empty; run scan first'')) (\<lambda>_.
     ret (run_options fl l))))))))))"

definition purge_start ::
  "(string \<Rightarrow> string) \<Rightarrow> surroundings \<Rightarrow> (client_options \<Rightarrow> err + 'w s3_api) \<Rightarrow> (string \<Rightarrow> string \<Rightarrow> int \<Rightarrow> err + 'w chain_client) \<Rightarrow>
   purge_flags \<Rightarrow> config \<Rightarrow> subtask \<Rightarrow> (world \<times> 'w, options) act" where
  "purge_start H e build dial fl cfg s =
     bindA (purge_checked H e build dial fl cfg s) (\<lambda>opt.
     if pf_dry_run fl then ret opt
     else bindA (on_db (begin_purge H LockCtx s)) (\<lambda>_. ret opt))"

section \<open>After the run\<close>

definition purge_finish :: "purge_flags \<Rightarrow> subtask \<Rightarrow> (world, unit) act" where
  "purge_finish fl s =
     (if pf_dry_run fl then ret ()
      else
        bindA (sub_counts LockCtx (st_id s)) (\<lambda>left.
        bindA (failIf (c_pending left + c_failed left > 0)
          (Txt (''task='' @ dec (unat (st_id s)) @ '' still has '' @ dec (c_pending left) @ '' pending and '' @
                dec (c_failed left) @ '' failed objects; rerun purge''))) (\<lambda>_.
        complete_purge LockCtx s)))"

section \<open>The command\<close>

text \<open>
  The run on a task from its start to the end of all goroutines, with the result that \<^verbatim>\<open>Run\<close> returns. What
  \<^verbatim>\<open>ProcessOne\<close> does outside the database is any change of the world outside.
\<close>

inductive runs_task :: "subtask \<Rightarrow> options \<Rightarrow> world \<Rightarrow> err option \<Rightarrow> world \<Rightarrow> bool" where
  over: "run_reach (purge_env (st_id s) opt) around (run_start (purge_env (st_id s) opt) w) r \<Longrightarrow> run_over r \<Longrightarrow>
    runs_task s opt w (run_error (purge_env (st_id s) opt) r) (rs_world r)"

inductive purge_task ::
  "(string \<Rightarrow> string) \<Rightarrow> surroundings \<Rightarrow> (client_options \<Rightarrow> err + 'w s3_api) \<Rightarrow> (string \<Rightarrow> string \<Rightarrow> int \<Rightarrow> err + 'w chain_client) \<Rightarrow>
   purge_flags \<Rightarrow> config \<Rightarrow> subtask \<Rightarrow> world \<times> 'w \<Rightarrow> err + unit \<Rightarrow> world \<times> 'w \<Rightarrow> bool"
  for H e build dial fl cfg s where
  refused: "purge_start H e build dial fl cfg s w = (Inl x, v) \<Longrightarrow> purge_task H e build dial fl cfg s w (Inl x) v"
| failed: "purge_start H e build dial fl cfg s w = (Inr opt, u) \<Longrightarrow> runs_task s opt (fst u) (Some x) v \<Longrightarrow>
    purge_task H e build dial fl cfg s w (Inl x) (v, outside)"
| finished: "purge_start H e build dial fl cfg s w = (Inr opt, u) \<Longrightarrow> runs_task s opt (fst u) None t \<Longrightarrow>
    purge_finish fl s t = (y, v) \<Longrightarrow> purge_task H e build dial fl cfg s w y (v, outside)"

inductive run_purge ::
  "(string \<Rightarrow> string) \<Rightarrow> surroundings \<Rightarrow> (client_options \<Rightarrow> err + 'w s3_api) \<Rightarrow> (string \<Rightarrow> string \<Rightarrow> int \<Rightarrow> err + 'w chain_client) \<Rightarrow>
   (string list \<Rightarrow> err + purge_flags \<times> string list) \<Rightarrow> string list \<Rightarrow> world \<times> 'w \<Rightarrow> err + unit \<Rightarrow> world \<times> 'w \<Rightarrow> bool"
  for H e build dial parse args where
  not_opened: "purge_open e parse args w = (Inl x, v) \<Longrightarrow> run_purge H e build dial parse args w (Inl x) v"
| no_task: "purge_open e parse args w = (Inr (fl, cfg), u) \<Longrightarrow> on_db (resolve_purge LockCtx (pf_task fl)) u = (Inl x, v) \<Longrightarrow>
    run_purge H e build dial parse args w (Inl x) (apfst (close_db e) v)"
| worked: "purge_open e parse args w = (Inr (fl, cfg), u) \<Longrightarrow> on_db (resolve_purge LockCtx (pf_task fl)) u = (Inr s, t) \<Longrightarrow>
    purge_task H e build dial fl cfg s t y v \<Longrightarrow>
    run_purge H e build dial parse args w (fst (with_task_error (st_id s) (\<lambda>w. (y, w)) v)) (apfst (close_db e) v)"

end
