(* ===== verification/PurgeReport.thy ===== *)
theory PurgeReport
  imports PurgeCommand Guarantees CommandScenario
begin

text \<open>
  What the purge command guarantees: it is a part of the life of the progress database; when a real run
  reports no error every member of the task is deleted or deferred and the task is marked so; a dry run
  writes nothing besides what every opening does and, for an error of the whole task, a hold.
\<close>

section \<open>The run of a dry run leaves the tables alone\<close>

fun previewing :: "worker \<Rightarrow> bool" where
  "previewing (Judging c res) = False" | "previewing (Holding c res) = False"
| "previewing (Recording c res) = False" | "previewing (Stopping c e) = False" | "previewing _ = True"

definition previews :: "world run \<Rightarrow> bool" where
  "previews s \<longleftrightarrow> list_all previewing (rs_workers s)"

lemma dry_step:
  assumes "opt_dry_run opt" "previews s" "run_step (purge_env tid opt) ev s = Some t"
  shows "previews t \<and> w_db (rs_world t) = w_db (rs_world s)"
proof (cases "event_worker ev")
  case None
  then show ?thesis
    using assms by (cases ev) (auto simp: run_step_def return_feed_def feed_claim_def stop_def Let_def purge_env_def previews_def
        dest!: claim_same_db split: step_splits)
next
  case (Some i)
  then have i: "i < length (rs_workers s)" and st: "worker_step (purge_env tid opt) i ev (rs_workers s ! i) s = Some t"
    using assms(3) by (auto simp: run_step_def split: if_splits)
  have x: "previewing (rs_workers s ! i)" using assms(2) i by (simp add: previews_def list_all_length)
  have upd: "list_all previewing ((rs_workers s)[i := y])" if "previewing y" for y
    using assms(2) that by (auto simp: previews_def list_all_iff dest!: set_update_subset_insert [THEN subsetD])
  show ?thesis
    using st Some x assms(1)
    by (cases ev) (auto simp: step_defs field_defs previews_def purge_env_def assms(2) [unfolded previews_def] upd split: step_splits)
qed

lemma dry_reach:
  assumes "opt_dry_run opt" "run_reach (purge_env tid opt) around (run_start (purge_env tid opt) w) r"
  shows "previews r \<and> w_db (rs_world r) = w_db w"
  using assms(2)
proof (induction rule: run_reach.induct)
  case here
  then show ?case by (simp add: run_start_def previews_def list_all_iff)
next
  case (move t ev u)
  then show ?case using dry_step [OF assms(1) _ move(2)] by simp
next
  case (world t v)
  then show ?case by (simp add: around_def previews_def)
qed

section \<open>The checks before the run\<close>

lemma pair_purge_open: "transits (idle_pair H) (purge_open e parse args)"
  unfolding purge_open_def by (auto intro!: pair_rules idle_rules split: option.split)

lemma hold_global_fails: "hold_global c s x w \<noteq> (Inr y, v)"
  by (auto simp: hold_global_def act_defs split: prod.split sum.split)

lemma idle_manifest: "transits (idle H) (manifest_or_hold D s)"
  unfolding manifest_or_hold_def by (intro idle_rules)

lemma pair_bucket: "transits (idle_pair H) (bucket_confirmed ch c s)"
  unfolding bucket_confirmed_def by (intro pair_rules idle_rules)

text \<open>What holds of every action of a sequence holds of the checks: any relation that the holds and the outside keep.\<close>

lemma pair_checked: "transits (idle_pair H) (purge_checked D e build dial fl cfg s)"
  unfolding purge_checked_def by (auto intro!: pair_rules idle_rules idle_manifest pair_bucket split: prod.split)

text \<open>When they pass, the tables are as before.\<close>

lemma checked_same:
  assumes "purge_checked D e build dial fl cfg s w = (Inr opt, v)"
  shows "w_db (fst v) = w_db (fst w)" and "opt_dry_run opt = pf_dry_run fl"
proof -
  obtain w1 api bucket w2 ch w3 l w4 n w5 where
      m: "on_db (manifest_or_hold D s) w = (Inr (), w1)"
    and a: "on_store (ensure_versioning_disabled api bucket (pf_allow fl)) w1 = (Inr (), w2)"
    and b: "bucket_confirmed ch (pf_common fl) s w2 = (Inr (), w3)"
    and l: "on_store (\<lambda>w. case layout ch fl w of (l, w) \<Rightarrow> (Inr l, w)) w3 = (Inr l, w4)"
    and n: "on_db (sub_counts LockCtx (st_id s)) w4 = (Inr n, w5)"
    and r: "opt = run_options fl l" "v = w5"
    using assms by (auto simp: purge_checked_def bindA_ok_iff failIf_def liftE_def throw_def ret_def split: if_splits)
  have 1: "w_db (fst w1) = w_db (fst w)" using m manifest_or_hold_ok [of D s "fst w" "fst w1"] by (auto simp: on_db_iff)
  have 2: "fst w2 = fst w1" using a by (simp add: on_store_iff)
  have 3: "fst w3 = fst w2"
    using b by (auto simp: bucket_confirmed_def bindA_ok_iff on_store_iff on_db_iff ret_def hold_global_fails split: if_splits)
  have 4: "fst w4 = fst w3" using l by (simp add: on_store_iff)
  have 5: "w_db (fst w5) = w_db (fst w4)" using on_db_reads [OF _ n] by (simp add: keeps_reads)
  show "w_db (fst v) = w_db (fst w)" using 1 2 3 4 5 r by simp
  show "opt_dry_run opt = pf_dry_run fl" by (simp add: r run_options_def)
qed

section \<open>The life of the database\<close>

lemma runs_task_session:
  assumes "runs_task s opt w x v" "reachable H (Purging (st_id s), w)"
  shows "reachable H (Purging (st_id s), v)"
  using assms(1)
proof cases
  case (over r)
  then show ?thesis using run_session [OF over(3)] assms(2) by (simp add: run_start_def)
qed

lemma finish_session:
  assumes "purge_finish fl s w = (y, v)" "\<not> pf_dry_run fl" "reachable H (Purging (st_id s), w)"
  shows "reachable H (Idle, v)"
proof -
  let ?rest = "\<lambda>left. bindA (failIf (c_pending left + c_failed left > 0)
          (Txt (''task='' @ dec (unat (st_id s)) @ '' still has '' @ dec (c_pending left) @ '' pending and '' @
                dec (c_failed left) @ '' failed objects; rerun purge''))) (\<lambda>_. complete_purge LockCtx s)"
  obtain n u where c: "sub_counts LockCtx (st_id s) w = (n, u)" by (cases "sub_counts LockCtx (st_id s) w")
  have k: "keeps (\<lambda>d. d = w_db w) (sub_counts LockCtx (st_id s))" by (intro keeps_rules)
  have same: "w_db u = w_db w" by (rule keepsE [OF k _ c]) simp
  have u: "reachable H (Purging (st_id s), u)" by (rule reachable.step [OF assms(3) environment [OF same]])
  consider "v = u" | "complete_purge LockCtx s u = (y, v)"
    using assms(1,2) c by (auto simp: purge_finish_def bindA_def failIf_def throw_def ret_def split: sum.splits if_splits)
  then show ?thesis
  proof cases
    case 1
    then show ?thesis using reachable.step [OF u command_ends] by simp
  next
    case 2
    show ?thesis by (rule reachable.step [OF u purge_ended [OF 2 refl]])
  qed
qed

lemma purge_start_session:
  assumes "resolve_purge LockCtx tid w0 = (Inr s, fst w)" "purge_start H e build dial fl cfg s w = (r, v)" "reachable H (Idle, w0)"
  shows "r = Inl x \<Longrightarrow> reachable H (Idle, fst v)"
    and "r = Inr opt \<Longrightarrow> (if pf_dry_run fl then reachable H (Idle, fst v) else reachable H (Purging (st_id s), fst v)) \<and>
      opt_dry_run opt = pf_dry_run fl"
proof -
  obtain q u where c: "purge_checked H e build dial fl cfg s w = (q, u)" by (cases "purge_checked H e build dial fl cfg s w")
  have "reachable H (Idle, fst w)"
    using reachable.step [OF assms(3) environment] resolve_unchanged(1) [OF assms(1)] by simp
  then have u: "reachable H (Idle, fst u)"
    using transitsD [OF pair_checked c, of H] by (simp add: idle_pair_def idle_def)
  have begun: "begin_purge H LockCtx s (fst u) = (z, fst v) \<and> w_db (fst u) = w_db (fst w) \<and> r = (case z of Inl a \<Rightarrow> Inl a | Inr _ \<Rightarrow> q)"
    if "q = Inr opt" "\<not> pf_dry_run fl" "z = fst (begin_purge H LockCtx s (fst u))" for opt z
    using assms(2) c that checked_same(1) [of H e build dial fl cfg s w opt u]
    by (auto simp: purge_start_def bindA_def on_db_def ret_def split: prod.splits sum.splits)
  show "reachable H (Idle, fst v)" if "r = Inl x"
  proof (cases "v = u")
    case False
    then obtain opt where q: "q = Inr opt" "\<not> pf_dry_run fl"
      using assms(2) c by (cases q) (auto simp: purge_start_def bindA_def ret_def split: if_splits)
    from begun [OF q refl] that have b: "begin_purge H LockCtx s (fst u) = (Inl x, fst v)" "w_db (fst u) = w_db (fst w)"
      by (auto simp: q split: sum.splits)
    show ?thesis by (rule reachable.step [OF assms(3) purge_refused [OF assms(1) b(2,1)]])
  qed (use u in simp)
  show "(if pf_dry_run fl then reachable H (Idle, fst v) else reachable H (Purging (st_id s), fst v)) \<and> opt_dry_run opt = pf_dry_run fl"
    if r: "r = Inr opt"
  proof (cases "pf_dry_run fl")
    case True
    then have "q = Inr opt \<and> v = u" using assms(2) c r by (cases q) (auto simp: purge_start_def bindA_def ret_def)
    then show ?thesis using True u checked_same(2) [of H e build dial fl cfg s w opt u] c by simp
  next
    case False
    obtain opt' where q: "q = Inr opt'" using assms(2) c r by (cases q) (auto simp: purge_start_def bindA_def)
    from begun [OF q False refl] r have b: "begin_purge H LockCtx s (fst u) = (Inr (), fst v)" "w_db (fst u) = w_db (fst w)" "opt' = opt"
      by (auto simp: q split: sum.splits)
    have "reachable H (Purging (st_id s), fst v)" by (rule reachable.step [OF assms(3) purge_begun [OF assms(1) b(2,1)]])
    then show ?thesis using False checked_same(2) [of H e build dial fl cfg s w opt u] c q b(3) by simp
  qed
qed

lemma runs_task_dry: "runs_task s opt w x v \<Longrightarrow> opt_dry_run opt \<Longrightarrow> w_db v = w_db w"
  by (erule runs_task.cases) (auto dest: dry_reach)

lemma purge_task_session:
  assumes "purge_task H e build dial fl cfg s w y v" "resolve_purge LockCtx tid w0 = (Inr s, fst w)" "reachable H (Idle, w0)"
  shows "reachable H (Idle, fst v)"
  using assms(1)
proof cases
  case (refused x)
  show ?thesis by (rule purge_start_session(1) [OF assms(2) refused(2) assms(3) refl])
next
  case (failed opt u x v' outside)
  note st = purge_start_session(2) [OF assms(2) failed(3) assms(3) refl]
  show ?thesis
  proof (cases "pf_dry_run fl")
    case True
    then show ?thesis using st runs_task_dry [OF failed(4)] reachable.step [OF _ environment] failed(2) by auto
  next
    case False
    then have "reachable H (Purging (st_id s), v')" using st runs_task_session [OF failed(4)] by auto
    then show ?thesis using reachable.step [OF _ command_ends] failed(2) by auto
  qed
next
  case (finished opt u t v' outside)
  note st = purge_start_session(2) [OF assms(2) finished(2) assms(3) refl]
  show ?thesis
  proof (cases "pf_dry_run fl")
    case True
    then have "v' = t" "w_db t = w_db (fst u)" using finished(4) st runs_task_dry [OF finished(3)] by (auto simp: purge_finish_def ret_def)
    then show ?thesis using True st reachable.step [OF _ environment] finished(1) by auto
  next
    case False
    then have "reachable H (Purging (st_id s), t)" using st runs_task_session [OF finished(3)] by auto
    from finish_session [OF finished(4) False this] show ?thesis using finished(1) by simp
  qed
qed

lemma pair_purge:
  assumes "run_purge H e build dial parse args w y v"
  shows "idle_pair H w v"
  using assms
proof cases
  case (not_opened x)
  then show ?thesis using transitsD [OF pair_purge_open] by blast
next
  case (no_task fl cfg u x v')
  have "idle_pair H w u" "idle_pair H u v'"
    using transitsD [OF pair_purge_open no_task(3)] transitsD [OF pair_db [OF idle_reads(1)] no_task(4)] by auto
  then show ?thesis unfolding no_task(2) using pair_close transpD [OF pair_order(2)] by blast
next
  case (worked fl cfg u s t y' v')
  have res: "resolve_purge LockCtx (pf_task fl) (fst u) = (Inr s, fst t)" using worked(4) by (simp add: on_db_iff)
  have "idle_pair H w u" using transitsD [OF pair_purge_open worked(3)] by auto
  moreover have "idle_pair H u v'"
    using purge_task_session [OF worked(5) res] by (simp add: idle_pair_def idle_def)
  ultimately show ?thesis unfolding worked(2) using pair_close transpD [OF pair_order(2)] by blast
qed

section \<open>What a dry run leaves behind\<close>

text \<open>
  What the opening of a command may have made of the tables: nothing, the connections of earlier commands
  forgotten, and then the finished deletions of stopped commands marked. A hold for a cause that concerns the whole task.
\<close>

definition opened_as :: "db \<Rightarrow> db \<Rightarrow> bool" where
  "opened_as d0 d \<longleftrightarrow> d = d0 \<or> d = forget_owners d0 \<or> (\<exists>now. d = recover_purged now (forget_owners d0))"

definition put_hold :: "u64 \<Rightarrow> string \<Rightarrow> db \<Rightarrow> db" where
  "put_hold k reason = update_tasks (\<lambda>t. st_id t = k \<and> st_done t = None)
     (\<lambda>t. t\<lparr>st_hold := clip_reason reason, st_hold_oid := None\<rparr>)"

lemma put_hold_twice: "put_hold k x (put_hold k y d) = put_hold k x d"
  by (cases d) (simp add: put_hold_def update_tasks_def)

abbreviation fully_opened :: "db \<Rightarrow> db \<Rightarrow> bool" where
  "fully_opened d0 d \<equiv> \<exists>now. d = recover_purged now (forget_owners d0)"

lemma dbh_keeps: "(\<And>I. keeps I m) \<Longrightarrow> (\<And>e d. P d \<Longrightarrow> E e d) \<Longrightarrow> dbh P m (\<lambda>_. P) E"
  by (rule dbh_weaken [where P' = P and Q' = "\<lambda>_. P" and E' = "\<lambda>_. P"]) auto

lemma ensure_schema_opens: "dbh (\<lambda>d. d = d0) (ensure_schema sc c) (\<lambda>_. fully_opened d0) (\<lambda>_. opened_as d0)"
proof -
  have start: "dbh (\<lambda>d. d = d0) m (\<lambda>_ d. d = d0) (\<lambda>_. opened_as d0)" if "\<And>I. keeps I m" for m :: "(world, 'a) act"
    by (rule dbh_keeps [OF that]) (simp add: opened_as_def)
  have tables: "keeps I (forA names (create_table c))" "keeps I (forA cols (add_column sc c))" for I names cols
    unfolding create_table_def add_column_def by (intro keeps_rules keeps_update; simp)+
  show ?thesis
    unfolding ensure_schema_def
    apply (rule dbh_bind [OF start [OF keeps_check_lock]], rule dbh_bind [OF start [OF tables(1)]], rule dbh_bind [OF start [OF tables(2)]])
    apply (rule dbh_bind [OF start [OF keeps_query]], rule dbh_bind [OF start [OF keeps_combinators(3)]])
    apply (rule dbh_bind [where R = "\<lambda>_ d. d = forget_owners d0"], rule dbh_update; simp add: opened_as_def)
    apply (rule dbh_update; auto simp: opened_as_def)
    done
qed

lemma open_bound_opens: "dbh (\<lambda>d. d = d0) (open_bound e c cfg) (\<lambda>_. fully_opened d0) (\<lambda>_. opened_as d0)"
proof -
  have start: "dbh (\<lambda>d. d = d0) m (\<lambda>_ d. d = d0) (\<lambda>_. opened_as d0)" if "\<And>I. keeps I m" for m :: "(world, 'a) act"
    by (rule dbh_keeps [OF that]) (simp add: opened_as_def)
  have later: "dbh (fully_opened d0) m (\<lambda>_. fully_opened d0) (\<lambda>_. opened_as d0)" if "\<And>I. keeps I m" for m :: "(world, 'a) act"
    by (rule dbh_keeps [OF that]) (auto simp: opened_as_def)
  have closing: "dbh P (or_close e m) Q E" if "dbh P m Q E" for P Q E and m :: "(world, unit) act"
  proof (rule dbhI)
    fix w x v assume "P (w_db w)" "or_close e m w = (Inl x, v)"
    then show "E x (w_db v)" using dbhD_err [OF that]
      by (auto simp: or_close_def tryA_def bindA_def modifyA_def throw_def ret_def split: prod.splits sum.splits)
  next
    fix w x v assume "P (w_db w)" "or_close e m w = (Inr x, v)"
    then show "Q x (w_db v)" using dbhD_ok [OF that]
      by (auto simp: or_close_def tryA_def bindA_def modifyA_def throw_def ret_def split: prod.splits sum.splits)
  qed
  have db: "keeps I (open_db e c)" for I unfolding open_db_def by (intro keeps_rules)
  show ?thesis
    unfolding open_bound_def open_locked_def
    apply (rule dbh_bind [OF start [OF keeps_combinators(4)]])
    apply (rule dbh_bind, rule dbh_bind [OF start [OF db]], rule dbh_bind, rule closing, rule start [OF keeps_acquire])
     apply (rule closing, rule ensure_schema_opens)
    apply (rule dbh_bind, rule closing, rule later [OF keeps_check_binding])
    apply (rule closing, rule later [OF keeps_reads(6)])
    done
qed

lemma purge_open_opens:
  assumes "purge_open e parse args w = (r, u)"
  shows "opened_as (w_db (fst w)) (w_db (fst u))" and "r = Inr x \<Longrightarrow> fully_opened (w_db (fst w)) (w_db (fst u))"
proof -
  have pure: "u = w \<or> (\<exists>c cfg q. on_db (open_bound e c cfg) w = (q, u) \<and> (case r of Inl _ \<Rightarrow> \<exists>x. q = Inl x | Inr _ \<Rightarrow> q = Inr ()))"
    using assms unfolding purge_open_def
    by (auto simp: bindA_def parse_flags_def load_def liftE_def failIf_def throw_def ret_def
        split: sum.splits prod.splits option.splits if_splits)
  have ok: "r = Inr x \<Longrightarrow> \<exists>c cfg. on_db (open_bound e c cfg) w = (Inr (), u)"
    using assms unfolding purge_open_def
    by (auto simp: bindA_ok_iff parse_flags_def load_def liftE_def failIf_def throw_def ret_def split: if_splits option.splits)
  show "r = Inr x \<Longrightarrow> fully_opened (w_db (fst w)) (w_db (fst u))"
    using ok dbhD_ok [OF open_bound_opens refl] by (auto simp: on_db_iff)
  from pure show "opened_as (w_db (fst w)) (w_db (fst u))"
  proof (elim disjE exE conjE)
    fix c cfg q assume o: "on_db (open_bound e c cfg) w = (q, u)"
    then show ?thesis
    proof (cases q)
      case (Inl y)
      then show ?thesis using o dbhD_err [OF open_bound_opens refl] by (auto simp: on_db_iff)
    next
      case (Inr y)
      then show ?thesis using o dbhD_ok [OF open_bound_opens refl, of e c cfg "fst w" y "fst u"]
        by (auto simp: on_db_iff opened_as_def)
    qed
  qed (simp add: opened_as_def)
qed

text \<open>The checks may put the task on hold; nothing else.\<close>

definition may_hold :: "u64 \<Rightarrow> world \<times> 'w \<Rightarrow> world \<times> 'w \<Rightarrow> bool" where
  "may_hold k w v \<longleftrightarrow> w_db (fst v) = w_db (fst w) \<or> (\<exists>reason. w_db (fst v) = put_hold k reason (w_db (fst w)))"

lemma may_hold_order: "reflp (may_hold k)" "transp (may_hold k)"
proof -
  show "reflp (may_hold k)" by (simp add: may_hold_def reflpI)
  show "transp (may_hold k)" unfolding may_hold_def by (rule transpI) (metis put_hold_twice)
qed

lemma may_hold_same:
  assumes "\<And>I. keeps I m"
  shows "transits (may_hold k) (on_db m)"
proof (rule transitsI)
  fix w x v assume "on_db m w = (x, v)"
  then have "m (fst w) = (x, fst v)" by (simp add: on_db_iff)
  then have "w_db (fst v) = w_db (fst w)" by (rule keepsE [OF assms refl])
  then show "may_hold k w v" by (simp add: may_hold_def)
qed

lemma hold_holds:
  "dbh (\<lambda>d. d = d0) (hold c k None reason) (\<lambda>_ d. d = d0 \<or> d = put_hold k reason d0) (\<lambda>_ d. d = d0 \<or> d = put_hold k reason d0)"
  unfolding hold_def put_hold_def by (rule dbh_bind, rule dbh_check_lock [where Q = "\<lambda>_ d. d = d0"], simp, simp, rule dbh_update) auto

lemma may_hold_hold: "transits (may_hold (st_id s)) (on_db (hold_global c s cause))"
proof (rule transitsI)
  fix w x v assume "on_db (hold_global c s cause) w = (x, v)"
  then obtain q where "hold c (st_id s) None (err_text cause) (fst w) = (q, fst v)"
    by (auto simp: on_db_iff hold_global_def tryA_def throw_def split: prod.splits sum.splits)
  then have "w_db (fst v) = w_db (fst w) \<or> w_db (fst v) = put_hold (st_id s) (err_text cause) (w_db (fst w))"
    using dbhD_ok [OF hold_holds refl] dbhD_err [OF hold_holds refl] by (cases q) auto
  then show "may_hold (st_id s) w v" by (auto simp: may_hold_def)
qed

lemma on_db_try: "on_db (tryA m h f) = tryA (on_db m) (\<lambda>x. on_db (h x)) (\<lambda>x. on_db (f x))"
  by (rule ext) (auto simp: on_db_def tryA_def split: prod.splits sum.splits)

lemma may_hold_outside: "transits (may_hold k) (on_store m)" "transits (may_hold k) (liftE r)" "transits (may_hold k) (failIf b x)"
  by (auto simp: transits_def on_store_iff liftE_def failIf_def throw_def ret_def may_hold_def)

lemmas may_hold_rules = transits_bind [OF may_hold_order(2)] transits_try [OF may_hold_order(2)]
  transits_ret [OF may_hold_order(1)] transits_throw [OF may_hold_order(1)] may_hold_outside may_hold_hold

lemma may_hold_reads:
  "transits (may_hold k) (on_db (check_manifest D c s))" "transits (may_hold k) (on_db (sub_counts c t))" "transits (may_hold k) (on_db (ret x))"
  by (rule may_hold_same, intro keeps_rules)+

lemma may_hold_manifest: "transits (may_hold (st_id s)) (on_db (manifest_or_hold D s))"
  unfolding manifest_or_hold_def on_db_try by (intro may_hold_rules may_hold_reads)

lemma may_hold_checked: "transits (may_hold (st_id s)) (purge_checked D e build dial fl cfg s)"
proof -
  have "transits (may_hold (st_id s)) (bucket_confirmed ch c s)" for ch :: "'a chain_client" and c
    unfolding bucket_confirmed_def by (intro may_hold_rules transits_if may_hold_reads)
  then show ?thesis
    unfolding purge_checked_def by (auto intro!: may_hold_rules may_hold_reads may_hold_manifest split: prod.split)
qed

lemma dry_task:
  assumes "purge_task D e build dial fl cfg s w y v" "pf_dry_run fl"
  shows "may_hold (st_id s) w v" and "y = Inr () \<Longrightarrow> w_db (fst v) = w_db (fst w)"
proof -
  have "may_hold (st_id s) w v \<and> (y = Inr () \<longrightarrow> w_db (fst v) = w_db (fst w))"
    using assms(1)
  proof cases
    case (refused x)
    then have "purge_checked D e build dial fl cfg s w = (Inl x, v)"
      using assms(2) by (auto simp: purge_start_def bindA_def ret_def split: prod.splits sum.splits)
    then show ?thesis using transitsD [OF may_hold_checked] refused(1) by blast
  next
    case (failed opt u x v' outside)
    then have c: "purge_checked D e build dial fl cfg s w = (Inr opt, u)"
      using assms(2) by (auto simp: purge_start_def bindA_def ret_def split: prod.splits sum.splits)
    then show ?thesis
      using checked_same [OF c] runs_task_dry [OF failed(4)] assms(2) failed(2) by (simp add: may_hold_def)
  next
    case (finished opt u t v' outside)
    then have c: "purge_checked D e build dial fl cfg s w = (Inr opt, u)" and "v' = t"
      using assms(2) by (auto simp: purge_start_def purge_finish_def bindA_def ret_def split: prod.splits sum.splits)
    then show ?thesis
      using checked_same [OF c] runs_task_dry [OF finished(3)] assms(2) finished(1) by (simp add: may_hold_def)
  qed
  then show "may_hold (st_id s) w v" and "y = Inr () \<Longrightarrow> w_db (fst v) = w_db (fst w)" by blast+
qed

section \<open>What a finished purge leaves behind\<close>

lemma purge_finish_done:
  assumes "purge_finish fl s w = (Inr (), v)" "\<not> pf_dry_run fl" "reachable H (Purging (st_id s), w)"
  shows "\<exists>t\<in>set (t_tasks (w_db v)). st_id t = st_id s \<and> st_purged t \<noteq> None \<and> st_done t = None \<and> st_hold t = [] \<and>
    list_all (\<lambda>o'. ob_deferred o' \<or> has_status 1 (progress_of (w_db v) (ob_oid o'))) (objects_of (w_db v) (st_id t))"
proof -
  obtain n u where c: "sub_counts LockCtx (st_id s) w = (Inr n, u)" and fin: "complete_purge LockCtx s u = (Inr (), v)"
    using assms(1,2) by (auto simp: purge_finish_def bindA_ok_iff failIf_def ret_def throw_def split: if_splits)
  have k: "keeps (\<lambda>d. d = w_db w) (sub_counts LockCtx (st_id s))" by (intro keeps_rules)
  have "w_db u = w_db w" by (rule keepsE [OF k _ c]) simp
  moreover have "keys_ok (w_db w)" using reachable_ok [OF assms(3)] db_okD(1) by (simp add: session_ok_def)
  ultimately have "w_db u = w_db u \<and> keys_ok (w_db u)" by simp
  from dbhD_ok [OF complete_purge_sound this fin] obtain t
    where "t \<in> set (t_tasks (w_db v))" "st_id t = st_id s" "st_purged t \<noteq> None" "st_done t = None" "st_hold t = []"
      "list_all (\<lambda>o'. ob_deferred o' \<or> has_status 1 (progress_of (w_db v) (ob_oid o'))) (objects_of (w_db v) (st_id s))"
    by (auto simp: list_ex_iff)
  then show ?thesis by (intro bexI [of _ t]) auto
qed

lemma purge_task_done:
  assumes "purge_task H e build dial fl cfg s w (Inr ()) v" "\<not> pf_dry_run fl"
    and "resolve_purge LockCtx tid w0 = (Inr s, fst w)" "reachable H (Idle, w0)"
  shows "\<exists>t\<in>set (t_tasks (w_db (fst v))). st_id t = st_id s \<and> st_purged t \<noteq> None \<and> st_done t = None \<and> st_hold t = [] \<and>
    list_all (\<lambda>o'. ob_deferred o' \<or> has_status 1 (progress_of (w_db (fst v)) (ob_oid o'))) (objects_of (w_db (fst v)) (st_id t))"
  using assms(1)
proof cases
  case (finished opt u t v' outside)
  have "reachable H (Purging (st_id s), fst u)"
    using purge_start_session(2) [OF assms(3) finished(2) assms(4) refl] assms(2) by simp
  then have "reachable H (Purging (st_id s), t)" by (rule runs_task_session [OF finished(3)])
  from purge_finish_done [OF finished(4) assms(2) this] show ?thesis by (simp add: finished(1))
qed

text \<open>The task that the command works on is the one it names, if it names one.\<close>

lemma resolve_current_named: "dbh (\<lambda>_. True) (resolve_current c k) (\<lambda>s _. k = 0 \<or> st_id s = k) (\<lambda>_ _. True)"
  unfolding resolve_current_def
proof (rule dbh_bind [where R = "\<lambda>_ _. True"])
  show "dbh (\<lambda>_. True) (resolve_subtask c 0) (\<lambda>_ _. True) (\<lambda>_ _. True)" by (simp add: dbhI)
  show "dbh (\<lambda>_. True) (liftE (select_current [s] k)) (\<lambda>s _. k = 0 \<or> st_id s = k) (\<lambda>_ _. True)" for s
    by (rule dbh_liftE) (auto simp: select_current_def split: if_splits)
qed

lemma resolve_named: "resolve_purge c k w = (Inr s, v) \<Longrightarrow> k \<noteq> 0 \<Longrightarrow> st_id s = k"
proof -
  assume run: "resolve_purge c k w = (Inr s, v)" and k: "k \<noteq> 0"
  from run k obtain t u where row: "\<exists>u0. subtask_row c k u0 = (Inr t, u)"
    and s: "s = t \<or> resolve_current c k u = (Inr s, v)"
    by (auto simp: resolve_purge_def bindA_ok_iff throw_def ret_def split: if_splits)
  have "st_id t = k" using row dbhD_ok [OF subtask_row_spec refl] by auto
  then show "st_id s = k" using s k dbhD_ok [OF resolve_current_named TrueI] by blast
qed

lemma resolve_task:
  assumes "on_db (resolve_purge LockCtx k) u = (Inr s, t)"
  shows "w_db (fst t) = w_db (fst u)" "s \<in> set (t_tasks (w_db (fst u)))" "k \<noteq> 0 \<longrightarrow> st_id s = k"
proof -
  have run: "resolve_purge LockCtx k (fst u) = (Inr s, fst t)" using assms by (simp add: on_db_iff)
  then show "w_db (fst t) = w_db (fst u)" "s \<in> set (t_tasks (w_db (fst u)))"
    using dbhD_ok [OF resolve_purge_spec refl] by auto
  show "k \<noteq> 0 \<longrightarrow> st_id s = k" using resolve_named [OF run] by simp
qed

section \<open>Property\<close>

text \<open>C4. What a purge command guarantees on a database in use. With \<^verbatim>\<open>--dry-run\<close> the tables become what the
  opening of every command makes of them, and nothing else when it reports no error: the connections of
  earlier commands are forgotten, and the finished deletions of stopped commands are marked. With an
  error, the opening may have been cut short, or the checks may have put the task on hold; no other row
  of a table changes, so that a dry run deletes nothing, records no result and completes no task. With
  \<^verbatim>\<open>--execute\<close>, when it reports no error, it leaves a task (the one it named, if any) that is marked as
  deleted, is neither done nor held, and each of whose members is deferred or recorded as deleted. So a
  purge that was stopped, refused or left objects behind always reports an error.\<close>

theorem purge_command_sound:
  assumes "run_purge H e build dial parse args w y v" "parse args = Inr (fl, [])" "reachable H (Idle, fst w)"
  shows "if pf_dry_run fl then
      (if y = Inr () then \<exists>now. w_db (fst v) = recover_purged now (forget_owners (w_db (fst w)))
       else \<exists>d. opened_as (w_db (fst w)) d \<and> (w_db (fst v) = d \<or>
         (\<exists>s\<in>set (t_tasks d). \<exists>reason. (pf_task fl \<noteq> 0 \<longrightarrow> st_id s = pf_task fl) \<and> w_db (fst v) = put_hold (st_id s) reason d)))
    else y = Inr () \<longrightarrow> (\<exists>t\<in>set (t_tasks (w_db (fst v))). (pf_task fl \<noteq> 0 \<longrightarrow> st_id t = pf_task fl) \<and>
      st_purged t \<noteq> None \<and> st_done t = None \<and> st_hold t = [] \<and>
      list_all (\<lambda>o'. ob_deferred o' \<or> has_status 1 (progress_of (w_db (fst v)) (ob_oid o'))) (objects_of (w_db (fst v)) (st_id t)))"
proof -
  have flags: "fl' = fl" if "purge_open e parse args w = (Inr (fl', cfg), u)" for fl' cfg u
    using that assms(2) by (auto simp: purge_open_def parse_flags_def bindA_ok_iff liftE_def failIf_def ret_def throw_def split: if_splits)
  have closed: "w_db (fst (apfst (close_db e) u)) = w_db (fst u)" for u :: "world \<times> 'a" by (cases u) simp
  have as: "opened_as d0 d" if "fully_opened d0 d" for d0 d using that by (auto simp: opened_as_def)
  show ?thesis
    using assms(1)
  proof cases
    case (not_opened x)
    then show ?thesis using purge_open_opens(1) [OF not_opened(2)] by auto
  next
    case (no_task fl' cfg u x v')
    have "w_db (fst v') = w_db (fst u)" using no_task(4) resolve_unchanged(1) by (auto simp: on_db_iff)
    then show ?thesis using no_task(1,2) as [OF purge_open_opens(2) [OF no_task(3) refl]] by (auto simp: closed)
  next
    case (worked fl' cfg u s t y' v')
    note fl = flags [OF worked(3)]
    note task = resolve_task [OF worked(4) [unfolded fl]]
    have y: "y = Inr () \<longleftrightarrow> y' = Inr ()"
      using worked(1) by (cases y') (auto simp: with_task_error_def tryA_def throw_def ret_def)
    show ?thesis
    proof (cases "pf_dry_run fl")
      case True
      have o: "fully_opened (w_db (fst w)) (w_db (fst t))" unfolding task(1) by (rule purge_open_opens(2) [OF worked(3) refl])
      from dry_task [OF worked(5)] True fl
      have d: "may_hold (st_id s) t v'" "y' = Inr () \<Longrightarrow> w_db (fst v') = w_db (fst t)" by auto
      have "\<exists>d. opened_as (w_db (fst w)) d \<and> (w_db (fst v') = d \<or>
         (\<exists>s\<in>set (t_tasks d). \<exists>reason. (pf_task fl \<noteq> 0 \<longrightarrow> st_id s = pf_task fl) \<and> w_db (fst v') = put_hold (st_id s) reason d))"
        using d(1) task as [OF o] by (intro exI [of _ "w_db (fst t)"]) (auto simp: may_hold_def)
      then show ?thesis using True y d(2) o worked(2) by (simp add: closed)
    next
      case False
      have res: "resolve_purge LockCtx (pf_task fl) (fst u) = (Inr s, fst t)" using worked(4) fl by (simp add: on_db_iff)
      have r: "reachable H (Idle, fst u)"
        using transitsD [OF pair_purge_open worked(3)] assms(3) by (simp add: idle_pair_def idle_def)
      have ok: "purge_task H e build dial fl cfg s t (Inr ()) v'" if "y = Inr ()"
        using that worked(5) fl y by simp
      show ?thesis
        unfolding worked(2) closed if_not_P [OF False]
      proof
        assume "y = Inr ()"
        from purge_task_done [OF ok [OF this] False res r] task(3)
        show "\<exists>t\<in>set (t_tasks (w_db (fst v'))). (pf_task fl \<noteq> 0 \<longrightarrow> st_id t = pf_task fl) \<and>
          st_purged t \<noteq> None \<and> st_done t = None \<and> st_hold t = [] \<and>
          list_all (\<lambda>o'. ob_deferred o' \<or> has_status 1 (progress_of (w_db (fst v')) (ob_oid o'))) (objects_of (w_db (fst v')) (st_id t))"
          by (elim bexE conjE) (intro bexI conjI; simp)
      qed
    qed
  qed
qed

text \<open>The deletion of the scenario.\<close>

definition ex_dial :: "string \<Rightarrow> string \<Rightarrow> int \<Rightarrow> err + bucket chain_client" where
  "ex_dial url chain_id timeout = Inr \<lparr>cc_node = \<lparr>cn_head_object = \<lambda>k w. (Some (None, None), w),
       cn_params = \<lambda>w. (Some ((4, 16777216), None), w), cn_head_bucket = \<lambda>k w. (Some (Some 42268, None), w)\<rparr>,
     cc_timing = \<lparr>tm_err = \<lambda>_. None, tm_late = \<lambda>_. False, tm_limit = ''35s'', tm_pause = \<lambda>_. ret ()\<rparr>, cc_net = \<lambda>_. False\<rparr>"

definition ex_purge_flags :: purge_flags where
  "ex_purge_flags = \<lparr>pf_common = ex_common, pf_task = 0, pf_execute = True, pf_chain_rpc = ''rpc'', pf_chain_id = ''c1'',
     pf_dry_run = False, pf_concurrency = 1, pf_qps_positive = True, pf_max_retry = 2, pf_allow = False, pf_data_chunks = 4,
     pf_segment_size = 0, pf_chain_timeout = 35, pf_s3_timeout = 120\<rparr>"

definition ex_empty :: bucket where
  "ex_empty = \<lparr>bk_keys = [], bk_script = []\<rparr>"

lemma ex_purge_fields:
  "pf_common ex_purge_flags = ex_common" "pf_task ex_purge_flags = 0" "pf_chain_rpc ex_purge_flags = ''rpc''"
  "pf_chain_id ex_purge_flags = ''c1''" "\<not> pf_dry_run ex_purge_flags" "pf_concurrency ex_purge_flags = 1" "pf_max_retry ex_purge_flags = 2"
  "\<not> pf_allow ex_purge_flags" "pf_data_chunks ex_purge_flags = 4" "pf_segment_size ex_purge_flags = 0"
  "pf_chain_timeout ex_purge_flags = 35" "pf_s3_timeout ex_purge_flags = 120"
  by (simp_all add: ex_purge_flags_def)

lemma ex_purge_open: "purge_open ex_surroundings (\<lambda>_. Inr (ex_purge_flags, [])) [] (ex_fresh ex_ready, ex_empty) =
    (Inr (ex_purge_flags, ex_config ''https://m.s3.eu.amazonaws.com''), (ex_world ex_ready, ex_empty))"
proof -
  have "settled ex_ready" by (simp add: settled_def recoverable_def ex_defs)
  note locked = ex_open_locked [OF this]
  have m: "t_meta (w_db (ex_world ex_ready)) = Some (ex_meta ScanComplete (Some 1) (Some 1) (Some 100))" by (simp add: ex_defs)
  have 1: "check_binding LockCtx ex_binding (ex_world ex_ready) = (Inr (), ex_world ex_ready)"
    "require_complete_scan LockCtx (ex_world ex_ready) = (Inr (), ex_world ex_ready)"
    using m by (simp_all add: check_binding_def require_complete_scan_def run_defs ex_meta_def ex_world_def)
  have 2: "open_bound ex_surroundings ex_common (ex_config ''https://m.s3.eu.amazonaws.com'') (ex_fresh ex_ready) = (Inr (), ex_world ex_ready)"
    by (simp add: open_bound_def bindA_def liftE_def ex_make_binding locked or_close_def tryA_def 1 ret_def)
  have "check_purge_flags ex_purge_flags = None" "cf_chain_id (ex_config t) = ''c1''" for t
    by (simp_all add: check_purge_flags_def ex_purge_flags_def ex_config_def)
  then show ?thesis
    by (simp add: purge_open_def bindA_def parse_flags_def liftE_def failIf_def ret_def ex_purge_fields ex_load on_db_def 2)
qed

lemma ex_purge_start: "purge_start ex_hash ex_surroundings (\<lambda>_. Inr bucket_api) ex_dial ex_purge_flags (ex_config ''https://m.s3.eu.amazonaws.com'')
    ex_task (ex_world ex_ready, ex_empty) = (Inr ex_options, (ex_start, ex_empty))"
proof -
  have 1: "manifest_or_hold ex_hash ex_task (ex_world ex_ready) = (Inr (), ex_world ex_ready)"
    by (simp add: manifest_or_hold_def check_manifest_def manifest_def member_rows_def objects_of_def scan_of_def digest_rows_def
        List.map_filter_def run_defs ex_defs)
  have 2: "new_store (en_env ex_surroundings) (\<lambda>_. Inr bucket_api) (cf_store (ex_config ''https://m.s3.eu.amazonaws.com'')) 120 = Inr (bucket_api, ''m'')"
    by (simp add: new_store_def ex_config_def ex_virtual)
  have 3: "ensure_versioning_disabled bucket_api ''m'' False w = (Inr (), w)" for w
    by (simp add: ensure_versioning_disabled_def bucket_api_def act_defs)
  have c: "chain_new ex_dial ''c1'' ''rpc'' 35 = ex_dial [] [] 0"
    by (simp add: chain_new_def ex_dial_def)
  obtain ch where ch: "ex_dial [] [] 0 = Inr ch" by (simp add: ex_dial_def)
  have asks: "head_bucket_id ch name w = ((42268, None), w)" "redundancy_params ch w = (((4, 16777216), None), w)" for name w
    using ch by (auto simp: ex_dial_def head_bucket_id_def redundancy_params_def chain_call_def retry_if_def
        retry_from.simps [of _ _ _ _ _ 1] deadline_call_def mark_timeout_def answered_def)
  have 4: "bucket_confirmed ch ex_common ex_task w = (Inr (), w)" for w
    by (simp add: bucket_confirmed_def on_store_def asked_def asks bindA_def ret_def ex_common_def)
  have 5: "layout ch ex_purge_flags w = ((4, 16777216), w)" for w
    by (simp add: layout_def ex_purge_fields asks)
  have 6: "\<exists>n. sub_counts LockCtx (st_id ex_task) (ex_world ex_ready) = (Inr n, ex_world ex_ready) \<and> c_total n \<noteq> 0"
    by (simp add: sub_counts_def read_counts_def objects_of_def progress_of_def has_status_def run_defs ex_defs)
  then obtain n where n: "sub_counts LockCtx (st_id ex_task) (ex_world ex_ready) = (Inr n, ex_world ex_ready)" "c_total n \<noteq> 0" by blast
  have 7: "begin_purge ex_hash LockCtx ex_task (ex_world ex_ready) = (Inr (), ex_start)"
    unfolding ex_start_def by (rule ex_begin_purge)
  have 8: "st_done ex_task = None" "st_hold ex_task = []" by (simp_all add: ex_defs)
  have 9: "run_options ex_purge_flags (4, 16777216) = ex_options"
    by (simp add: run_options_def ex_purge_fields ex_common_def ex_options_def)
  show ?thesis
    by (simp add: purge_start_def purge_checked_def bindA_def failIf_def liftE_def ret_def on_db_def on_store_def ex_purge_fields
        1 2 3 c ch 4 5 n 7 8 9)
qed

lemma ex_run_purge: "run_purge ex_hash ex_surroundings (\<lambda>_. Inr bucket_api) ex_dial (\<lambda>_. Inr (ex_purge_flags, [])) []
    (ex_fresh ex_ready, ex_empty) (Inr ()) (ex_closed (ex_ready\<lparr>t_tasks := [ex_purged], t_progress := [ex_result]\<rparr>), ex_empty)"
proof -
  let ?d = "ex_ready\<lparr>t_tasks := [ex_purged], t_progress := [ex_result]\<rparr>"
  have id: "st_id ex_task = 1" by (simp add: ex_defs)
  have runs: "runs_task ex_task ex_options ex_start None ex_after"
  proof -
    have w: "rs_world ex_over = ex_after" by (simp add: ex_over_def)
    show ?thesis
      by (rule runs_task.over [of ex_task ex_options ex_start ex_over, unfolded id, OF ex_reach(1) ex_run_ends(1), unfolded ex_run_ends(3) w])
  qed
  have "case sub_counts LockCtx 1 ex_after of (Inl e, v) \<Rightarrow> False | (Inr n, v) \<Rightarrow> v = ex_after \<and> c_pending n + c_failed n = 0"
    by (simp add: sub_counts_def read_counts_def objects_of_def progress_of_def has_status_def coalesce_def ex_after_def run_defs ex_defs)
  then obtain n where n: "sub_counts LockCtx 1 ex_after = (Inr n, ex_after)" "c_pending n + c_failed n = 0"
    by (cases "sub_counts LockCtx 1 ex_after") (auto split: sum.splits)
  have "complete_purge LockCtx ex_task ex_after = (Inr (), ex_world ?d)"
    unfolding ex_after_def by (rule ex_complete_purge)
  then have fin: "purge_finish ex_purge_flags ex_task ex_after = (Inr (), ex_world ?d)"
    using n by (simp add: purge_finish_def id ex_purge_fields bindA_def failIf_def ret_def)
  have task: "purge_task ex_hash ex_surroundings (\<lambda>_. Inr bucket_api) ex_dial ex_purge_flags (ex_config ''https://m.s3.eu.amazonaws.com'')
      ex_task (ex_world ex_ready, ex_empty) (Inr ()) (ex_world ?d, ex_empty)"
    by (rule finished [OF ex_purge_start]) (use runs fin in simp_all)
  have res: "on_db (resolve_purge LockCtx (pf_task ex_purge_flags)) (ex_world ex_ready, ex_empty) = (Inr ex_task, (ex_world ex_ready, ex_empty))"
    by (simp add: on_db_def ex_resolve ex_purge_fields)
  from worked [OF ex_purge_open res task] show ?thesis
    by (simp add: with_task_error_def tryA_def ret_def ex_close)
qed

lemma ex_fresh_reachable: "reachable ex_hash (Idle, ex_fresh ex_ready)"
  by (rule step [OF ex_ready_reachable environment]) (simp add: ex_fresh_def)

theorem purge_command_sound_witness:
  "\<exists>t\<in>set (t_tasks (ex_ready\<lparr>t_tasks := [ex_purged], t_progress := [ex_result]\<rparr>)). st_purged t \<noteq> None"
proof -
  have start: "reachable ex_hash (Idle, fst (ex_fresh ex_ready, ex_empty))" using ex_fresh_reachable by simp
  have d: "w_db (fst (ex_closed d, ex_empty)) = d" for d by (simp add: ex_closed_def ex_world_def)
  note result = purge_command_sound [OF ex_run_purge refl start, unfolded if_not_P [OF ex_purge_fields(5)] d]
  show ?thesis using mp [OF result refl] by blast
qed

end
