(* ===== verification/CommandResults.thy ===== *)
theory CommandResults
  imports TaskCommand ScanResults VerifyReport PurgeReport
begin

text \<open>
  The commands of the program against the life of the progress database: every invocation of a command
  is a part of that life, so that what holds of the reachable states holds after any commands. And the
  guard that the commands which look into the bucket share: no versions are kept there.
\<close>

section \<open>The status command\<close>

lemma status_command_same: "status_command e parse args w = (x, v) \<Longrightarrow> w_db v = w_db w"
proof -
  assume run: "status_command e parse args w = (x, v)"
  have status: "keeps (\<lambda>d. d = w_db w) (run_status c b limit tid)" for c b limit tid
    by (rule dbh_weaken [OF run_status_accounted [of "w_db w"]]) auto
  have closing0: "w_db t = w_db w" if "keeps (\<lambda>d. d = w_db w) m" "w_db u = w_db w" "deferring (close_db e) m u = (y, t)"
    for m :: "(world, status) act" and u y t
  proof -
    note given = that
    obtain s where m: "m u = (y, s)" and t: "t = close_db e s" using given(3) by (auto simp: deferring_def split: prod.splits)
    have "w_db s = w_db w" by (rule keepsE [OF given(1) _ m]) (rule given(2))
    then show ?thesis by (simp add: t)
  qed
  have closing: "keeps (\<lambda>d. d = w_db w) (deferring (close_db e) m)" if "keeps (\<lambda>d. d = w_db w) m" for m :: "(world, status) act"
  proof (rule dbhI)
    fix u y t assume "w_db u = w_db w" "deferring (close_db e) m u = (Inr y, t)"
    then show "w_db t = w_db w" by (rule closing0 [OF that])
  next
    fix u y t assume "w_db u = w_db w" "deferring (close_db e) m u = (Inl y, t)"
    then show "w_db t = w_db w" by (rule closing0 [OF that])
  qed
  have flags: "keeps I (parse_flags parse args)" "keeps I (open_db e c)" "keeps I (load e c)" for I c
    unfolding parse_flags_def open_db_def load_def by (intro keeps_rules)+
  have "keeps (\<lambda>d. d = w_db w) (status_command e parse args)"
    unfolding status_command_def
    apply (rule keeps_bind [OF flags(1)], rule keeps_bind [OF keeps_combinators(3)], rule keeps_bind [OF flags(2)], rule closing)
    apply (rule keeps_bind)
     apply (intro keeps_rules flags)
    apply (rule status)
    done
  from keepsE [OF this refl run] show ?thesis .
qed

section \<open>A bucket that keeps versions\<close>

text \<open>The store of the configuration answers the versioning query in a way that the command refuses: by an
  error, or by a status without the flag that allows one. The query leaves the store in the world \<open>u\<close>.\<close>

definition versions_kept ::
  "surroundings \<Rightarrow> (client_options \<Rightarrow> err + 's s3_api) \<Rightarrow> config \<Rightarrow> int \<Rightarrow> bool \<Rightarrow> 's \<Rightarrow> 's \<Rightarrow> bool" where
  "versions_kept e build cfg timeout allow w u \<longleftrightarrow>
     (case new_store (en_env e) build (cf_store cfg) timeout of
        Inl _ \<Rightarrow> False
      | Inr (api, b) \<Rightarrow> refuses_status allow (fst (api_versioning api b w)) \<and> snd (api_versioning api b w) = u)"

lemma versions_kept_stops:
  assumes "versions_kept e build cfg timeout allow w u"
  obtains api b x where "new_store (en_env e) build (cf_store cfg) timeout = Inr (api, b)"
    "ensure_versioning_disabled api b allow w = (Inl x, u)"
  using assms versioning_refused [OF prod.collapse [symmetric]] by (fastforce simp: versions_kept_def split: sum.splits)

lemma purge_checked_refused:
  assumes "versions_kept e build cfg (pf_s3_timeout fl) (pf_allow fl) (snd w) u"
    and run: "purge_checked D e build dial fl cfg s w = (r, v)"
  shows "\<exists>x. r = Inl x" "snd v = snd w \<or> snd v = u" "may_hold (st_id s) w v"
proof -
  obtain api b x where st: "new_store (en_env e) build (cf_store cfg) (pf_s3_timeout fl) = Inr (api, b)"
      "ensure_versioning_disabled api b (pf_allow fl) (snd w) = (Inl x, u)"
    by (rule versions_kept_stops [OF assms(1)])
  obtain q t where m: "on_db (manifest_or_hold D s) w = (q, (t, snd w))"
    by (cases "on_db (manifest_or_hold D s) w") (auto simp: on_db_iff)
  have "\<exists>x. r = Inl x \<and> (snd v = snd w \<or> snd v = u)"
    using run m st by (cases q) (auto simp: purge_checked_def bindA_def failIf_def throw_def ret_def liftE_def on_store_def split: if_splits)
  then show "\<exists>x. r = Inl x" "snd v = snd w \<or> snd v = u" by blast+
  show "may_hold (st_id s) w v" by (rule transitsD [OF may_hold_checked run])
qed

lemma verify_prepare_refused:
  assumes "versions_kept e build cfg (vl_timeout fl) (vl_allow fl) (fst (snd w)) u"
    and run: "verify_prepare D e build fl cfg s w = (r, v)"
  shows "\<exists>x. r = Inl x" "fst (snd v) = fst (snd w) \<or> fst (snd v) = u" "snd (snd v) = snd (snd w)" "may_hold (st_id s) w v"
proof -
  obtain api b x where st: "new_store (en_env e) build (cf_store cfg) (vl_timeout fl) = Inr (api, b)"
      "ensure_versioning_disabled api b (vl_allow fl) (fst (snd w)) = (Inl x, u)"
    by (rule versions_kept_stops [OF assms(1)])
  obtain q t where m: "on_db (manifest_or_hold D s) w = (q, (t, snd w))"
    by (cases "on_db (manifest_or_hold D s) w") (auto simp: on_db_iff)
  have "may_hold (st_id s) w (t, snd w)" by (rule transitsD [OF may_hold_manifest m])
  then have "(\<exists>x. r = Inl x) \<and> (fst (snd v) = fst (snd w) \<or> fst (snd v) = u) \<and> snd (snd v) = snd (snd w) \<and> may_hold (st_id s) w v"
    using run m st by (cases q) (auto simp: verify_prepare_def bindA_def liftE_def on_store_def on_db_def may_hold_def split: prod.splits)
  then show "\<exists>x. r = Inl x" "fst (snd v) = fst (snd w) \<or> fst (snd v) = u" "snd (snd v) = snd (snd w)" "may_hold (st_id s) w v"
    by blast+
qed

section \<open>Properties\<close>

text \<open>C30. A bucket is only worked on when its versioning status is known and empty, or the operator accepts
  one by flag. Otherwise a purge (a dry run too) and a verification of any task fail; the versioning query
  is the only request they send, to the store or to the chain, so that nothing is listed or deleted;
  and they change nothing on the disk and no table, except that the check of the task's list, which
  comes first, may have put the task on hold.\<close>

theorem versioning_guard:
  assumes "versions_kept e build cfg timeout allow w u"
  shows "(\<forall>fl y v. pf_s3_timeout fl = timeout \<longrightarrow> pf_allow fl = allow \<longrightarrow> purge_task H e build dial fl cfg s (d, w) y v \<longrightarrow>
      (\<exists>x. y = Inl x) \<and> (snd v = w \<or> snd v = u) \<and>
      (w_db (fst v) = w_db d \<or> (\<exists>reason. w_db (fst v) = put_hold (st_id s) reason (w_db d)))) \<and>
    (\<forall>fl y v. vl_timeout fl = timeout \<longrightarrow> vl_allow fl = allow \<longrightarrow> verify_task H e build lim pause fl cfg s (d, (w, disk)) = Some (y, v) \<longrightarrow>
      (\<exists>x. y = Inl x) \<and> (snd v = (w, disk) \<or> snd v = (u, disk)) \<and>
      (w_db (fst v) = w_db d \<or> (\<exists>reason. w_db (fst v) = put_hold (st_id s) reason (w_db d))))"
proof (intro conjI [of "\<forall>fl. _ fl"] allI impI)
  fix fl y v assume fl: "pf_s3_timeout fl = timeout" "pf_allow fl = allow" and run: "purge_task H e build dial fl cfg s (d, w) y v"
  obtain r t where c: "purge_checked H e build dial fl cfg s (d, w) = (r, t)" by (cases "purge_checked H e build dial fl cfg s (d, w)")
  have "versions_kept e build cfg (pf_s3_timeout fl) (pf_allow fl) (snd (d, w)) u" using assms fl by simp
  note stop = purge_checked_refused [OF this c]
  have "\<exists>x. y = Inl x \<and> v = t"
    using run stop(1) c by cases (auto simp: purge_start_def bindA_def)
  then show "(\<exists>x. y = Inl x) \<and> (snd v = w \<or> snd v = u) \<and>
      (w_db (fst v) = w_db d \<or> (\<exists>reason. w_db (fst v) = put_hold (st_id s) reason (w_db d)))"
    using stop(2,3) by (auto simp: may_hold_def)
next
  fix fl y v assume fl: "vl_timeout fl = timeout" "vl_allow fl = allow"
    and run: "verify_task H e build lim pause fl cfg s (d, (w, disk)) = Some (y, v)"
  obtain r t where c: "verify_prepare H e build fl cfg s (d, (w, disk)) = (r, t)" by (cases "verify_prepare H e build fl cfg s (d, (w, disk))")
  have "versions_kept e build cfg (vl_timeout fl) (vl_allow fl) (fst (snd (d, (w, disk)))) u" using assms fl by simp
  note stop = verify_prepare_refused [OF this c]
  have "\<exists>x. y = Inl x \<and> v = t" using run stop(1) c by (auto simp: verify_task_def)
  then show "(\<exists>x. y = Inl x) \<and> (snd v = (w, disk) \<or> snd v = (u, disk)) \<and>
      (w_db (fst v) = w_db d \<or> (\<exists>reason. w_db (fst v) = put_hold (st_id s) reason (w_db d)))"
    using stop(2-4) by (cases v) (auto simp: may_hold_def)
qed

text \<open>The bucket of the scenario with versioning enabled: the deletion that would have started is refused.\<close>

definition ex_versioned :: "client_options \<Rightarrow> err + bucket s3_api" where
  "ex_versioned _ = Inr (bucket_api\<lparr>api_versioning := \<lambda>_ w. (Inr ''Enabled'', w)\<rparr>)"

lemma ex_versions_kept: "versions_kept ex_surroundings ex_versioned (ex_config ''https://m.s3.eu.amazonaws.com'') 120 False ex_empty ex_empty"
  by (simp add: versions_kept_def new_store_def ex_config_def ex_virtual ex_versioned_def refuses_status_def)

theorem versioning_guard_witness:
  "\<exists>x v. purge_task ex_hash ex_surroundings ex_versioned ex_dial ex_purge_flags (ex_config ''https://m.s3.eu.amazonaws.com'')
      ex_task (ex_world ex_ready, ex_empty) (Inl x) v \<and> snd v = ex_empty"
proof -
  let ?cfg = "ex_config ''https://m.s3.eu.amazonaws.com''"
  obtain r v where c: "purge_checked ex_hash ex_surroundings ex_versioned ex_dial ex_purge_flags ?cfg ex_task (ex_world ex_ready, ex_empty) = (r, v)"
    by (cases "purge_checked ex_hash ex_surroundings ex_versioned ex_dial ex_purge_flags ?cfg ex_task (ex_world ex_ready, ex_empty)")
  have "versions_kept ex_surroundings ex_versioned ?cfg (pf_s3_timeout ex_purge_flags) (pf_allow ex_purge_flags)
      (snd (ex_world ex_ready, ex_empty)) ex_empty"
    using ex_versions_kept by (simp add: ex_purge_fields)
  from purge_checked_refused(1) [OF this c] obtain x where x: "r = Inl x" by blast
  have "purge_task ex_hash ex_surroundings ex_versioned ex_dial ex_purge_flags ?cfg ex_task (ex_world ex_ready, ex_empty) (Inl x) v"
    by (rule purge_task.refused) (use c x in \<open>simp add: purge_start_def bindA_def\<close>)
  moreover from versioning_guard [OF ex_versions_kept, THEN conjunct1, rule_format, OF _ _ this] ex_purge_fields(8,12)
  have "snd v = ex_empty" by simp
  ultimately show ?thesis by blast
qed

text \<open>C6. Each command, with any flags, from its opening to its close, on any path and with any result,
  is a sequence of steps of the life of the progress database: from a state that commands can reach, a
  run of \<^verbatim>\<open>task\<close>, \<^verbatim>\<open>scan\<close>, \<^verbatim>\<open>verify\<close>, \<^verbatim>\<open>purge\<close> or \<^verbatim>\<open>status\<close> ends in such a state. The scan and the verification
  return on every input. (The limiter and the timer of the verification do not touch the tables.)\<close>

theorem commands_refine_sessions:
  assumes "reachable H (Idle, w)"
  shows "(\<forall>x v. run_task H e parse_task args w = (x, v) \<longrightarrow> reachable H (Idle, v)) \<and>
    (\<exists>x v i'. run_scan e connect parse_scan args (w, i) = Some (x, (v, i')) \<and> reachable H (Idle, v)) \<and>
    (transits same_db lim \<and> (\<forall>k. transits same_db (pause k)) \<longrightarrow>
      (\<exists>x v o'. run_verify H e build lim pause parse_verify args (w, out) = Some (x, (v, o')) \<and> reachable H (Idle, v))) \<and>
    (\<forall>x v b. run_purge H e build' dial parse_purge args (w, outside) x (v, b) \<longrightarrow> reachable H (Idle, v)) \<and>
    (\<forall>x v. status_command e parse_status args w = (x, v) \<longrightarrow> reachable H (Idle, v))"
proof (intro conjI allI impI)
  show "reachable H (Idle, v)" if "run_task H e parse_task args w = (x, v)" for x v
    using transitsD [OF idle_task that] assms by (simp add: idle_def)
  obtain x u where s: "run_scan e connect parse_scan args (w, i) = Some (x, u)"
    using scan_returns by (metis surj_pair)
  show "\<exists>x v i'. run_scan e connect parse_scan args (w, i) = Some (x, (v, i')) \<and> reachable H (Idle, v)"
    using pair_scan [OF s, of H] assms s by (cases u) (auto simp: idle_pair_def idle_def)
  show "\<exists>x v o'. run_verify H e build lim pause parse_verify args (w, out) = Some (x, (v, o')) \<and> reachable H (Idle, v)"
    if calm: "transits same_db lim \<and> (\<forall>k. transits same_db (pause k))"
  proof -
    have c: "transits same_db lim" "\<And>k. transits same_db (pause k)" using calm by auto
    obtain y where r: "run_verify H e build lim pause parse_verify args (w, out) = Some y"
      using verify_returns [OF c(1), of pause] c(2) by blast
    obtain x v o' where y: "y = (x, (v, o'))" by (cases y) auto
    have "idle_pair H (w, out) (v, o')" by (rule pair_verify [OF c(1) _ r [unfolded y]]) (rule c(2))
    then show ?thesis using assms r y by (auto simp: idle_pair_def idle_def)
  qed
  show "reachable H (Idle, v)" if "run_purge H e build' dial parse_purge args (w, outside) x (v, b)" for x v b
    using pair_purge [OF that] assms by (simp add: idle_pair_def idle_def)
  show "reachable H (Idle, v)" if "status_command e parse_status args w = (x, v)" for x v
    using reachable.step [OF assms environment [OF status_command_same [OF that]]] .
qed

text \<open>The scan and the purge of the scenario.\<close>

theorem commands_refine_sessions_witness:
  "reachable ex_hash (Idle, ex_closed ex_list) \<and>
   reachable ex_hash (Idle, ex_closed (ex_ready\<lparr>t_tasks := [ex_purged], t_progress := [ex_result]\<rparr>))"
proof
  have 0: "reachable ex_hash (Idle, ex_fresh empty_db)" by (rule new_database) (simp add: ex_fresh_def ex_world_def)
  have "\<exists>x v i'. run_scan ex_surroundings (\<lambda>_. (None, None)) (\<lambda>_. Inr (ex_scan_flags, [])) [] (ex_fresh empty_db, ex_index) =
      Some (x, (v, i')) \<and> reachable ex_hash (Idle, v)"
    by (rule commands_refine_sessions [OF 0, THEN conjunct2, THEN conjunct1])
  then show "reachable ex_hash (Idle, ex_closed ex_list)" by (simp add: ex_run_scan)
  show "reachable ex_hash (Idle, ex_closed (ex_ready\<lparr>t_tasks := [ex_purged], t_progress := [ex_result]\<rparr>))"
    by (rule commands_refine_sessions [OF ex_fresh_reachable, THEN conjunct2, THEN conjunct2, THEN conjunct2, THEN conjunct1,
          rule_format, OF ex_run_purge])
qed

end
