(* ===== verification/Spec2Isabelle.thy ===== *)
theory Spec2Isabelle
  imports Guarantees PurgeRunResults VerifyResults Lock ChainClient SpConfig CommandResults
begin

text \<open>
  limewire-purge: removing one bucket's pieces from a storage provider's object storage

  The program removes the pieces of the objects of one Greenfield bucket from the object storage of a storage provider
  (SP), task by task, and verifies each task independently. It keeps its state in a MySQL database of its own, the
  progress database. Everything it deletes must be a piece of an object that the scan listed, that the chain confirms,
  and that belongs to the task in hand; everything it reports as done must have been looked at. This development
  models the program under \<^verbatim>\<open>src/\<close> and proves that.

  \<^bold>\<open>Parts and how they interact.\<close>
  \<^item> \<^verbatim>\<open>cmd/limewire-purge\<close> has the commands. \<^verbatim>\<open>scan\<close> copies the
    live objects of the bucket from the SP's index (\<^verbatim>\<open>internal/bsdb\<close>) into the progress
    database and seals the list. \<^verbatim>\<open>task create\<close> freezes a capacity-bounded set of listed
    objects as a task; \<^verbatim>\<open>task defer\<close> and \<^verbatim>\<open>task resume\<close> are decisions
    of the operator. \<^verbatim>\<open>purge\<close> deletes the pieces of the members of one task
    (\<^verbatim>\<open>internal/purge\<close>) through the object store (\<^verbatim>\<open>internal/s3store\<close>)
    after asking the chain about each object (\<^verbatim>\<open>internal/chain\<close>).
    \<^verbatim>\<open>verify\<close> looks at each member again (\<^verbatim>\<open>internal/verify\<close>) and
    marks the task done. \<^verbatim>\<open>status\<close> prints the state of all.
  \<^item> \<^verbatim>\<open>internal/progress\<close> has the tables, the execution lock that admits one command at
    a time, the binding of the database to one SP and bucket, and the phases of a task.
    \<^verbatim>\<open>internal/pieceop\<close> has the layout of the piece keys,
    \<^verbatim>\<open>internal/deadline\<close> calls with time limits, \<^verbatim>\<open>internal/spconfig\<close>
    the SP's configuration.

  \<^bold>\<open>How a Go function is modelled.\<close> A function that may fail is an action
  \<^verbatim>\<open>'w => (err + 'a) * 'w\<close> (\<open>act\<close> in \<open>Prelude\<close>): it gives the error
  or the value, and the world afterwards. \<open>bindA\<close> is the early return on an error, \<open>tryA\<close>
  handles one, \<open>deferring\<close> is \<^verbatim>\<open>defer\<close>. Errors are values (\<open>err\<close>)
  with \<^verbatim>\<open>errors.Is\<close> and their text. Go's unsigned and signed 64-bit and 32-bit integers are
  words and wrap around; numbers of rows and lengths are naturals. Strings are lists of bytes. Loops that need not end
  are \<^verbatim>\<open>partial_function (option)\<close>, where \<open>None\<close> means that the loop does not
  end, and no fuel is used. The scan and the verification are proved to return on every input, the deletion of an
  object over a store that keeps \<open>s3_service\<close>; the preview of a dry run (\<open>list_all_from\<close>) ends when the
  store's continuation tokens do, which is not proved.

  \<^bold>\<open>The progress database\<close> (\<^verbatim>\<open>internal/progress\<close>).
  \<^item> \<open>ProgressRows\<close>, \<open>Database\<close>: the rows of the tables (\<open>db\<close> in
    \<open>Database\<close>), contexts and cancellation, the MySQL lock, and what a statement and a transaction do.
    The environment is a script: it may refuse a statement, apply it and lose the reply, interrupt the operator's
    context, or take the lock away.
  \<^item> \<open>TaskMeta\<close> (\<^verbatim>\<open>task.go\<close>), \<open>Capacity\<close>,
    \<open>Subtask\<close>, \<open>SubtaskPhases\<close> (\<^verbatim>\<open>subtask.go\<close>),
    \<open>ProgressQueries\<close> (\<^verbatim>\<open>progress.go\<close>), \<open>Lock\<close>
    (\<^verbatim>\<open>lock.go\<close>): every method of \<^verbatim>\<open>DB\<close> and
    \<^verbatim>\<open>Lock\<close>, statement by statement, under the method's name in small letters
    (\<^verbatim>\<open>CreateSubtask\<close> is \<open>create_subtask\<close>).
  \<^item> \<open>Lifecycle\<close> has the invariant \<open>db_ok\<close>, \<open>Preservation\<close> and
    \<open>Allocation\<close> prove that each operation keeps it on every path. \<open>Sessions\<close> is the
    abstract specification: a step relation \<open>session\<close> over what the running command is doing and its
    world, with \<open>reachable\<close>. \<open>Scenario\<close> is one concrete life of a database.
  \<^item> \<open>Guarantees\<close>: consistency, what a done task means, \<open>all_done\<close>, all or nothing in
    the creation of a task, holds. \<open>Lock\<close>: one process at a time passes the check of the lock.

  \<^bold>\<open>Deletion\<close> (\<^verbatim>\<open>internal/purge\<close>,
  \<^verbatim>\<open>internal/s3store\<close>, \<^verbatim>\<open>internal/pieceop\<close>,
  \<^verbatim>\<open>internal/chain\<close>, \<^verbatim>\<open>internal/deadline\<close>).
  \<^item> \<open>PieceKey\<close> (\<^verbatim>\<open>key.go\<close>) and \<open>SizeCheck\<close>
    (\<^verbatim>\<open>sizecheck.go\<close>): parser and renderer of the keys, the partition of a listing, the
    expected sizes with their wrap-around bound.
  \<^item> \<open>S3Store\<close>: the operations of the store over the client of the SDK, the record
    \<open>s3_api\<close>. \<open>ObjectStore\<close>: the contracts, as locales: \<open>s3_service\<close> (the
    documented behaviour of S3), \<open>object_store\<close> (the Go interface) which it gives, and
    \<open>object_run\<close>. \<open>Bucket\<close> is a bucket that keeps the contract, with faults.
  \<^item> \<open>PurgeObject\<close> (\<^verbatim>\<open>ProcessOne\<close> and below), \<open>PurgeSafety\<close>,
    \<open>PurgeOutcome\<close>, \<open>PurgeResults\<close>: only pieces of the claimed object are requested to be
    deleted, none in a dry run or without the chain's confirmation; the deletion ends; an object that ends without an
    error has lost exactly its pieces.
  \<^item> \<open>PurgeRun\<close> (\<^verbatim>\<open>Run\<close>, \<^verbatim>\<open>work\<close>,
    \<^verbatim>\<open>handle\<close>, \<^verbatim>\<open>stop\<close>, \<^verbatim>\<open>halt\<close>,
    \<^verbatim>\<open>finish\<close>): a step is what one goroutine does between two synchronisations, a run any
    interleaving. \<open>PurgeRunInvariant\<close>, \<open>PurgeRunProgress\<close>: the invariants and the measure.
    \<open>PurgeWorld\<close>: the wiring with the progress database. \<open>PurgeRunResults\<close>: refinement of
    \<open>Sessions\<close>, accounting, halting, holds.
  \<^item> \<open>Deadline\<close> and \<open>ChainClient\<close>: calls with a deadline, retries, which errors are
    transient, the lookups.

  \<^bold>\<open>Verification, scan, configuration.\<close>
  \<^item> \<open>VerifyRun\<close> (\<^verbatim>\<open>internal/verify/verify.go\<close>) and
    \<open>VerifyResults\<close>: the loop and the check of one object; it ends, covers the task, its verdicts are
    sound, it refines \<open>Sessions\<close>. \<open>Paging\<close>: keyset paging as a locale, with four
    interpretations.
  \<^item> \<open>BsdbScan\<close> (\<^verbatim>\<open>internal/bsdb/scan.go\<close>): count, scan, reconciliation
    over an index that may change.
  \<^item> \<open>GoStrings\<close>, \<open>GoUrl\<close>, \<open>SpConfig\<close>: the parts of Go's library on
    strings and URLs that are used, \<^verbatim>\<open>Load\<close>, \<^verbatim>\<open>ParseBucketURL\<close>, the
    binding.

  \<^bold>\<open>Commands\<close> (\<^verbatim>\<open>cmd/limewire-purge\<close>). Each is one definition from its
  parsed flags to the close of the database.
  \<^item> \<open>Opening\<close> (opening under the lock, the clients, printing a task), \<open>Status\<close> and
    \<open>Commands\<close> (\<^verbatim>\<open>runStatus\<close>, \<^verbatim>\<open>main\<close>),
    \<open>TaskCommand\<close> (\<^verbatim>\<open>runTask\<close>), \<open>ScanCommand\<close>
    (\<^verbatim>\<open>runScan\<close>), \<open>VerifyCommand\<close> (\<^verbatim>\<open>runVerify\<close>),
    \<open>ReportFile\<close> (\<^verbatim>\<open>writeReport\<close>), \<open>PurgeCommand\<close>
    (\<^verbatim>\<open>runPurge\<close>, a relation, because its run is not deterministic). \<open>Wiring\<close>
    puts the database beside the store, the index or the disk.
  \<^item> \<open>ScanResults\<close>, \<open>VerifyReport\<close>, \<open>PurgeReport\<close>: what a command that
    reports no error guarantees from end to end: the list is the bucket, the report file is exactly the header and a
    line for each deferred member (\<open>deferral_report\<close>), the members of the task are deleted or deferred. A
    dry run leaves the tables as the opening of a command makes them (\<open>opened_as\<close>), and on an error the
    task may be on hold (\<open>put_hold\<close>). \<open>CommandResults\<close>: every invocation of a command is
    a sequence of steps of \<open>Sessions\<close>, so that the invariants of the reachable states hold between any
    commands; a bucket whose versioning status is refused is not worked on. \<open>CommandScenario\<close>: the process of the examples.

  \<^bold>\<open>Bounds.\<close> A batch of a delete request has at most 1000 keys. A key is tried at most
  \<open>opt_max_retry\<close> + 1 times and a listing \<open>opt_max_retry\<close> + 1 times in a row, which bounds
  the rounds of a prefix together with the number of keys. A chain lookup sends at most three requests. The work left
  after a stop is at most \<open>run_work\<close>. The capacity of a task is at most 2 ^ 63 bytes, which excludes a
  wrap-around of the selection.

  \<^bold>\<open>Parameters.\<close> Code that is not under \<^verbatim>\<open>src/\<close> is an argument: the AWS
  SDK (\<open>s3_api\<close> and the constructor), the Greenfield SDK (\<open>chain_node\<close> and the constructor),
  the MySQL driver's \<^verbatim>\<open>ParseDSN\<close> and connection, the TOML decoder,
  \<^verbatim>\<open>murmur3\<close> and SHA-256 (a function on strings; that it has no collisions is never assumed),
  the rate limiter, the environment variables.

  \<^bold>\<open>Not modelled.\<close>
  \<^item> The parsing of the command line by the package \<^verbatim>\<open>flag\<close>, with the default values and
    help texts of the flags: a parser is a parameter of each command. Unexpected arguments are modelled.
  \<^item> Log lines, the heartbeat of a run (\<^verbatim>\<open>heartbeat\<close>,
    \<^verbatim>\<open>progress\<close>: they only print), the prefix of the logger
    (\<^verbatim>\<open>beginTaskLog\<close>), and the layout of what \<^verbatim>\<open>status\<close> prints besides
    a task's line; the printed values are \<open>status\<close>.
  \<^item> Rates: \<^verbatim>\<open>QPS\<close> only matters as being positive, the limiter is an action that may
    fail; pauses pass no time.
  \<^item> The size limits of the connection pools and their reconnects; a query of the index that is interrupted by
    its context (it may fail, as the script says); a crash in the middle of writing the report file.
  \<^item> The escapes of \<^verbatim>\<open>%q\<close> other than quotes and backslashes.
  \<^item> MySQL itself beyond what the statements need: types and constraints of columns are modelled where the code
    meets them. \<^verbatim>\<open>INSERT IGNORE\<close> stores what the columns hold, with long texts cut and
    numbers clamped (\<open>stored_row\<close>, \<open>stored_binding\<close>).
\<close>

end
